(* ===== verification/Prelude.thy ===== *)
theory Prelude
  imports Main "HOL-Library.Word"
begin

text \<open>
  Shared vocabulary of the development: the machine types of the C++ sources, the ways
  an operation can fail to return (\<open>fault\<close>) and the sequencing of fallible
  operations, \<open>for\<close> loops as \<open>for_each\<close>, raw byte buffers (\<open>memcpy\<close> and the
  little-endian view of integers that the casts \<open>(struct inode *) buf\<close> and
  \<open>(blockid_t *) block_buf\<close> rely on), and what a call sees of its environment: the
  clock and the contents of uninitialised memory.
\<close>

named_theorems res_simps \<open>inversion of sequenced fallible operations\<close>
named_theorems buf_simps \<open>lengths and slices of byte buffers\<close>

section \<open>Machine types\<close>

type_synonym byte = "8 word"
type_synonym u16 = "16 word"
type_synonym u32 = "32 word"
type_synonym u64 = "64 word"

section \<open>Operations that may not return\<close>

text \<open>
  \<open>Exit\<close> is a call of \<open>exit(0)\<close>; \<open>Null_deref\<close> is a dereference of a null pointer;
  \<open>Out_of_bounds\<close> is an access outside an array or buffer; \<open>Assert_fail\<close> is a failed
  \<open>assert\<close> or \<open>VERIFY\<close>; \<open>Blocked\<close> is a wait that no later step of the same
  thread can end; \<open>Thrown\<close> is a C++ exception of the standard library
  (\<open>std::out_of_range\<close>) that no caller catches; \<open>Dangling\<close> is a use of an object that has
  been deleted.
\<close>

datatype fault = Exit | Null_deref | Out_of_bounds | Assert_fail | Blocked | Thrown | Dangling

type_synonym 'a res = "fault + 'a"

definition and_then :: "'a res \<Rightarrow> ('a \<Rightarrow> 'b res) \<Rightarrow> 'b res" where
  "and_then m f = (case m of Inl e \<Rightarrow> Inl e | Inr x \<Rightarrow> f x)"

definition guard :: "fault \<Rightarrow> bool \<Rightarrow> 'a res \<Rightarrow> 'a res" where
  "guard e ok m = (if ok then m else Inl e)"

text \<open>\<open>for (i = a; i < b; i++) body\<close> is \<open>for_each body [a..<b]\<close>.\<close>

fun for_each :: "('i \<Rightarrow> 's \<Rightarrow> 's res) \<Rightarrow> 'i list \<Rightarrow> 's \<Rightarrow> 's res" where
  "for_each body [] s = Inr s"
| "for_each body (i # is) s = and_then (body i s) (for_each body is)"

section \<open>The environment of a call\<close>

text \<open>
  \<open>clock e k\<close> is what the call's \<open>k\<close>-th \<open>time(0)\<close> returns; \<open>heap e\<close> holds the
  bytes of memory fresh from \<open>malloc\<close> and \<open>stack e\<close> those of an uninitialised local
  buffer. The C++ standard leaves the last two open, so every theorem holds for all of
  them unless it says otherwise.
\<close>

record env =
  clock :: "nat \<Rightarrow> u32"
  heap :: "nat \<Rightarrow> byte"
  stack :: "nat \<Rightarrow> byte"

text \<open>A concrete environment: the clock stands at 0 and memory is zero.\<close>

definition env0 :: env where
  "env0 = \<lparr>clock = (\<lambda>_. 0), heap = (\<lambda>_. 0), stack = (\<lambda>_. 0)\<rparr>"

definition malloc :: "env \<Rightarrow> nat \<Rightarrow> byte list" where
  "malloc e n = map (heap e) [0..<n]"

definition local_buf :: "env \<Rightarrow> nat \<Rightarrow> byte list" where
  "local_buf e n = map (stack e) [0..<n]"

text \<open>The environment of a call made later in the same operation.\<close>

definition later :: "env \<Rightarrow> env" where
  "later e = e\<lparr>clock := (\<lambda>k. clock e (k + 8))\<rparr>"

section \<open>Byte buffers\<close>

text \<open>\<open>memcpy(buf + off, src, length src)\<close> into a buffer of known contents.\<close>

definition memcpy :: "nat \<Rightarrow> byte list \<Rightarrow> byte list \<Rightarrow> byte list" where
  "memcpy off src buf = take off buf @ src @ drop (off + length src) buf"

definition bytes_at :: "nat \<Rightarrow> nat \<Rightarrow> byte list \<Rightarrow> byte list" where
  "bytes_at off n buf = take n (drop off buf)"

text \<open>Little-endian integers of a given width.\<close>

fun le_enc :: "nat \<Rightarrow> nat \<Rightarrow> byte list" where
  "le_enc 0 v = []"
| "le_enc (Suc n) v = word_of_nat (v mod 256) # le_enc n (v div 256)"

fun le_dec :: "byte list \<Rightarrow> nat" where
  "le_dec [] = 0"
| "le_dec (b # bs) = unat b + 256 * le_dec bs"

definition get_u32 :: "nat \<Rightarrow> byte list \<Rightarrow> u32" where
  "get_u32 off buf = word_of_nat (le_dec (bytes_at off 4 buf))"

definition put_u32 :: "nat \<Rightarrow> u32 \<Rightarrow> byte list \<Rightarrow> byte list" where
  "put_u32 off w buf = memcpy off (le_enc 4 (unat w)) buf"

text \<open>The division of C, which truncates towards zero.\<close>

definition c_div :: "int \<Rightarrow> int \<Rightarrow> int" where
  "c_div a b = sgn a * sgn b * (\<bar>a\<bar> div \<bar>b\<bar>)"

section \<open>Lemmas: fallible operations\<close>

lemma and_then_simps [simp]:
  "and_then (Inl e) f = Inl e"
  "and_then (Inr x) f = f x"
  by (simp_all add: and_then_def)

lemma and_then_Inr_iff [res_simps]:
  "and_then m f = Inr y \<longleftrightarrow> (\<exists>x. m = Inr x \<and> f x = Inr y)"
  by (cases m) simp_all

lemma guard_simps [simp]:
  "guard e True m = m"
  "guard e False m = Inl e"
  by (simp_all add: guard_def)

lemma guard_Inr_iff [res_simps]: "guard e ok m = Inr y \<longleftrightarrow> ok \<and> m = Inr y"
  by (simp add: guard_def)

lemma and_then_assoc: "and_then (and_then m f) g = and_then m (\<lambda>x. and_then (f x) g)"
  by (cases m) simp_all

lemma for_each_append:
  "for_each body (xs @ ys) s = and_then (for_each body xs s) (for_each body ys)"
proof (induction xs arbitrary: s)
  case (Cons x xs)
  have "for_each body (xs @ ys) = (\<lambda>t. and_then (for_each body xs t) (for_each body ys))"
    using Cons by blast
  then show ?case by (simp add: and_then_assoc)
qed simp

text \<open>The loop rule: an invariant indexed by the number of rounds done, with progress.\<close>

lemma for_each_upt_rule:
  assumes "I a s"
    and step: "\<And>i s. a \<le> i \<Longrightarrow> i < b \<Longrightarrow> I i s \<Longrightarrow> \<exists>t. body i s = Inr t \<and> I (Suc i) t"
    and "a \<le> b"
  shows "\<exists>t. for_each body [a..<b] s = Inr t \<and> I b t"
  using \<open>a \<le> b\<close> step
proof (induction b rule: dec_induct)
  case base
  then show ?case using \<open>I a s\<close> by simp
next
  case (step n)
  have "\<exists>t. for_each body [a..<n] s = Inr t \<and> I n t"
    by (rule step.IH) (simp add: step.prems)
  then obtain t where t: "for_each body [a..<n] s = Inr t" "I n t" by blast
  then obtain t' where "body n t = Inr t'" "I (Suc n) t'"
    using step.prems [of n t] step.hyps by auto
  with t step.hyps show ?case by (simp add: for_each_append)
qed

lemma for_each_invariant:
  assumes "for_each body xs s = Inr t" and "I s"
    and "\<And>i s t. i \<in> set xs \<Longrightarrow> I s \<Longrightarrow> body i s = Inr t \<Longrightarrow> I t"
  shows "I t"
  using assms by (induction xs arbitrary: s) (auto simp: res_simps)

lemma for_each_fail:
  assumes "i \<in> set xs" and "\<And>s. \<exists>f. body i s = Inl f"
  shows "\<exists>f. for_each body xs s = Inl f"
  using assms(1)
proof (induction xs arbitrary: s)
  case (Cons x xs)
  then show ?case
    using assms(2) [of s] by (cases "body x s") auto
qed simp

section \<open>Lemmas: words\<close>

lemma c_div_nonneg: "0 \<le> a \<Longrightarrow> 0 < b \<Longrightarrow> c_div a b = a div b"
  by (cases "a = 0") (simp_all add: c_div_def)

lemma unat_add_no_wrap:
  "unat (a :: u32) + unat b < 2 ^ 32 \<Longrightarrow> unat (a + b) = unat a + unat b"
  by (simp add: unat_word_ariths)

lemma unat_u32_less: "unat (w :: u32) < 2 ^ 32"
proof -
  have "unat w < 2 ^ LENGTH(32)" by (rule unsigned_less)
  then show ?thesis by simp
qed

lemma unat_Suc_less: "off < lim \<Longrightarrow> unat (off + 1 :: u32) = Suc (unat off)"
  using unat_u32_less [of lim] by (subst unat_add_no_wrap) (simp_all add: word_less_nat_alt)

section \<open>Lemmas: byte buffers\<close>

lemma length_malloc [simp]: "length (malloc e n) = n"
  by (simp add: malloc_def)

lemma length_local_buf [simp]: "length (local_buf e n) = n"
  by (simp add: local_buf_def)

lemma length_memcpy [buf_simps]:
  "off + length src \<le> length buf \<Longrightarrow> length (memcpy off src buf) = length buf"
  by (simp add: memcpy_def)

lemma length_bytes_at [buf_simps]: "off + n \<le> length buf \<Longrightarrow> length (bytes_at off n buf) = n"
  by (simp add: bytes_at_def)

lemma nth_memcpy:
  assumes "off + length src \<le> length buf" and "i < length buf"
  shows "memcpy off src buf ! i
    = (if off \<le> i \<and> i < off + length src then src ! (i - off) else buf ! i)"
  using assms by (auto simp: memcpy_def nth_append)

lemma bytes_at_memcpy_same [buf_simps]:
  "off + length src \<le> length buf \<Longrightarrow> n = length src \<Longrightarrow> bytes_at off n (memcpy off src buf) = src"
  by (simp add: bytes_at_def memcpy_def)

lemma bytes_at_memcpy_other [buf_simps]:
  assumes "off + length src \<le> length buf" and "o' + n \<le> length buf"
    and "o' + n \<le> off \<or> off + length src \<le> o'"
  shows "bytes_at o' n (memcpy off src buf) = bytes_at o' n buf"
proof (rule nth_equalityI)
  show "length (bytes_at o' n (memcpy off src buf)) = length (bytes_at o' n buf)"
    using assms by (simp add: buf_simps)
next
  fix i assume "i < length (bytes_at o' n (memcpy off src buf))"
  then have "i < n" using assms by (simp add: buf_simps)
  then show "bytes_at o' n (memcpy off src buf) ! i = bytes_at o' n buf ! i"
    using assms by (auto simp: bytes_at_def nth_memcpy buf_simps)
qed

lemma length_le_enc [simp]: "length (le_enc n v) = n"
  by (induction n arbitrary: v) simp_all

lemma le_dec_enc: "le_dec (le_enc n v) = v mod 256 ^ n"
proof (induction n arbitrary: v)
  case (Suc n)
  have "unat (word_of_nat (v mod 256) :: byte) = v mod 256"
    by (simp add: unat_of_nat)
  with Suc show ?case
    by (simp add: mod_mult2_eq)
qed simp

lemma le_dec_less: "le_dec bs < 256 ^ length bs"
proof (induction bs)
  case (Cons b bs)
  have "unat b < 256" using unsigned_less [of b] by simp
  then have "unat b + 256 * le_dec bs < 256 * Suc (le_dec bs)" by simp
  also have "\<dots> \<le> 256 * 256 ^ length bs"
    using Cons by (intro mult_le_mono2) simp
  finally show ?case by simp
qed simp

lemma le_enc_dec: "le_enc (length bs) (le_dec bs) = bs"
proof (induction bs)
  case (Cons b bs)
  have "unat b < 256" using unsigned_less [of b] by simp
  with Cons show ?case by simp
qed simp

lemma word32_le_roundtrip [simp]: "word_of_nat (le_dec (le_enc 4 (unat (w :: u32)))) = w"
proof -
  have "unat w < 256 ^ 4" using unsigned_less [of w] by simp
  then show ?thesis by (simp add: le_dec_enc)
qed

lemma word16_le_roundtrip [simp]: "word_of_nat (le_dec (le_enc 2 (unat (w :: u16)))) = w"
proof -
  have "unat w < 256 ^ 2" using unsigned_less [of w] by simp
  then show ?thesis by (simp add: le_dec_enc)
qed

lemma word64_le_roundtrip [simp]: "word_of_nat (le_dec (le_enc 8 (unat (w :: u64)))) = w"
proof -
  have "unat w < 256 ^ 8" using unsigned_less [of w] by simp
  then show ?thesis by (simp add: le_dec_enc)
qed

lemma length_put_u32 [buf_simps]:
  "off + 4 \<le> length buf \<Longrightarrow> length (put_u32 off w buf) = length buf"
  by (simp add: put_u32_def buf_simps)

lemma get_put_u32_same [buf_simps]:
  "off + 4 \<le> length buf \<Longrightarrow> get_u32 off (put_u32 off w buf) = w"
  by (simp add: get_u32_def put_u32_def buf_simps)

lemma get_put_u32_other [buf_simps]:
  "off + 4 \<le> length buf \<Longrightarrow> o' + 4 \<le> length buf \<Longrightarrow> o' + 4 \<le> off \<or> off + 4 \<le> o' \<Longrightarrow>
   get_u32 o' (put_u32 off w buf) = get_u32 o' buf"
  by (simp add: get_u32_def put_u32_def bytes_at_memcpy_other)

end
