(* ===== verification/Disk.thy ===== *)
theory Disk
  imports Prelude
begin

text \<open>
  The two lower layers of \<open>inode_manager.cc\<close>: the \<open>disk\<close>, an array of
  \<open>BLOCK_NUM\<close> blocks of \<open>BLOCK_SIZE\<close> bytes, and the \<open>block_manager\<close>, which marks
  blocks as used in \<open>using_blocks\<close> and hands out free ones from \<open>next_block\<close> on.
  The lemmas give the store laws of \<open>read_block\<close> and \<open>write_block\<close>, stated once as
  the interface \<open>block_store\<close> that the inode layer relies on, and the allocation laws
  of \<open>alloc_block\<close>.
\<close>

section \<open>Constants of the disk layout\<close>

definition BLOCK_SIZE :: nat where
  [simp]: "BLOCK_SIZE = 512"

definition BLOCK_NUM :: u32 where
  [simp]: "BLOCK_NUM = 1024 * 1024 * 16 div 512"

definition INODE_NUM :: u32 where
  [simp]: "INODE_NUM = 1024"

definition IPB :: u32 where
  [simp]: "IPB = 1"

definition BPB :: u32 where
  [simp]: "BPB = 512 * 8"

definition IBLOCK :: "u32 \<Rightarrow> u32 \<Rightarrow> u32" where
  "IBLOCK i nblocks = nblocks div BPB + i div IPB + 3"

section \<open>Disk layer\<close>

text \<open>
  The contents of block \<open>bid\<close> are \<open>blocks d bid\<close>; the C++ array ends at \<open>BLOCK_NUM\<close>,
  and every access below is guarded accordingly. A buffer argument is \<open>None\<close> for the
  null pointer.
\<close>

record disk =
  blocks :: "u32 \<Rightarrow> byte list"

definition disk_new :: disk where
  "disk_new = \<lparr>blocks = (\<lambda>_. replicate BLOCK_SIZE 0)\<rparr>"

definition disk_read_block :: "disk \<Rightarrow> u32 \<Rightarrow> byte list option \<Rightarrow> byte list option res" where
  "disk_read_block d bid buf =
     (case buf of
        None \<Rightarrow> Inr None
      | Some b \<Rightarrow>
          if bid < 0 \<or> BLOCK_NUM \<le> bid then Inr (Some b)
          else guard Out_of_bounds (BLOCK_SIZE \<le> length b)
                 (Inr (Some (memcpy 0 (blocks d bid) b))))"

text \<open>\<open>memset\<close> and \<open>memcpy\<close> touch the first \<open>size\<close> bytes of the block only.\<close>

definition disk_write_block :: "disk \<Rightarrow> u32 \<Rightarrow> byte list option \<Rightarrow> int \<Rightarrow> disk res" where
  "disk_write_block d bid buf sz =
     (case buf of
        None \<Rightarrow> Inr d
      | Some b \<Rightarrow>
          if bid < 0 \<or> BLOCK_NUM \<le> bid then Inr d
          else guard Out_of_bounds (0 \<le> sz \<and> sz \<le> int BLOCK_SIZE \<and> sz \<le> int (length b))
                 (let zeroed = memcpy 0 (replicate (nat sz) 0) (blocks d bid)
                  in Inr (d\<lparr>blocks := (blocks d)(bid := memcpy 0 (take (nat sz) b) zeroed)\<rparr>)))"

section \<open>Block layer\<close>

record superblock =
  sb_size :: u32
  sb_nblocks :: u32
  sb_ninodes :: u32

text \<open>
  \<open>using_blocks\<close> is a \<open>std::map<uint32_t, int>\<close> that is accessed through
  \<open>operator[]\<close> only, which yields 0 for a key never stored: a total function.
\<close>

record block_manager =
  bm_disk :: disk
  using_blocks :: "u32 \<Rightarrow> int"
  next_block :: u32
  bm_sb :: superblock

text \<open>
  One allocation loop, \<open>for (off = from; off < lim; off++)\<close>: the first offset whose
  block is not in use.
\<close>

function scan_free :: "(u32 \<Rightarrow> int) \<Rightarrow> u32 \<Rightarrow> u32 \<Rightarrow> u32 \<Rightarrow> u32 option" where
  "scan_free used start off lim =
     (if off < lim
      then (if used (start + off) = 0 then Some off else scan_free used start (off + 1) lim)
      else None)"
  by pat_completeness auto
termination
proof (relation "measure (\<lambda>(used, start, off, lim). unat lim - unat off)")
  fix used :: "u32 \<Rightarrow> int" and start off lim :: u32
  assume "off < lim"
  moreover from this have "unat (off + 1) = Suc (unat off)"
    by (rule unat_Suc_less)
  ultimately show "((used, start, off + 1, lim), (used, start, off, lim))
      \<in> measure (\<lambda>(used, start, off, lim). unat lim - unat off)"
    by (simp add: word_less_nat_alt)
qed simp

definition bm_take :: "block_manager \<Rightarrow> u32 \<Rightarrow> u32 \<Rightarrow> u32 \<times> block_manager" where
  "bm_take bm start off =
     (start + off,
      bm\<lparr>using_blocks := (using_blocks bm)(start + off := 1), next_block := off + 1\<rparr>)"

definition bm_alloc_block :: "block_manager \<Rightarrow> (u32 \<times> block_manager) res" where
  "bm_alloc_block bm =
     (let start = IBLOCK INODE_NUM (sb_nblocks (bm_sb bm)) + 1
      in case scan_free (using_blocks bm) start (next_block bm) BLOCK_NUM of
           Some off \<Rightarrow> Inr (bm_take bm start off)
         | None \<Rightarrow>
             (case scan_free (using_blocks bm) start 0 (next_block bm) of
                Some off \<Rightarrow> Inr (bm_take bm start off)
              | None \<Rightarrow> Inl Exit))"

definition bm_free_block :: "u32 \<Rightarrow> block_manager \<Rightarrow> block_manager" where
  "bm_free_block bid bm = bm\<lparr>using_blocks := (using_blocks bm)(bid := 0)\<rparr>"

text \<open>
  The constructor reads \<open>sb.nblocks\<close> before it sets it: \<open>nblocks0\<close> is what the
  uninitialised field holds.
\<close>

definition bm_new :: "u32 \<Rightarrow> block_manager" where
  "bm_new nblocks0 =
     \<lparr>bm_disk = disk_new,
      using_blocks = (\<lambda>_. 0),
      next_block = IBLOCK INODE_NUM nblocks0 + 1,
      bm_sb = \<lparr>sb_size = word_of_nat BLOCK_SIZE * BLOCK_NUM,
               sb_nblocks = BLOCK_NUM, sb_ninodes = INODE_NUM\<rparr>\<rparr>"

definition bm_read_block ::
    "block_manager \<Rightarrow> u32 \<Rightarrow> byte list option \<Rightarrow> byte list option res" where
  "bm_read_block bm bid buf = disk_read_block (bm_disk bm) bid buf"

definition bm_write_block ::
    "block_manager \<Rightarrow> u32 \<Rightarrow> byte list option \<Rightarrow> int \<Rightarrow> block_manager res" where
  "bm_write_block bm bid buf sz =
     and_then (disk_write_block (bm_disk bm) bid buf sz) (\<lambda>d. Inr (bm\<lparr>bm_disk := d\<rparr>))"

text \<open>
  The idiom \<open>char buf[BLOCK_SIZE]; bm->read_block(bid, buf);\<close> of the inode layer: an
  identifier outside the disk leaves the uninitialised buffer as it was.
\<close>

definition read_local :: "env \<Rightarrow> block_manager \<Rightarrow> u32 \<Rightarrow> byte list res" where
  "read_local e bm bid =
     and_then (bm_read_block bm bid (Some (local_buf e BLOCK_SIZE)))
       (\<lambda>b. case b of None \<Rightarrow> Inl Null_deref | Some c \<Rightarrow> Inr c)"

section \<open>Well-formedness\<close>

text \<open>Offset 0 of the data area is block \<open>DATA_START\<close>; the disk ends \<open>DATA_BLOCKS\<close> later.\<close>

definition DATA_START :: u32 where
  [simp]: "DATA_START = 1036"

definition DATA_BLOCKS :: u32 where
  [simp]: "DATA_BLOCKS = 31732"

definition data_block :: "u32 \<Rightarrow> bool" where
  "data_block bid \<longleftrightarrow> DATA_START \<le> bid \<and> bid < BLOCK_NUM"

definition bm_wf :: "block_manager \<Rightarrow> bool" where
  "bm_wf bm \<longleftrightarrow>
     (\<forall>bid. length (blocks (bm_disk bm) bid) = BLOCK_SIZE) \<and>
     sb_nblocks (bm_sb bm) = BLOCK_NUM \<and> next_block bm \<le> 0x00200000"

abbreviation bm_data :: "block_manager \<Rightarrow> u32 \<Rightarrow> byte list" where
  "bm_data bm \<equiv> blocks (bm_disk bm)"

text \<open>The free blocks of the disk that lie ahead of \<open>next_block\<close>.\<close>

definition free_ahead :: "block_manager \<Rightarrow> nat list" where
  "free_ahead bm =
     filter (\<lambda>off. using_blocks bm (DATA_START + word_of_nat off) = 0)
       [unat (next_block bm)..<unat DATA_BLOCKS]"

declare scan_free.simps [simp del]

section \<open>The allocation loops\<close>

lemma scan_free_first:
  assumes "off \<le> k" "k < lim" "used (start + k) = 0"
    and "\<And>j. off \<le> j \<Longrightarrow> j < k \<Longrightarrow> used (start + j) \<noteq> 0"
  shows "scan_free used start off lim = Some k"
  using assms
proof (induction used start off lim rule: scan_free.induct)
  case (1 used start off lim)
  show ?case
  proof (cases "off = k")
    case True
    with "1.prems" show ?thesis by (simp add: scan_free.simps [of used start k lim])
  next
    case False
    with "1.prems" have less: "off < lim" "off < k" by auto
    with "1.prems"(4) have busy: "used (start + off) \<noteq> 0" by auto
    have "off + 1 \<le> k"
      using less unat_Suc_less [OF less(2)] by (simp add: word_le_nat_alt word_less_nat_alt)
    moreover have "off \<le> j" if "off + 1 \<le> j" for j
      using that unat_Suc_less [OF less(2)] by (simp add: word_le_nat_alt)
    ultimately have "scan_free used start (off + 1) lim = Some k"
      using "1.IH" [OF less(1) busy] "1.prems" by blast
    with less busy show ?thesis by (simp add: scan_free.simps [of used start off lim])
  qed
qed

lemma scan_free_SomeD:
  "scan_free used start off lim = Some k \<Longrightarrow> off \<le> k \<and> k < lim \<and> used (start + k) = 0"
proof (induction used start off lim rule: scan_free.induct)
  case (1 used start off lim)
  show ?case
  proof (cases "off < lim \<and> used (start + off) \<noteq> 0")
    case True
    with "1.prems" have "scan_free used start (off + 1) lim = Some k"
      by (simp add: scan_free.simps [of used start off lim])
    with "1.IH" True have "off + 1 \<le> k \<and> k < lim \<and> used (start + k) = 0" by blast
    with True unat_Suc_less [of off lim] show ?thesis
      by (auto simp: word_le_nat_alt)
  next
    case False
    with "1.prems" show ?thesis
      by (auto simp: scan_free.simps [of used start off lim] split: if_splits)
  qed
qed

lemma scan_free_NoneD:
  assumes "scan_free used start off lim = None" "off \<le> k" "k < lim"
  shows "used (start + k) \<noteq> 0"
  using assms
proof (induction used start off lim rule: scan_free.induct)
  case (1 used start off lim)
  from "1.prems" have less: "off < lim" by auto
  with "1.prems"(1) have busy: "used (start + off) \<noteq> 0"
    and rest: "scan_free used start (off + 1) lim = None"
    by (auto simp: scan_free.simps [of used start off lim] split: if_splits)
  show ?case
  proof (cases "off = k")
    case False
    with "1.prems"(2) have "off < k" by simp
    then have "off + 1 \<le> k"
      using unat_Suc_less [OF less] by (simp add: word_le_nat_alt word_less_nat_alt)
    with "1.IH" [OF less busy rest] "1.prems"(3) show ?thesis by blast
  qed (use busy in simp)
qed

section \<open>Store laws\<close>

text \<open>The effect of a write inside the disk: the first bytes of one block.\<close>

definition bm_put :: "u32 \<Rightarrow> byte list \<Rightarrow> block_manager \<Rightarrow> block_manager" where
  "bm_put bid c bm =
     bm\<lparr>bm_disk := (bm_disk bm)\<lparr>blocks :=
        (bm_data bm)(bid := c @ drop (length c) (bm_data bm bid))\<rparr>\<rparr>"

lemma bm_put_sel [simp]:
  "bm_data (bm_put bid c bm) = (bm_data bm)(bid := c @ drop (length c) (bm_data bm bid))"
  "using_blocks (bm_put bid c bm) = using_blocks bm"
  "next_block (bm_put bid c bm) = next_block bm"
  "bm_sb (bm_put bid c bm) = bm_sb bm"
  by (simp_all add: bm_put_def)

lemma bm_put_wf [intro]: "bm_wf bm \<Longrightarrow> length c \<le> BLOCK_SIZE \<Longrightarrow> bm_wf (bm_put bid c bm)"
  by (simp add: bm_wf_def)

lemma free_ahead_put [simp]: "free_ahead (bm_put bid c bm) = free_ahead bm"
  by (simp add: free_ahead_def)

lemma memcpy_whole: "length src = length buf \<Longrightarrow> memcpy 0 src buf = src"
  by (simp add: memcpy_def)

lemma memcpy_zeroed:
  "length c = n \<Longrightarrow> n \<le> length b \<Longrightarrow> memcpy 0 c (memcpy 0 (replicate n 0) b) = c @ drop n b"
  by (simp add: memcpy_def)

lemma read_local_in:
  "bm_wf bm \<Longrightarrow> bid < BLOCK_NUM \<Longrightarrow> read_local e bm bid = Inr (bm_data bm bid)"
  by (auto simp: read_local_def bm_read_block_def disk_read_block_def bm_wf_def memcpy_whole)

lemma read_local_out: "BLOCK_NUM \<le> bid \<Longrightarrow> read_local e bm bid = Inr (local_buf e BLOCK_SIZE)"
  by (simp add: read_local_def bm_read_block_def disk_read_block_def)

lemma write_block_in:
  assumes "bm_wf bm" "bid < BLOCK_NUM" "n \<le> BLOCK_SIZE" "n \<le> length b"
  shows "bm_write_block bm bid (Some b) (int n) = Inr (bm_put bid (take n b) bm)"
  using assms
  by (simp add: bm_write_block_def disk_write_block_def bm_put_def bm_wf_def memcpy_zeroed
      not_le Let_def)

lemma write_block_out: "BLOCK_NUM \<le> bid \<Longrightarrow> bm_write_block bm bid buf sz = Inr bm"
  by (cases buf) (simp_all add: bm_write_block_def disk_write_block_def)

section \<open>The interface the inode layer relies on\<close>

text \<open>
  A store of cells: a write inside the store succeeds, replaces the first bytes of one
  cell and leaves every other cell alone. The client lemma is about a loop that looks up
  the cell of each round in the store it is writing to, as \<open>write_file\<close> does with
  \<open>get_block_id\<close>: if the lookups do not depend on the cells written, every cell ends
  up with its own chunk.
\<close>

locale block_store =
  fixes inv :: "'s \<Rightarrow> bool"
    and valid :: "'k \<Rightarrow> bool"
    and rd :: "'s \<Rightarrow> 'k \<Rightarrow> byte list"
    and wr :: "'k \<Rightarrow> byte list \<Rightarrow> 's \<Rightarrow> 's res"
  assumes wr_ok: "inv s \<Longrightarrow> valid k \<Longrightarrow> length b \<le> BLOCK_SIZE \<Longrightarrow>
      \<exists>t. wr k b s = Inr t \<and> inv t \<and> rd t = (rd s)(k := b @ drop (length b) (rd s k))"
begin

lemma write_loop:
  assumes "inv s" and "distinct ks" and valid: "\<And>k. k \<in> set ks \<Longrightarrow> valid k"
    and small: "\<And>i. i < length ks \<Longrightarrow> length (chunk i) \<le> BLOCK_SIZE"
    and addr: "\<And>t i. inv t \<Longrightarrow> (\<And>k. k \<notin> set ks \<Longrightarrow> rd t k = rd s k) \<Longrightarrow> i < length ks \<Longrightarrow>
      body i t = wr (ks ! i) (chunk i) t"
  shows "\<exists>t. for_each body [0..<length ks] s = Inr t \<and> inv t \<and>
      (\<forall>i < length ks. rd t (ks ! i) = chunk i @ drop (length (chunk i)) (rd s (ks ! i))) \<and>
      (\<forall>k. k \<notin> set ks \<longrightarrow> rd t k = rd s k)"
proof -
  define I where "I n t \<longleftrightarrow> inv t \<and>
      (\<forall>i < length ks. rd t (ks ! i) =
         (if i < n then chunk i @ drop (length (chunk i)) (rd s (ks ! i)) else rd s (ks ! i))) \<and>
      (\<forall>k. k \<notin> set ks \<longrightarrow> rd t k = rd s k)" for n :: nat and t
  have "\<exists>t. for_each body [0..<length ks] s = Inr t \<and> I (length ks) t"
  proof (rule for_each_upt_rule)
    show "I 0 s" using \<open>inv s\<close> by (simp add: I_def)
  next
    fix i t assume i: "i < length ks" and "I i t"
    then have t: "inv t" "\<And>k. k \<notin> set ks \<Longrightarrow> rd t k = rd s k" by (auto simp: I_def)
    obtain u where u: "wr (ks ! i) (chunk i) t = Inr u" "inv u"
      "rd u = (rd t)(ks ! i := chunk i @ drop (length (chunk i)) (rd t (ks ! i)))"
      using wr_ok [OF t(1) valid [OF nth_mem [OF i]] small [OF i]] by blast
    have "I (Suc i) u"
      using \<open>I i t\<close> u i \<open>distinct ks\<close> by (auto simp: I_def nth_eq_iff_index_eq less_Suc_eq)
    with u(1) addr [OF t i] show "\<exists>u. body i t = Inr u \<and> I (Suc i) u" by simp
  qed simp
  then show ?thesis by (auto simp: I_def)
qed

end

interpretation bs: block_store bm_wf "\<lambda>bid. bid < BLOCK_NUM" bm_data
  "\<lambda>bid b bm. bm_write_block bm bid (Some b) (int (length b))"
  by unfold_locales (auto simp: write_block_in simp del: BLOCK_SIZE_def BLOCK_NUM_def)

section \<open>Allocation laws\<close>

lemma start_block: "bm_wf bm \<Longrightarrow> IBLOCK INODE_NUM (sb_nblocks (bm_sb bm)) + 1 = DATA_START"
  by (simp add: bm_wf_def IBLOCK_def)

lemma bm_take_sel [simp]:
  "fst (bm_take bm start off) = start + off"
  "bm_disk (snd (bm_take bm start off)) = bm_disk bm"
  "bm_sb (snd (bm_take bm start off)) = bm_sb bm"
  "using_blocks (snd (bm_take bm start off)) = (using_blocks bm)(start + off := 1)"
  "next_block (snd (bm_take bm start off)) = off + 1"
  by (simp_all add: bm_take_def)

text \<open>Both loops of a successful allocation end with \<open>bm_take\<close> at a free offset.\<close>

lemma alloc_block_cases:
  assumes "bm_wf bm" and "bm_alloc_block bm = Inr r"
  obtains off where "r = bm_take bm DATA_START off" "using_blocks bm (DATA_START + off) = 0"
    "off < BLOCK_NUM \<or> off < next_block bm"
proof -
  from assms(2) start_block [OF assms(1)]
  consider (fwd) off where "scan_free (using_blocks bm) DATA_START (next_block bm) BLOCK_NUM = Some off"
      "r = bm_take bm DATA_START off"
    | (wrap) off where "scan_free (using_blocks bm) DATA_START 0 (next_block bm) = Some off"
      "r = bm_take bm DATA_START off"
    by (auto simp: bm_alloc_block_def Let_def split: option.splits)
  then show thesis
    using that by cases (auto dest!: scan_free_SomeD)
qed

lemma alloc_block_wf:
  assumes "bm_wf bm" and "bm_alloc_block bm = Inr (bid, bm')"
  shows "bm_wf bm'"
  using assms(1,2)
proof (rule alloc_block_cases)
  fix off assume r: "(bid, bm') = bm_take bm DATA_START off"
    and off: "off < BLOCK_NUM \<or> off < next_block bm"
  from off assms(1) have "off < 0x00200000"
    by (auto simp: bm_wf_def word_less_nat_alt word_le_nat_alt)
  then have "off + 1 \<le> 0x00200000"
    using unat_Suc_less [of off "0x00200000"] by (simp add: word_le_nat_alt word_less_nat_alt)
  with assms(1) r show ?thesis
    by (auto simp: bm_wf_def bm_take_def)
qed

lemma alloc_block_marks:
  assumes "bm_wf bm" and "bm_alloc_block bm = Inr (bid, bm')"
  shows "using_blocks bm bid = 0 \<and> using_blocks bm' = (using_blocks bm)(bid := 1) \<and>
    bm_disk bm' = bm_disk bm \<and> bm_sb bm' = bm_sb bm"
  using assms by (rule alloc_block_cases) (auto simp: bm_take_def)

text \<open>No offset wraps around, so different offsets are different blocks.\<close>

lemma offset_eq_iff:
  "DATA_START + word_of_nat a = (DATA_START + word_of_nat b :: u32) \<longleftrightarrow> a = b"
  if "a < 2 ^ 32" "b < 2 ^ 32"
  using that by (simp add: of_nat_eq_iff word_of_nat_eq_iff take_bit_nat_eq_self)

lemma data_block_offset: "off < unat DATA_BLOCKS \<Longrightarrow> data_block (DATA_START + word_of_nat off)"
proof -
  assume "off < unat DATA_BLOCKS"
  then have off: "off < 31732" by simp
  then have "unat (word_of_nat off :: u32) = off" by (simp add: unat_of_nat)
  with off have "unat (DATA_START + word_of_nat off) = 1036 + off"
    by (subst unat_add_no_wrap) simp_all
  with off show ?thesis by (simp add: data_block_def word_le_nat_alt word_less_nat_alt)
qed

lemma filter_upt_ConsD:
  assumes "filter P [a..<b] = x # xs"
  shows "a \<le> x \<and> x < b \<and> P x \<and> (\<forall>k. a \<le> k \<longrightarrow> k < x \<longrightarrow> \<not> P k) \<and> xs = filter P [Suc x..<b]"
  using assms
proof (induction "b - a" arbitrary: a)
  case (Suc n)
  from Suc.hyps(2) have "[a..<b] = a # [Suc a..<b]" by (simp add: upt_conv_Cons)
  show ?case
  proof (cases "P a")
    case True
    with Suc.prems \<open>[a..<b] = _\<close> Suc.hyps(2) show ?thesis by auto
  next
    case False
    with Suc.prems \<open>[a..<b] = _\<close> have "filter P [Suc a..<b] = x # xs" by simp
    moreover have "n = b - Suc a" using Suc.hyps(2) by simp
    ultimately have IH: "Suc a \<le> x" "x < b" "P x" "xs = filter P [Suc x..<b]"
      and none: "\<And>k. Suc a \<le> k \<Longrightarrow> k < x \<Longrightarrow> \<not> P k" using Suc.hyps(1) by blast+
    have "\<not> P k" if "a \<le> k" "k < x" for k
      using that False none by (cases "k = a") auto
    with IH show ?thesis by simp
  qed
qed simp

text \<open>
  While a free block of the disk lies ahead of \<open>next_block\<close>, an allocation returns the
  first such block, and the rest stay available.
\<close>

lemma alloc_block_ahead:
  assumes wf: "bm_wf bm" and ahead: "free_ahead bm = off # offs"
  shows "\<exists>bm'. bm_alloc_block bm = Inr (DATA_START + word_of_nat off, bm') \<and>
    bm_wf bm' \<and> free_ahead bm' = offs \<and> data_block (DATA_START + word_of_nat off)"
proof -
  let ?k = "word_of_nat off :: u32"
  from filter_upt_ConsD [OF ahead [unfolded free_ahead_def]]
  have off: "unat (next_block bm) \<le> off" "off < unat DATA_BLOCKS"
    and free: "using_blocks bm (DATA_START + ?k) = 0"
    and busy: "\<And>j. unat (next_block bm) \<le> j \<Longrightarrow> j < off \<Longrightarrow>
        using_blocks bm (DATA_START + word_of_nat j) \<noteq> 0"
    and offs: "offs = filter (\<lambda>off. using_blocks bm (DATA_START + word_of_nat off) = 0)
        [Suc off..<unat DATA_BLOCKS]"
    by auto
  from off have k: "unat ?k = off" by (simp add: unat_of_nat)
  have "scan_free (using_blocks bm) DATA_START (next_block bm) BLOCK_NUM = Some ?k"
  proof (rule scan_free_first)
    fix j assume "next_block bm \<le> j" "j < ?k"
    then show "using_blocks bm (DATA_START + j) \<noteq> 0"
      using busy [of "unat j"] k by (simp add: word_le_nat_alt word_less_nat_alt)
  qed (use off k free in \<open>simp_all add: word_le_nat_alt word_less_nat_alt\<close>)
  then have alloc: "bm_alloc_block bm = Inr (bm_take bm DATA_START ?k)"
    using start_block [OF wf] by (simp add: bm_alloc_block_def Let_def)
  have "unat (?k + 1) = Suc off"
    using off k by (subst unat_add_no_wrap) simp_all
  then have "free_ahead (snd (bm_take bm DATA_START ?k)) = offs"
    unfolding free_ahead_def offs using offset_eq_iff [of _ off] off
    by (auto intro!: filter_cong simp del: DATA_START_def)
  then show ?thesis
    using alloc alloc_block_wf [OF wf, of "DATA_START + ?k"] data_block_offset [OF off(2)]
    by (auto simp: bm_take_def simp del: DATA_START_def)
qed

section \<open>Properties\<close>

text \<open>
  C29. Allocation: \<open>alloc_block\<close> returns a block that was not in use and marks exactly that
  block, touching no contents; it gives up (\<open>exit\<close>) only when every offset that either of
  its two loops looks at is in use.
\<close>

theorem alloc_block_fresh:
  assumes "bm_wf bm"
  shows "case bm_alloc_block bm of
      Inr (bid, bm') \<Rightarrow> using_blocks bm bid = 0 \<and> using_blocks bm' = (using_blocks bm)(bid := 1) \<and>
        bm_disk bm' = bm_disk bm \<and> bm_wf bm'
    | Inl f \<Rightarrow> f = Exit \<and> (\<forall>off. off < BLOCK_NUM \<or> off < next_block bm \<longrightarrow>
        using_blocks bm (DATA_START + off) \<noteq> 0)"
proof (cases "bm_alloc_block bm")
  case (Inr r)
  then show ?thesis
    using alloc_block_marks [OF assms] alloc_block_wf [OF assms] by (cases r) auto
next
  case (Inl f)
  with start_block [OF assms] have f: "f = Exit"
    and fwd: "scan_free (using_blocks bm) DATA_START (next_block bm) BLOCK_NUM = None"
    and wrap: "scan_free (using_blocks bm) DATA_START 0 (next_block bm) = None"
    by (auto simp: bm_alloc_block_def Let_def split: option.splits)
  have "using_blocks bm (DATA_START + off) \<noteq> 0" if "off < BLOCK_NUM \<or> off < next_block bm" for off
  proof (cases "off < next_block bm")
    case True
    then show ?thesis using scan_free_NoneD [OF wrap, of off] by simp
  next
    case False
    with that show ?thesis using scan_free_NoneD [OF fwd, of off] by (simp add: not_less)
  qed
  with f Inl show ?thesis by simp
qed

text \<open>A well-formed block manager whose \<open>next_block\<close> stands at \<open>k\<close>.\<close>

definition bm_at :: "u32 \<Rightarrow> block_manager" where
  "bm_at k = (bm_new 0)\<lparr>next_block := k\<rparr>"

lemma bm_at_wf: "k \<le> 0x00200000 \<Longrightarrow> bm_wf (bm_at k)"
  by (simp add: bm_at_def bm_wf_def bm_new_def disk_new_def)

theorem alloc_block_fresh_witness:
  "bm_wf (bm_at 7) \<and> (\<exists>bid bm'. bm_alloc_block (bm_at 7) = Inr (bid, bm') \<and>
     using_blocks (bm_at 7) bid = 0 \<and> using_blocks bm' bid = 1)"
proof -
  have wf: "bm_wf (bm_at 7)" by (rule bm_at_wf) simp
  have "bm_alloc_block (bm_at 7) \<noteq> Inl f" for f
    using alloc_block_fresh [OF wf]
    by (auto simp: bm_at_def bm_new_def split: sum.splits intro!: exI [of _ 0] dest!: spec [of _ 0])
  then obtain bid bm' where "bm_alloc_block (bm_at 7) = Inr (bid, bm')"
    by (cases "bm_alloc_block (bm_at 7)") auto
  with alloc_block_fresh [OF wf] wf show ?thesis by simp
qed

text \<open>
  The block store: after \<open>write_block\<close> of a prefix of a block inside the disk,
  \<open>read_block\<close> of that block returns the bytes written followed by the old rest, and
  \<open>read_block\<close> of every other block returns what it returned before.
\<close>

theorem write_block_read_block:
  assumes "bm_wf bm" and "bid < BLOCK_NUM" and "length c \<le> BLOCK_SIZE"
  shows "\<exists>bm'. bm_write_block bm bid (Some c) (int (length c)) = Inr bm' \<and>
    read_local e bm' bid = Inr (c @ drop (length c) (bm_data bm bid)) \<and>
    (\<forall>b. b \<noteq> bid \<longrightarrow> read_local e bm' b = read_local e bm b)"
proof -
  from bs.wr_ok [OF assms] obtain bm' where w: "bm_write_block bm bid (Some c) (int (length c)) = Inr bm'"
    "bm_wf bm'" "bm_data bm' = (bm_data bm)(bid := c @ drop (length c) (bm_data bm bid))" by blast
  have "read_local e bm' b = read_local e bm b" if "b \<noteq> bid" for b
  proof (cases "b < BLOCK_NUM")
    case True
    with w that assms(1) show ?thesis by (simp add: read_local_in del: BLOCK_NUM_def)
  next
    case False
    then show ?thesis by (simp add: read_local_out not_less del: BLOCK_NUM_def)
  qed
  with w assms(2) show ?thesis by (auto simp: read_local_in simp del: BLOCK_NUM_def)
qed

theorem write_block_read_block_witness:
  "\<exists>bm'. bm_write_block (bm_at 0) 2000 (Some [1, 2]) (int (length [1, 2 :: byte])) = Inr bm' \<and>
    read_local env0 bm' 2000 = Inr ([1, 2] @ drop (length [1, 2 :: byte]) (bm_data (bm_at 0) 2000))"
  using write_block_read_block [OF bm_at_wf, of 0 2000 "[1, 2]" env0] by auto

text \<open>
  The scan runs past the end of the disk: \<open>alloc_block\<close> bounds the offset from the
  start of the data area by \<open>BLOCK_NUM\<close>, the number of blocks of the whole disk. Once
  \<open>next_block\<close> has passed the last data block, the next allocation returns \<open>BLOCK_NUM\<close>,
  which is no block of the disk, and what is written there is dropped without an error.
\<close>

theorem alloc_block_past_disk:
  assumes "bm_wf bm" and "next_block bm = DATA_BLOCKS" and "using_blocks bm BLOCK_NUM = 0"
  shows "\<exists>bm'. bm_alloc_block bm = Inr (BLOCK_NUM, bm') \<and>
    bm_write_block bm' BLOCK_NUM buf sz = Inr bm' \<and>
    read_local e bm' BLOCK_NUM = Inr (local_buf e BLOCK_SIZE)"
proof -
  have "scan_free (using_blocks bm) DATA_START (next_block bm) BLOCK_NUM = Some DATA_BLOCKS"
    by (rule scan_free_first) (use assms(2,3) in auto)
  then have "bm_alloc_block bm = Inr (bm_take bm DATA_START DATA_BLOCKS)"
    using start_block [OF assms(1)] by (simp add: bm_alloc_block_def Let_def)
  then have "\<exists>bm'. bm_alloc_block bm = Inr (BLOCK_NUM, bm')"
    by (simp add: bm_take_def)
  then show ?thesis
    using write_block_out [of BLOCK_NUM] read_local_out [of BLOCK_NUM] by blast
qed

theorem alloc_block_past_disk_witness:
  "\<exists>bm'. bm_alloc_block (bm_at DATA_BLOCKS) = Inr (BLOCK_NUM, bm') \<and>
    bm_write_block bm' BLOCK_NUM (Some [1]) 1 = Inr bm' \<and>
    read_local env0 bm' BLOCK_NUM = Inr (local_buf env0 BLOCK_SIZE)"
  by (rule alloc_block_past_disk [OF bm_at_wf]) (simp_all add: bm_at_def bm_new_def)

end
