(* ===== verification/Extent_Protocol.thy ===== *)
theory Extent_Protocol
  imports Prelude
begin

text \<open>
  The data of \<open>extent_protocol.h\<close>: the status codes and inode types of the extent
  protocol and the attributes an extent is described by.
\<close>

type_synonym extentid_t = u64

text \<open>\<open>enum types\<close>: 1, 2 and 3; 0 marks a free inode.\<close>

definition T_DIR :: u32 where [simp]: "T_DIR = 1"
definition T_FILE :: u32 where [simp]: "T_FILE = 2"
definition T_SYMLINK :: u32 where [simp]: "T_SYMLINK = 3"

record attr =
  a_type :: u32
  a_atime :: u32
  a_mtime :: u32
  a_ctime :: u32
  a_size :: u32

text \<open>\<open>memset(&attr, 0, sizeof(attr))\<close>.\<close>

definition attr_zero :: attr where
  "attr_zero = \<lparr>a_type = 0, a_atime = 0, a_mtime = 0, a_ctime = 0, a_size = 0\<rparr>"

end
