(* ===== verification/Inode.thy ===== *)
theory Inode
  imports Disk Extent_Protocol
begin

text \<open>
  The \<open>inode_manager\<close> of \<open>inode_manager.cc\<close>: inodes as 424-byte structures in the
  inode table of the disk, block numbers direct and through one indirect block, and the
  operations \<open>alloc_inode\<close>, \<open>free_inode\<close>, \<open>get_inode\<close>, \<open>put_inode\<close>,
  \<open>read_file\<close>, \<open>write_file\<close>, \<open>getattr\<close>, \<open>remove_file\<close>, \<open>get_block_id\<close> and
  \<open>set_block_id\<close>.
\<close>

section \<open>Inodes and their layout on disk\<close>

definition NDIRECT :: nat where
  [simp]: "NDIRECT = 100"

definition NINDIRECT :: nat where
  [simp]: "NINDIRECT = 512 div 4"

definition MAXFILE :: nat where
  [simp]: "MAXFILE = NDIRECT + NINDIRECT"

record inode =
  i_type :: u16
  i_size :: u32
  i_atime :: u32
  i_mtime :: u32
  i_ctime :: u32
  i_blocks :: "u32 list"

text \<open>
  \<open>struct inode\<close> in memory: \<open>short type\<close> at 0, two bytes of padding, the four
  \<open>unsigned int\<close> fields from 4 on, \<open>blocks[NDIRECT + 1]\<close> from 20 on; 424 bytes in
  all. Storing an inode leaves the padding bytes as they are (C++ leaves them open, and
  nothing reads them).
\<close>

definition INODE_BYTES :: nat where
  [simp]: "INODE_BYTES = 424"

definition load_inode :: "byte list \<Rightarrow> inode" where
  "load_inode buf =
     \<lparr>i_type = word_of_nat (le_dec (bytes_at 0 2 buf)),
      i_size = get_u32 4 buf, i_atime = get_u32 8 buf,
      i_mtime = get_u32 12 buf, i_ctime = get_u32 16 buf,
      i_blocks = map (\<lambda>i. get_u32 (20 + 4 * i) buf) [0..<NDIRECT + 1]\<rparr>"

definition store_inode :: "inode \<Rightarrow> byte list \<Rightarrow> byte list" where
  "store_inode ino buf =
     memcpy 4 (concat (map (\<lambda>w. le_enc 4 (unat w))
        ([i_size ino, i_atime ino, i_mtime ino, i_ctime ino] @ i_blocks ino)))
       (memcpy 0 (le_enc 2 (unat (i_type ino))) buf)"

text \<open>\<open>(struct inode *) buf + inum % IPB\<close>.\<close>

definition inode_off :: "u32 \<Rightarrow> nat" where
  "inode_off inum = unat (inum mod IPB) * INODE_BYTES"

section \<open>State\<close>

record inode_manager =
  next_inum :: u32
  im_bm :: block_manager

definition im_IBLOCK :: "u32 \<Rightarrow> inode_manager \<Rightarrow> u32" where
  "im_IBLOCK inum im = IBLOCK inum (sb_nblocks (bm_sb (im_bm im)))"

section \<open>Operations\<close>

definition get_inode :: "env \<Rightarrow> u32 \<Rightarrow> inode_manager \<Rightarrow> inode option res" where
  "get_inode e inum im =
     (if inum < 0 \<or> INODE_NUM \<le> inum then Inr None
      else and_then (read_local e (im_bm im) (im_IBLOCK inum im))
        (\<lambda>buf. let ino_disk = load_inode (drop (inode_off inum) buf)
               in if i_type ino_disk = 0 then Inr None else Inr (Some ino_disk)))"

definition put_inode :: "env \<Rightarrow> u32 \<Rightarrow> inode option \<Rightarrow> inode_manager \<Rightarrow> inode_manager res" where
  "put_inode e inum ino im =
     (case ino of
        None \<Rightarrow> Inr im
      | Some n \<Rightarrow>
          and_then (read_local e (im_bm im) (im_IBLOCK inum im))
            (\<lambda>buf. let off = inode_off inum;
                       buf' = take off buf @ store_inode n (drop off buf)
                   in and_then (bm_write_block (im_bm im) (im_IBLOCK inum im) (Some buf')
                                  (int BLOCK_SIZE))
                        (\<lambda>bm. Inr (im\<lparr>im_bm := bm\<rparr>))))"

text \<open>
  \<open>alloc_inode\<close>: the node that is written comes from \<open>malloc\<close>, and only \<open>type\<close>,
  \<open>size\<close> and the three times are set, so \<open>blocks\<close> keeps what the heap held.
\<close>

definition malloc_inode :: "env \<Rightarrow> u32 \<Rightarrow> inode" where
  "malloc_inode e type =
     (load_inode (malloc e INODE_BYTES))
       \<lparr>i_type := ucast type, i_size := 0,
        i_atime := clock e 0, i_mtime := clock e 1, i_ctime := clock e 2\<rparr>"

function scan_inode :: "env \<Rightarrow> inode_manager \<Rightarrow> u32 \<Rightarrow> u32 \<Rightarrow> u32 option res" where
  "scan_inode e im i lim =
     (if i < lim
      then (case get_inode e i im of
              Inl f \<Rightarrow> Inl f
            | Inr None \<Rightarrow> Inr (Some i)
            | Inr (Some node) \<Rightarrow>
                if i_type node = 0 then Inr (Some i) else scan_inode e im (i + 1) lim)
      else Inr None)"
  by pat_completeness auto
termination
  by (relation "measure (\<lambda>(e, im, i, lim). unat lim - unat i)")
    (auto simp: unat_Suc_less word_less_nat_alt)

definition take_inode ::
    "env \<Rightarrow> u32 \<Rightarrow> u32 \<Rightarrow> inode_manager \<Rightarrow> (u32 \<times> inode_manager) res" where
  "take_inode e type i im =
     and_then (put_inode e i (Some (malloc_inode e type)) im)
       (\<lambda>im'. Inr (i, im'\<lparr>next_inum := i + 1\<rparr>))"

definition alloc_inode :: "env \<Rightarrow> u32 \<Rightarrow> inode_manager \<Rightarrow> (u32 \<times> inode_manager) res" where
  "alloc_inode e type im =
     and_then (scan_inode e im (next_inum im) INODE_NUM)
       (\<lambda>found. case found of
          Some i \<Rightarrow> take_inode e type i im
        | None \<Rightarrow>
            and_then (scan_inode e im 1 (next_inum im))
              (\<lambda>found. case found of
                 Some i \<Rightarrow> take_inode e type i im
               | None \<Rightarrow> Inr (0, im)))"

text \<open>The constructor; \<open>nblocks0\<close> as in \<open>bm_new\<close>.\<close>

definition im_new :: "env \<Rightarrow> u32 \<Rightarrow> inode_manager res" where
  "im_new e nblocks0 =
     and_then (alloc_inode e T_DIR \<lparr>next_inum = 1, im_bm = bm_new nblocks0\<rparr>)
       (\<lambda>(root_dir, im). if root_dir \<noteq> 1 then Inl Exit else Inr im)"

definition free_inode :: "env \<Rightarrow> u32 \<Rightarrow> inode_manager \<Rightarrow> inode_manager res" where
  "free_inode e inum im =
     and_then (get_inode e inum im)
       (\<lambda>node. case node of
          None \<Rightarrow> Inr im
        | Some n \<Rightarrow> put_inode e inum (Some (n\<lparr>i_type := 0\<rparr>)) im)"

definition get_block_id :: "env \<Rightarrow> block_manager \<Rightarrow> inode \<Rightarrow> int \<Rightarrow> u32 res" where
  "get_block_id e bm node index =
     (if int NDIRECT \<le> index
      then and_then (read_local e bm (i_blocks node ! NDIRECT))
        (\<lambda>block_buf. guard Out_of_bounds (index - int NDIRECT < int NINDIRECT)
           (Inr (get_u32 (4 * nat (index - int NDIRECT)) block_buf)))
      else guard Out_of_bounds (0 \<le> index) (Inr (i_blocks node ! nat index)))"

definition set_block_id ::
    "env \<Rightarrow> int \<Rightarrow> u32 \<Rightarrow> inode \<times> block_manager \<Rightarrow> (inode \<times> block_manager) res" where
  "set_block_id e index bid = (\<lambda>(node, bm).
     if int NDIRECT \<le> index
     then and_then
        (if i_blocks node ! NDIRECT = 0
         then and_then (bm_alloc_block bm)
           (\<lambda>(ind, bm'). Inr (node\<lparr>i_blocks := (i_blocks node)[NDIRECT := ind]\<rparr>, bm'))
         else Inr (node, bm))
        (\<lambda>(node, bm).
          and_then (read_local e bm (i_blocks node ! NDIRECT))
            (\<lambda>block_buf. guard Out_of_bounds (index - int NDIRECT < int NINDIRECT)
               (let block_buf' = put_u32 (4 * nat (index - int NDIRECT)) bid block_buf
                in and_then (bm_write_block bm (i_blocks node ! NDIRECT) (Some block_buf')
                              (int BLOCK_SIZE))
                     (\<lambda>bm'. Inr (node, bm')))))
     else guard Out_of_bounds (0 \<le> index)
            (Inr (node\<lparr>i_blocks := (i_blocks node)[nat index := bid]\<rparr>, bm)))"

text \<open>\<open>NBLOCKS(size)\<close> on an \<open>unsigned int\<close> and on an \<open>int\<close>, each behind its test for 0.\<close>

definition nblocks_unsigned :: "u32 \<Rightarrow> int" where
  "nblocks_unsigned sz = (if sz = 0 then 0 else uint ((sz - 1) div 512 + 1))"

definition nblocks_signed :: "int \<Rightarrow> int" where
  "nblocks_signed sz = (if sz = 0 then 0 else c_div (sz - 1) 512 + 1)"

text \<open>One round of the copy loop of \<open>read_file\<close>.\<close>

definition read_round ::
    "env \<Rightarrow> block_manager \<Rightarrow> inode \<Rightarrow> nat \<Rightarrow> nat \<Rightarrow> byte list \<Rightarrow> byte list res" where
  "read_round e bm node nb i buf =
     and_then (get_block_id e bm node (int i))
       (\<lambda>bid. and_then (read_local e bm bid)
         (\<lambda>block_buf.
           let sz = (if i = nb - 1 then unat (i_size node) - i * BLOCK_SIZE else BLOCK_SIZE)
           in guard Out_of_bounds (sz \<le> BLOCK_SIZE)
                (Inr (memcpy (i * BLOCK_SIZE) (take sz block_buf) buf))))"

definition read_file ::
    "env \<Rightarrow> u32 \<Rightarrow> inode_manager \<Rightarrow> ((byte list \<times> u32) \<times> inode_manager) res" where
  "read_file e inum im =
     and_then (get_inode e inum im)
       (\<lambda>found. case found of
          None \<Rightarrow> Inl Null_deref
        | Some node \<Rightarrow>
            let nb = nat (nblocks_unsigned (i_size node))
            in and_then (for_each (read_round e (im_bm im) node nb) [0..<nb]
                          (malloc e (BLOCK_SIZE * nb)))
                 (\<lambda>buf. and_then (put_inode e inum (Some (node\<lparr>i_atime := clock e 0\<rparr>)) im)
                    (\<lambda>im'. Inr ((buf, i_size node), im'))))"

text \<open>The three loops of \<open>write_file\<close>: grow, shrink and copy.\<close>

definition grow_round ::
    "env \<Rightarrow> int \<Rightarrow> nat \<Rightarrow> inode \<times> block_manager \<Rightarrow> (inode \<times> block_manager) res" where
  "grow_round e old_blocks index = (\<lambda>(node, bm).
     and_then (bm_alloc_block bm)
       (\<lambda>(bid, bm'). set_block_id e (old_blocks + int index) bid (node, bm')))"

definition shrink_round ::
    "env \<Rightarrow> inode \<Rightarrow> int \<Rightarrow> nat \<Rightarrow> block_manager \<Rightarrow> block_manager res" where
  "shrink_round e node new_blocks index bm =
     and_then (get_block_id e bm node (new_blocks + int index))
       (\<lambda>bid. Inr (bm_free_block bid bm))"

definition write_round ::
    "env \<Rightarrow> inode \<Rightarrow> byte list \<Rightarrow> int \<Rightarrow> int \<Rightarrow> nat \<Rightarrow> block_manager \<Rightarrow> block_manager res" where
  "write_round e node buf sz new_blocks index bm =
     (let bsize = (if int index = new_blocks - 1 then sz - int index * int BLOCK_SIZE
                   else int BLOCK_SIZE)
      in and_then (get_block_id e bm node (int index))
           (\<lambda>bid. bm_write_block bm bid (Some (drop (BLOCK_SIZE * index) buf)) bsize))"

definition resize_blocks ::
    "env \<Rightarrow> int \<Rightarrow> int \<Rightarrow> inode \<times> block_manager \<Rightarrow> (inode \<times> block_manager) res" where
  "resize_blocks e old_blocks new_blocks = (\<lambda>(node, bm).
     if old_blocks < new_blocks
     then for_each (grow_round e old_blocks) [0..<nat (new_blocks - old_blocks)] (node, bm)
     else if new_blocks < old_blocks
     then and_then
        (for_each (shrink_round e node new_blocks) [0..<nat (old_blocks - new_blocks)] bm)
        (\<lambda>bm'. Inr (node, bm'))
     else Inr (node, bm))"

definition write_file ::
    "env \<Rightarrow> u32 \<Rightarrow> byte list \<Rightarrow> int \<Rightarrow> inode_manager \<Rightarrow> inode_manager res" where
  "write_file e inum buf sz im =
     and_then (get_inode e inum im)
       (\<lambda>found. case found of
          None \<Rightarrow> Inl Null_deref
        | Some node \<Rightarrow>
            let old_blocks = nblocks_unsigned (i_size node);
                new_blocks = nblocks_signed sz
            in and_then (resize_blocks e old_blocks new_blocks
                          (node\<lparr>i_size := word_of_int sz\<rparr>, im_bm im))
                 (\<lambda>(node, bm).
                   and_then (for_each (write_round e node buf sz new_blocks)
                              [0..<nat new_blocks] bm)
                     (\<lambda>bm'. put_inode e inum
                        (Some (node\<lparr>i_atime := clock e 0, i_mtime := clock e 1,
                                    i_ctime := clock e 2\<rparr>))
                        (im\<lparr>im_bm := bm'\<rparr>))))"

definition im_getattr :: "env \<Rightarrow> u32 \<Rightarrow> attr \<Rightarrow> inode_manager \<Rightarrow> attr res" where
  "im_getattr e inum a im =
     and_then (get_inode e inum im)
       (\<lambda>found. case found of
          None \<Rightarrow> Inr a
        | Some node \<Rightarrow>
            Inr (a\<lparr>a_type := scast (i_type node), a_atime := i_atime node,
                   a_mtime := i_mtime node, a_ctime := i_ctime node,
                   a_size := i_size node\<rparr>))"

definition remove_file :: "env \<Rightarrow> u32 \<Rightarrow> inode_manager \<Rightarrow> inode_manager res" where
  "remove_file e inum im =
     and_then (get_inode e inum im)
       (\<lambda>found. case found of
          None \<Rightarrow> Inl Null_deref
        | Some node \<Rightarrow>
            and_then (for_each (shrink_round e node 0)
                       [0..<nat (nblocks_unsigned (i_size node))] (im_bm im))
              (\<lambda>bm. free_inode e inum (im\<lparr>im_bm := bm\<rparr>)))"

declare scan_inode.simps [simp del]

section \<open>Layout lemmas\<close>

lemma inode_off_0 [simp]: "inode_off inum = 0"
  by (simp add: inode_off_def)

lemma length_concat_enc [simp]: "length (concat (map (\<lambda>w. le_enc 4 (f w)) ws)) = 4 * length ws"
  by (induction ws) simp_all

lemma bytes_at_concat_enc:
  "i < length ws \<Longrightarrow> bytes_at (4 * i) 4 (concat (map (\<lambda>w. le_enc 4 (f w)) ws)) = le_enc 4 (f (ws ! i))"
proof (induction ws arbitrary: i)
  case (Cons w ws)
  then show ?case
    by (cases i) (simp_all add: bytes_at_def)
qed simp

text \<open>Words stored in a row can be read back one by one.\<close>

lemma get_u32_row:
  assumes "off + 4 * length ws \<le> length buf" "i < length ws"
  shows "get_u32 (off + 4 * i) (memcpy off (concat (map (\<lambda>w. le_enc 4 (unat w)) ws)) buf) = ws ! i"
proof -
  let ?row = "concat (map (\<lambda>w. le_enc 4 (unat w)) ws)"
  have "bytes_at (off + 4 * i) 4 (memcpy off ?row buf) = bytes_at (4 * i) 4 ?row"
    using assms by (simp add: bytes_at_def memcpy_def)
  then show ?thesis
    using assms by (simp add: get_u32_def bytes_at_concat_enc)
qed

definition inode_shape :: "inode \<Rightarrow> bool" where
  "inode_shape n \<longleftrightarrow> length (i_blocks n) = NDIRECT + 1"

lemma load_store_inode:
  assumes "inode_shape n" "INODE_BYTES \<le> length buf"
  shows "load_inode (store_inode n buf) = n"
proof -
  let ?ws = "[i_size n, i_atime n, i_mtime n, i_ctime n] @ i_blocks n"
  let ?b0 = "memcpy 0 (le_enc 2 (unat (i_type n))) buf"
  have len: "length ?b0 = length buf" "length ?ws = 105"
    using assms by (simp_all add: buf_simps inode_shape_def)
  have word: "get_u32 (4 + 4 * i) (store_inode n buf) = ?ws ! i" if "i < 105" for i
    unfolding store_inode_def by (rule get_u32_row) (use that assms len in simp_all)
  have "bytes_at 0 2 (store_inode n buf) = bytes_at 0 2 ?b0"
    unfolding store_inode_def
    by (rule bytes_at_memcpy_other) (use assms len in \<open>simp_all add: inode_shape_def\<close>)
  also have "\<dots> = le_enc 2 (unat (i_type n))"
    using assms by (simp add: bytes_at_memcpy_same)
  finally have type: "bytes_at 0 2 (store_inode n buf) = le_enc 2 (unat (i_type n))" .
  have "map (\<lambda>i. get_u32 (20 + 4 * i) (store_inode n buf)) [0..<NDIRECT + 1] = i_blocks n"
  proof (rule nth_equalityI)
    fix i assume "i < length (map (\<lambda>i. get_u32 (20 + 4 * i) (store_inode n buf)) [0..<NDIRECT + 1])"
    then have i: "i < NDIRECT + 1" by simp
    then show "map (\<lambda>i. get_u32 (20 + 4 * i) (store_inode n buf)) [0..<NDIRECT + 1] ! i = i_blocks n ! i"
      using word [of "i + 4"] by (simp add: nth_append del: upt_Suc)
  qed (use assms in \<open>simp add: inode_shape_def\<close>)
  moreover have "get_u32 4 (store_inode n buf) = i_size n" "get_u32 8 (store_inode n buf) = i_atime n"
    "get_u32 12 (store_inode n buf) = i_mtime n" "get_u32 16 (store_inode n buf) = i_ctime n"
    using word [of 0] word [of 1] word [of 2] word [of 3] by simp_all
  ultimately show ?thesis
    using type by (simp add: load_inode_def)
qed

lemma load_inode_shape [simp]: "inode_shape (load_inode buf)"
  by (simp add: inode_shape_def load_inode_def)

lemma length_store_inode [buf_simps]:
  "inode_shape n \<Longrightarrow> INODE_BYTES \<le> length buf \<Longrightarrow> length (store_inode n buf) = length buf"
  by (simp add: store_inode_def inode_shape_def buf_simps)

lemma inode_shape_update [simp]:
  "inode_shape (n\<lparr>i_type := t\<rparr>) = inode_shape n" "inode_shape (n\<lparr>i_size := z\<rparr>) = inode_shape n"
  "inode_shape (n\<lparr>i_atime := z\<rparr>) = inode_shape n" "inode_shape (n\<lparr>i_mtime := z\<rparr>) = inode_shape n"
  "inode_shape (n\<lparr>i_ctime := z\<rparr>) = inode_shape n"
  by (simp_all add: inode_shape_def)

section \<open>Block counts\<close>

text \<open>The number of blocks a file of \<open>n\<close> bytes occupies.\<close>

definition nblk :: "nat \<Rightarrow> nat" where
  "nblk n = (n + 511) div 512"

lemma nblk_0 [simp]: "nblk 0 = 0"
  by (simp add: nblk_def)

lemma nblk_pos: "0 < n \<Longrightarrow> nblk n = (n - 1) div 512 + 1"
  by (simp add: nblk_def)

lemma nblocks_unsigned_eq: "nblocks_unsigned sz = int (nblk (unat sz))"
proof (cases "sz = 0")
  case False
  then have "0 < unat sz" by (simp add: unat_gt_0)
  moreover have "unat (sz - 1) = unat sz - 1"
    using False by (simp add: unat_minus_one)
  moreover have "unat ((sz - 1) div 512 + 1) = (unat sz - 1) div 512 + 1"
    using unat_u32_less [of sz] \<open>unat (sz - 1) = _\<close>
    by (subst unat_add_no_wrap) (simp_all add: unat_div)
  ultimately show ?thesis
    using False by (simp add: nblocks_unsigned_def nblk_pos uint_nat)
qed (simp add: nblocks_unsigned_def)

lemma nblocks_signed_eq: "nblocks_signed (int n) = int (nblk n)"
proof (cases n)
  case (Suc m)
  have "c_div (int m) 512 = int (m div 512)"
    by (subst c_div_nonneg) (simp_all add: zdiv_int)
  with Suc show ?thesis
    by (simp add: nblocks_signed_def nblk_pos)
qed (simp add: nblocks_signed_def)

end
