(* ===== verification/Inode_File.thy ===== *)
theory Inode_File
  imports Inode
begin

text \<open>
  What the inode layer keeps true and what it promises. A file's blocks are
  \<open>file_ids\<close>, its contents \<open>file_data\<close>; \<open>im_inv\<close> says that the blocks of all files
  are distinct, lie in the data area and are marked in use; \<open>files\<close> abstracts an
  inode manager to a map from inode numbers to types and contents. Every operation
  preserves \<open>im_inv\<close> and acts on \<open>files\<close> as the corresponding map operation.
\<close>

section \<open>Blocks and contents of a file\<close>

definition blk_id :: "(u32 \<Rightarrow> byte list) \<Rightarrow> inode \<Rightarrow> nat \<Rightarrow> u32" where
  "blk_id D n i =
     (if i < NDIRECT then i_blocks n ! i
      else get_u32 (4 * (i - NDIRECT)) (D (i_blocks n ! NDIRECT)))"

definition file_ids :: "(u32 \<Rightarrow> byte list) \<Rightarrow> inode \<Rightarrow> nat \<Rightarrow> u32 list" where
  "file_ids D n m = map (blk_id D n) [0..<m]"

definition ind_ids :: "inode \<Rightarrow> u32 list" where
  "ind_ids n = (if i_blocks n ! NDIRECT = 0 then [] else [i_blocks n ! NDIRECT])"

abbreviation own_ids :: "(u32 \<Rightarrow> byte list) \<Rightarrow> inode \<Rightarrow> nat \<Rightarrow> u32 list" where
  "own_ids D n m \<equiv> file_ids D n m @ ind_ids n"

definition file_data :: "(u32 \<Rightarrow> byte list) \<Rightarrow> inode \<Rightarrow> byte list" where
  "file_data D n =
     take (unat (i_size n)) (concat (map D (file_ids D n (nblk (unat (i_size n))))))"

text \<open>The first \<open>m\<close> blocks of \<open>n\<close> and its indirect block are a well-formed set of blocks.\<close>

definition node_ok :: "block_manager \<Rightarrow> inode \<Rightarrow> nat \<Rightarrow> bool" where
  "node_ok bm n m \<longleftrightarrow>
     inode_shape n \<and> m \<le> MAXFILE \<and> (NDIRECT < m \<longrightarrow> i_blocks n ! NDIRECT \<noteq> 0) \<and>
     distinct (own_ids (bm_data bm) n m) \<and>
     (\<forall>b \<in> set (own_ids (bm_data bm) n m). data_block b \<and> using_blocks bm b \<noteq> 0)"

lemma length_file_ids [simp]: "length (file_ids D n m) = m"
  by (simp add: file_ids_def)

lemma nth_file_ids [simp]: "i < m \<Longrightarrow> file_ids D n m ! i = blk_id D n i"
  by (simp add: file_ids_def)

lemma file_ids_Suc: "file_ids D n (Suc m) = file_ids D n m @ [blk_id D n m]"
  by (simp add: file_ids_def)

lemma take_file_ids: "k \<le> m \<Longrightarrow> take k (file_ids D n m) = file_ids D n k"
  by (simp add: file_ids_def take_map)

lemma blk_id_cong:
  "i_blocks n = i_blocks n' \<Longrightarrow> (NDIRECT \<le> i \<Longrightarrow> D (i_blocks n ! NDIRECT) = D' (i_blocks n ! NDIRECT)) \<Longrightarrow>
   blk_id D n i = blk_id D' n' i"
  by (simp add: blk_id_def)

lemma file_ids_cong:
  "i_blocks n = i_blocks n' \<Longrightarrow> (NDIRECT < m \<Longrightarrow> D (i_blocks n ! NDIRECT) = D' (i_blocks n ! NDIRECT)) \<Longrightarrow>
   file_ids D n m = file_ids D' n' m"
  by (auto simp: file_ids_def intro!: blk_id_cong)

lemma ind_ids_cong: "i_blocks n = i_blocks n' \<Longrightarrow> ind_ids n = ind_ids n'"
  by (simp add: ind_ids_def)

lemma data_block_less: "data_block b \<Longrightarrow> b < BLOCK_NUM"
  by (simp add: data_block_def)

lemma data_block_not_0: "data_block b \<Longrightarrow> b \<noteq> 0"
  by (auto simp: data_block_def)

lemma node_okD:
  assumes "node_ok bm n m"
  shows "inode_shape n" "m \<le> MAXFILE" "NDIRECT < m \<Longrightarrow> data_block (i_blocks n ! NDIRECT)"
    "distinct (file_ids (bm_data bm) n m)"
    "NDIRECT < m \<Longrightarrow> i_blocks n ! NDIRECT \<notin> set (file_ids (bm_data bm) n m)"
    "\<And>b. b \<in> set (file_ids (bm_data bm) n m) \<Longrightarrow> data_block b \<and> using_blocks bm b \<noteq> 0"
  using assms by (auto simp: node_ok_def ind_ids_def)

lemma node_ok_mono:
  assumes "node_ok bm n m" "k \<le> m"
  shows "node_ok bm n k"
proof -
  have "file_ids (bm_data bm) n k = take k (file_ids (bm_data bm) n m)"
    using assms(2) by (simp add: take_file_ids)
  then have "set (file_ids (bm_data bm) n k) \<subseteq> set (file_ids (bm_data bm) n m)"
    "distinct (file_ids (bm_data bm) n m) \<Longrightarrow> distinct (file_ids (bm_data bm) n k)"
    by (simp_all add: set_take_subset)
  with assms show ?thesis unfolding node_ok_def by auto
qed

text \<open>Ownership depends on the indirect block's contents and on the marks only.\<close>

lemma node_ok_cong:
  assumes "node_ok bm n m" and "i_blocks n = i_blocks n'"
    and "\<And>b. b \<in> set (ind_ids n) \<Longrightarrow> bm_data bm b = bm_data bm' b"
    and "\<And>b. b \<in> set (own_ids (bm_data bm) n m) \<Longrightarrow> using_blocks bm' b \<noteq> 0"
  shows "node_ok bm' n' m"
proof -
  have ids: "file_ids (bm_data bm) n m = file_ids (bm_data bm') n' m"
    using assms by (intro file_ids_cong) (auto simp: node_ok_def ind_ids_def)
  have "inode_shape n'" using assms by (simp add: node_ok_def inode_shape_def)
  with assms(1,2,4) ind_ids_cong [OF assms(2)] show ?thesis
    unfolding node_ok_def ids [symmetric] by auto
qed

section \<open>Looking up and setting block numbers\<close>

lemma get_block_id_eq:
  assumes "bm_wf bm" "i < MAXFILE" "NDIRECT \<le> i \<Longrightarrow> i_blocks n ! NDIRECT < BLOCK_NUM"
  shows "get_block_id e bm n (int i) = Inr (blk_id (bm_data bm) n i)"
  using assms by (auto simp: get_block_id_def blk_id_def read_local_in nat_diff_distrib)

lemma get_block_id_ok:
  assumes "bm_wf bm" "node_ok bm n m" "i < m"
  shows "get_block_id e bm n (int i) = Inr (blk_id (bm_data bm) n i)"
  using assms node_okD [OF assms(2)]
  by (intro get_block_id_eq) (auto dest: data_block_less)

text \<open>Entering a block number at position \<open>i\<close>, with the indirect block in place if needed.\<close>

definition enter_id :: "nat \<Rightarrow> u32 \<Rightarrow> inode \<times> block_manager \<Rightarrow> inode \<times> block_manager" where
  "enter_id i bid = (\<lambda>(n, bm).
     if i < NDIRECT then (n\<lparr>i_blocks := (i_blocks n)[i := bid]\<rparr>, bm)
     else (n, bm_put (i_blocks n ! NDIRECT)
                (put_u32 (4 * (i - NDIRECT)) bid (bm_data bm (i_blocks n ! NDIRECT))) bm))"

lemma set_block_id_eq:
  assumes "bm_wf bm" "i < MAXFILE"
    and "NDIRECT \<le> i \<Longrightarrow> data_block (i_blocks n ! NDIRECT)"
  shows "set_block_id e (int i) bid (n, bm) = Inr (enter_id i bid (n, bm))"
proof (cases "i < NDIRECT")
  case True
  then show ?thesis by (simp add: set_block_id_def enter_id_def)
next
  case False
  let ?ind = "i_blocks n ! NDIRECT"
  from False assms have ind: "?ind \<noteq> 0" "?ind < BLOCK_NUM"
    by (auto dest: data_block_not_0 data_block_less)
  have len: "length (bm_data bm ?ind) = BLOCK_SIZE" using assms(1) by (simp add: bm_wf_def)
  let ?buf = "put_u32 (4 * (i - NDIRECT)) bid (bm_data bm ?ind)"
  have "length ?buf = BLOCK_SIZE"
    using len assms(2) by (simp add: buf_simps)
  then have "bm_write_block bm ?ind (Some ?buf) (int BLOCK_SIZE) = Inr (bm_put ?ind ?buf bm)"
    using write_block_in [OF assms(1) ind(2), of BLOCK_SIZE ?buf] by simp
  with False ind assms show ?thesis
    by (simp add: set_block_id_def enter_id_def read_local_in nat_diff_distrib Let_def)
qed

section \<open>Growing a file\<close>

declare NDIRECT_def [simp del]

text \<open>
  \<open>grown bm0 n0 m0 m (n, bm)\<close>: the file \<open>n0\<close> with \<open>m0\<close> blocks has been extended to
  \<open>m\<close> blocks. The old blocks are kept in place, every added block was free before, and no
  block outside the file's indirect block has changed.
\<close>

definition grown ::
    "block_manager \<Rightarrow> inode \<Rightarrow> nat \<Rightarrow> nat \<Rightarrow> inode \<times> block_manager \<Rightarrow> bool" where
  "grown bm0 n0 m0 m = (\<lambda>(n, bm).
     bm_wf bm \<and> node_ok bm n m \<and> m0 \<le> m \<and>
     i_type n = i_type n0 \<and> i_size n = i_size n0 \<and>
     file_ids (bm_data bm) n m0 = file_ids (bm_data bm0) n0 m0 \<and>
     set (ind_ids n0) \<subseteq> set (ind_ids n) \<and>
     (\<forall>b. using_blocks bm0 b \<noteq> 0 \<longrightarrow> using_blocks bm b \<noteq> 0) \<and>
     (\<forall>b \<in> set (own_ids (bm_data bm) n m).
        b \<in> set (own_ids (bm_data bm0) n0 m0) \<or> using_blocks bm0 b = 0) \<and>
     (\<forall>b. b \<notin> set (ind_ids n) \<longrightarrow> bm_data bm b = bm_data bm0 b))"

text \<open>A block that has just been allocated and belongs to no file yet.\<close>

definition fresh_id ::
    "block_manager \<Rightarrow> nat \<Rightarrow> u32 \<Rightarrow> inode \<times> block_manager \<Rightarrow> bool" where
  "fresh_id bm0 m bid = (\<lambda>(n, bm).
     data_block bid \<and> using_blocks bm bid \<noteq> 0 \<and> using_blocks bm0 bid = 0 \<and>
     bid \<notin> set (own_ids (bm_data bm) n m))"

lemma grown_refl: "bm_wf bm \<Longrightarrow> node_ok bm n m \<Longrightarrow> grown bm n m m (n, bm)"
  by (auto simp: grown_def)

text \<open>An allocation extends the marks and gives a fresh block.\<close>

lemma grown_alloc:
  assumes g: "grown bm0 n0 m0 m (n, bm)" and "free_ahead bm \<noteq> []"
  obtains bid bm' where "bm_alloc_block bm = Inr (bid, bm')" "grown bm0 n0 m0 m (n, bm')"
    "fresh_id bm0 m bid (n, bm')" "length (free_ahead bm) = Suc (length (free_ahead bm'))"
    "\<And>c. c \<noteq> bid \<Longrightarrow> using_blocks bm' c = using_blocks bm c" "bm_data bm' = bm_data bm"
    "using_blocks bm bid = 0"
proof -
  from g have wf: "bm_wf bm" by (simp add: grown_def)
  from assms(2) obtain off offs where "free_ahead bm = off # offs" by (cases "free_ahead bm") auto
  with alloc_block_ahead [OF wf] obtain bid bm' where
    alloc: "bm_alloc_block bm = Inr (bid, bm')" "bm_wf bm'" "data_block bid"
      "length (free_ahead bm) = Suc (length (free_ahead bm'))" by fastforce
  note marks = alloc_block_marks [OF wf alloc(1)]
  have disk: "bm_data bm' = bm_data bm" using marks by simp
  have mono: "using_blocks bm c \<noteq> 0 \<Longrightarrow> using_blocks bm' c \<noteq> 0" for c using marks by simp
  have "node_ok bm n m" using g by (simp add: grown_def)
  then have ok: "node_ok bm' n m"
    by (rule node_ok_cong) (use \<open>node_ok bm n m\<close> in \<open>auto simp: disk node_ok_def intro!: mono\<close>)
  with g disk alloc(2) mono have "grown bm0 n0 m0 m (n, bm')"
    by (simp add: grown_def)
  moreover have "fresh_id bm0 m bid (n, bm')"
    using alloc(3) marks g by (auto simp: fresh_id_def grown_def node_ok_def)
  ultimately show thesis
    using that [of bid bm'] alloc marks disk by simp
qed

text \<open>A file that is about to need its indirect block gets one.\<close>

lemma grown_indirect:
  assumes g: "grown bm0 n0 m0 NDIRECT (n, bm)" and "fresh_id bm0 NDIRECT ind (n, bm)"
    and none: "i_blocks n ! NDIRECT = 0"
  shows "grown bm0 n0 m0 NDIRECT (n\<lparr>i_blocks := (i_blocks n)[NDIRECT := ind]\<rparr>, bm)"
proof -
  let ?n = "n\<lparr>i_blocks := (i_blocks n)[NDIRECT := ind]\<rparr>"
  have shape: "inode_shape n" and le: "m0 \<le> NDIRECT" using g by (auto simp: grown_def node_ok_def)
  have ids: "file_ids D ?n k = file_ids D n k" if "k \<le> NDIRECT" for D k
    using that by (auto simp: file_ids_def blk_id_def)
  have ind: "ind_ids ?n = [ind]" "ind_ids n = []"
    using assms(2) none shape
    by (auto simp: ind_ids_def fresh_id_def inode_shape_def dest: data_block_not_0)
  have "node_ok bm ?n NDIRECT"
    using g assms(2) shape ind ids
    by (auto simp: node_ok_def grown_def fresh_id_def inode_shape_def)
  with g assms(2) le show ?thesis
    by (auto simp: grown_def fresh_id_def ids ind)
qed

lemma put_u32_ids:
  assumes "length (D ind) = BLOCK_SIZE" "m < MAXFILE" "NDIRECT \<le> m" "i_blocks n ! NDIRECT = ind"
    and D': "D' ind = put_u32 (4 * (m - NDIRECT)) bid (D ind)"
  shows "file_ids D' n (Suc m) = file_ids D n m @ [bid]"
proof -
  have old: "blk_id D' n i = blk_id D n i" if "i < m" for i
    unfolding blk_id_def assms(4) D'
    by (rule if_cong) (use that assms(1-3) in \<open>auto intro!: get_put_u32_other\<close>)
  have "blk_id D' n m = bid"
    using assms(1-4) by (simp add: blk_id_def D' buf_simps)
  with old show ?thesis
    by (auto simp: file_ids_def)
qed

text \<open>Entering a fresh block as the next one of the file.\<close>

lemma grown_enter:
  assumes g: "grown bm0 n0 m0 m (n, bm)" and fresh: "fresh_id bm0 m bid (n, bm)"
    and "m < MAXFILE" and ind: "NDIRECT \<le> m \<Longrightarrow> i_blocks n ! NDIRECT \<noteq> 0"
  shows "grown bm0 n0 m0 (Suc m) (enter_id m bid (n, bm))"
proof (cases "m < NDIRECT")
  case True
  let ?n = "n\<lparr>i_blocks := (i_blocks n)[m := bid]\<rparr>"
  have shape: "inode_shape n" and le: "m0 \<le> m" using g by (auto simp: grown_def node_ok_def)
  have ids: "file_ids D ?n k = file_ids D n k" if "k \<le> m" for D k
    using that True by (auto simp: file_ids_def blk_id_def)
  have new: "file_ids D ?n (Suc m) = file_ids D n m @ [bid]" for D
    using True shape by (simp add: file_ids_Suc ids) (simp add: blk_id_def inode_shape_def)
  have "ind_ids ?n = ind_ids n" using True by (simp add: ind_ids_def)
  moreover have "node_ok bm ?n (Suc m)"
    using g fresh shape True \<open>ind_ids ?n = _\<close>
    by (auto simp: node_ok_def grown_def fresh_id_def inode_shape_def new)
  ultimately show ?thesis
    using True g fresh le by (auto simp: enter_id_def grown_def fresh_id_def new ids)
next
  case False
  let ?ind = "i_blocks n ! NDIRECT"
  let ?c = "put_u32 (4 * (m - NDIRECT)) bid (bm_data bm ?ind)"
  let ?bm = "bm_put ?ind ?c bm"
  from g have wf: "bm_wf bm" and ok: "node_ok bm n m" and le: "m0 \<le> m" by (auto simp: grown_def)
  have len: "length (bm_data bm ?ind) = BLOCK_SIZE" using wf by (simp add: bm_wf_def)
  then have lenc: "length ?c = BLOCK_SIZE" using \<open>m < MAXFILE\<close> by (simp add: buf_simps)
  have D: "bm_data ?bm = (bm_data bm)(?ind := ?c)" using len lenc by simp
  have ids_n: "ind_ids n = [?ind]" using ind False by (simp add: ind_ids_def)
  have new: "file_ids (bm_data ?bm) n (Suc m) = file_ids (bm_data bm) n m @ [bid]"
    by (rule put_u32_ids [where ind = ?ind])
      (use False len lenc \<open>m < MAXFILE\<close> in \<open>simp_all add: D\<close>)
  have m0: "file_ids (bm_data ?bm) n m0 = file_ids (bm_data bm) n m0"
    using arg_cong [OF new, of "take m0"] le by (simp add: take_file_ids)
  have "node_ok ?bm n (Suc m)"
    using ok fresh \<open>m < MAXFILE\<close> ids_n new False ind
    by (auto simp: node_ok_def fresh_id_def simp del: bm_put_sel(1))
  then show ?thesis
    using False g fresh le ids_n bm_put_wf [OF wf, of ?c ?ind] lenc
    by (auto simp: enter_id_def grown_def fresh_id_def new [unfolded D] m0 [unfolded D] D
        simp del: bm_put_sel(1))
qed

text \<open>One round of the growing loop, and the whole loop.\<close>

lemma grow_round_ok:
  assumes g: "grown bm0 n0 m0 (m0 + k) (n, bm)" and "m0 + k < MAXFILE"
    and room: "Suc (if NDIRECT \<le> m0 + k \<and> i_blocks n ! NDIRECT = 0 then 1 else 0)
      \<le> length (free_ahead bm)"
  shows "\<exists>n' bm'. grow_round e (int m0) k (n, bm) = Inr (n', bm') \<and>
    grown bm0 n0 m0 (Suc (m0 + k)) (n', bm') \<and>
    length (free_ahead bm) = length (free_ahead bm') +
      Suc (if NDIRECT \<le> m0 + k \<and> i_blocks n ! NDIRECT = 0 then 1 else 0) \<and>
    (i_blocks n ! NDIRECT = 0 \<longrightarrow> m0 + k < NDIRECT \<longrightarrow> i_blocks n' ! NDIRECT = 0) \<and>
    (i_blocks n ! NDIRECT \<noteq> 0 \<or> NDIRECT \<le> m0 + k \<longrightarrow> i_blocks n' ! NDIRECT \<noteq> 0)"
proof -
  let ?m = "m0 + k"
  from room have "free_ahead bm \<noteq> []" by auto
  with g obtain bid bm1 where alloc: "bm_alloc_block bm = Inr (bid, bm1)"
    and g1: "grown bm0 n0 m0 ?m (n, bm1)" and fresh: "fresh_id bm0 ?m bid (n, bm1)"
    and len1: "length (free_ahead bm) = Suc (length (free_ahead bm1))"
    by (rule grown_alloc)
  have wf1: "bm_wf bm1" and ok1: "node_ok bm1 n ?m" using g1 by (auto simp: grown_def)
  show ?thesis
  proof (cases "NDIRECT \<le> ?m \<and> i_blocks n ! NDIRECT = 0")
    case False
    have "set_block_id e (int ?m) bid (n, bm1) = Inr (enter_id ?m bid (n, bm1))"
      by (rule set_block_id_eq) (use wf1 \<open>?m < MAXFILE\<close> ok1 False in
          \<open>auto simp: node_ok_def ind_ids_def split: if_splits\<close>)
    moreover have "grown bm0 n0 m0 (Suc ?m) (enter_id ?m bid (n, bm1))"
      using grown_enter [OF g1 fresh \<open>?m < MAXFILE\<close>] False by blast
    ultimately show ?thesis
      using alloc len1 False by (auto simp: grow_round_def enter_id_def split: prod.splits)
  next
    case True
    with ok1 have m: "?m = NDIRECT" by (simp add: node_ok_def)
    from True room len1 have "free_ahead bm1 \<noteq> []" by auto
    with g1 obtain ind bm2 where alloc2: "bm_alloc_block bm1 = Inr (ind, bm2)"
      and g2: "grown bm0 n0 m0 ?m (n, bm2)" and fresh2: "fresh_id bm0 ?m ind (n, bm2)"
      and len2: "length (free_ahead bm1) = Suc (length (free_ahead bm2))"
      and other: "\<And>c. c \<noteq> ind \<Longrightarrow> using_blocks bm2 c = using_blocks bm1 c"
      and D2: "bm_data bm2 = bm_data bm1" and was: "using_blocks bm1 ind = 0"
      by (rule grown_alloc) blast
    let ?n = "n\<lparr>i_blocks := (i_blocks n)[NDIRECT := ind]\<rparr>"
    have shape: "inode_shape n" using ok1 by (simp add: node_ok_def)
    have at: "i_blocks ?n ! NDIRECT = ind" "data_block ind" "ind \<noteq> 0"
      using shape fresh2 by (auto simp: inode_shape_def fresh_id_def dest: data_block_not_0)
    have g3: "grown bm0 n0 m0 ?m (?n, bm2)"
      using grown_indirect [of bm0 n0 m0 n bm2 ind] g2 fresh2 True m by simp
    have "bid \<noteq> ind" using fresh was by (auto simp: fresh_id_def)
    moreover have "file_ids (bm_data bm2) ?n ?m = file_ids (bm_data bm2) n ?m"
      using m by (auto simp: file_ids_def blk_id_def)
    ultimately have fresh3: "fresh_id bm0 ?m bid (?n, bm2)"
      using fresh other D2 at(1) by (auto simp: fresh_id_def ind_ids_def)
    have "set_block_id e (int ?m) bid (n, bm1) = set_block_id e (int ?m) bid (?n, bm2)"
      using True alloc2 at by (simp add: set_block_id_def)
    also have "\<dots> = Inr (enter_id ?m bid (?n, bm2))"
      by (rule set_block_id_eq) (use g3 at \<open>?m < MAXFILE\<close> in \<open>auto simp: grown_def\<close>)
    finally have "set_block_id e (int ?m) bid (n, bm1) = Inr (enter_id ?m bid (?n, bm2))" .
    moreover have "grown bm0 n0 m0 (Suc ?m) (enter_id ?m bid (?n, bm2))"
      using grown_enter [OF g3 fresh3 \<open>?m < MAXFILE\<close>] at by simp
    ultimately show ?thesis
      using alloc len1 len2 True at by (auto simp: grow_round_def enter_id_def split: prod.splits)
  qed
qed

text \<open>The free blocks a file needs to grow from \<open>m0\<close> to \<open>m1\<close> blocks.\<close>

definition blocks_needed :: "inode \<Rightarrow> nat \<Rightarrow> nat \<Rightarrow> nat" where
  "blocks_needed n m0 m1 =
     (m1 - m0) + (if NDIRECT < m1 \<and> i_blocks n ! NDIRECT = 0 then 1 else 0)"

lemma grow_loop:
  assumes "bm_wf bm" "node_ok bm n m0" "m0 \<le> m1" "m1 \<le> MAXFILE"
    and "blocks_needed n m0 m1 \<le> length (free_ahead bm)"
  shows "\<exists>n' bm'. for_each (grow_round e (int m0)) [0..<m1 - m0] (n, bm) = Inr (n', bm') \<and>
    grown bm n m0 m1 (n', bm')"
proof -
  define I where "I k s \<longleftrightarrow> grown bm n m0 (m0 + k) s \<and>
      blocks_needed (fst s) (m0 + k) m1 \<le> length (free_ahead (snd s))" for k s
  have "\<exists>t. for_each (grow_round e (int m0)) [0..<m1 - m0] (n, bm) = Inr t \<and> I (m1 - m0) t"
  proof (rule for_each_upt_rule)
    show "I 0 (n, bm)" using assms by (simp add: I_def grown_refl)
  next
    fix k s assume k: "k < m1 - m0" and I: "I k s"
    obtain n1 bm1 where s: "s = (n1, bm1)" by (cases s)
    have g: "grown bm n m0 (m0 + k) (n1, bm1)"
      and need: "blocks_needed n1 (m0 + k) m1 \<le> length (free_ahead bm1)"
      using I by (auto simp: I_def s)
    have lt: "m0 + k < MAXFILE" using k assms(4) by simp
    have "Suc (if NDIRECT \<le> m0 + k \<and> i_blocks n1 ! NDIRECT = 0 then 1 else 0)
        \<le> length (free_ahead bm1)"
      using need k by (auto simp: blocks_needed_def split: if_splits)
    from grow_round_ok [OF g lt this, of e] need k show "\<exists>t. grow_round e (int m0) k s = Inr t \<and> I (Suc k) t"
      by (fastforce simp: I_def s blocks_needed_def split: if_splits)
  qed simp
  then show ?thesis using assms(3) by (fastforce simp: I_def)
qed

section \<open>Shrinking a file\<close>

definition free_all :: "u32 list \<Rightarrow> block_manager \<Rightarrow> block_manager" where
  "free_all bs bm =
     bm\<lparr>using_blocks := (\<lambda>b. if b \<in> set bs then 0 else using_blocks bm b)\<rparr>"

lemma free_all_sel [simp]:
  "bm_disk (free_all bs bm) = bm_disk bm" "bm_sb (free_all bs bm) = bm_sb bm"
  "next_block (free_all bs bm) = next_block bm"
  "using_blocks (free_all bs bm) b = (if b \<in> set bs then 0 else using_blocks bm b)"
  by (simp_all add: free_all_def)

lemma free_all_wf [simp]: "bm_wf (free_all bs bm) = bm_wf bm"
  by (simp add: bm_wf_def)

lemma shrink_loop:
  assumes wf: "bm_wf bm" and ok: "node_ok bm n m0" and "m1 \<le> m0"
  shows "for_each (shrink_round e n (int m1)) [0..<m0 - m1] bm
    = Inr (free_all (drop m1 (file_ids (bm_data bm) n m0)) bm)"
proof -
  let ?ids = "file_ids (bm_data bm) n m0"
  define I where "I k b \<longleftrightarrow> b = free_all (take k (drop m1 ?ids)) bm" for k b
  have "\<exists>t. for_each (shrink_round e n (int m1)) [0..<m0 - m1] bm = Inr t \<and> I (m0 - m1) t"
  proof (rule for_each_upt_rule)
    show "I 0 bm" by (simp add: I_def free_all_def)
  next
    fix k b assume k: "k < m0 - m1" and "I k b"
    then have b: "b = free_all (take k (drop m1 ?ids)) bm" by (simp add: I_def)
    have "i_blocks n ! NDIRECT < BLOCK_NUM" if "NDIRECT \<le> m1 + k"
      using that k by (intro data_block_less node_okD(3) [OF ok]) simp
    then have "get_block_id e b n (int (m1 + k)) = Inr (blk_id (bm_data b) n (m1 + k))"
      by (intro get_block_id_eq) (use b wf k node_okD(2) [OF ok] in auto)
    moreover have "blk_id (bm_data b) n (m1 + k) = drop m1 ?ids ! k"
      using k by (simp add: b)
    moreover have "bm_free_block (drop m1 ?ids ! k) b = free_all (take (Suc k) (drop m1 ?ids)) bm"
      using k by (auto simp: b bm_free_block_def free_all_def take_Suc_conv_app_nth fun_eq_iff)
    ultimately show "\<exists>t. shrink_round e n (int m1) k b = Inr t \<and> I (Suc k) t"
      by (simp add: shrink_round_def I_def)
  qed simp
  then show ?thesis by (simp add: I_def)
qed

lemma node_ok_free_all:
  assumes ok: "node_ok bm n m0" and "m1 \<le> m0"
  shows "node_ok (free_all (drop m1 (file_ids (bm_data bm) n m0)) bm) n m1"
proof -
  let ?ids = "file_ids (bm_data bm) n m0"
  have split: "?ids = file_ids (bm_data bm) n m1 @ drop m1 ?ids"
    using append_take_drop_id [of m1 ?ids] assms(2) by (simp add: take_file_ids)
  from ok have dist: "distinct (?ids @ ind_ids n)" by (simp add: node_ok_def)
  have "b \<notin> set (drop m1 ?ids)" if "b \<in> set (own_ids (bm_data bm) n m1)" for b
    using dist that by (subst (asm) split) auto
  with node_ok_mono [OF assms] show ?thesis by (auto simp: node_ok_def)
qed

section \<open>Resizing a file\<close>

text \<open>
  Both branches together: the file has \<open>m1\<close> blocks now, all of them old ones or free
  ones, and a block that was in use by someone else is neither written nor freed.
\<close>

lemma resize_ok:
  assumes "bm_wf bm" "node_ok bm n m0" "m1 \<le> MAXFILE"
    and "blocks_needed n m0 m1 \<le> length (free_ahead bm)"
  shows "\<exists>n' bm'. resize_blocks e (int m0) (int m1) (n, bm) = Inr (n', bm') \<and>
    bm_wf bm' \<and> node_ok bm' n' m1 \<and> i_type n' = i_type n \<and> i_size n' = i_size n \<and>
    (\<forall>b \<in> set (own_ids (bm_data bm') n' m1).
       b \<in> set (own_ids (bm_data bm) n m0) \<or> using_blocks bm b = 0) \<and>
    (\<forall>b. b \<notin> set (own_ids (bm_data bm) n m0) \<longrightarrow> using_blocks bm b \<noteq> 0 \<longrightarrow>
       bm_data bm' b = bm_data bm b \<and> using_blocks bm' b \<noteq> 0) \<and>
    (\<forall>b. \<not> data_block b \<longrightarrow> bm_data bm' b = bm_data bm b)"
proof (cases "m0 < m1")
  case True
  with grow_loop [OF assms(1,2) _ assms(3,4), of e] obtain n' bm' where
    loop: "for_each (grow_round e (int m0)) [0..<m1 - m0] (n, bm) = Inr (n', bm')"
    and g: "grown bm n m0 m1 (n', bm')" by auto
  have "nat (int m1 - int m0) = m1 - m0" using True by simp
  with loop True have "resize_blocks e (int m0) (int m1) (n, bm) = Inr (n', bm')"
    by (simp add: resize_blocks_def)
  moreover have "b \<notin> set (ind_ids n')"
    if "b \<notin> set (own_ids (bm_data bm) n m0)" "using_blocks bm b \<noteq> 0" for b
    using g that by (auto simp: grown_def)
  moreover have "b \<notin> set (ind_ids n')" if "\<not> data_block b" for b
    using g that by (auto simp: grown_def node_ok_def)
  ultimately show ?thesis
    using g by (intro exI [of _ n'] exI [of _ bm'] conjI) (auto simp: grown_def)
next
  case False
  let ?bs = "drop m1 (file_ids (bm_data bm) n m0)"
  let ?bm = "free_all ?bs bm"
  have "nat (int m0 - int m1) = m0 - m1" using False by simp
  then have run: "resize_blocks e (int m0) (int m1) (n, bm) = Inr (n, ?bm)"
    using shrink_loop [OF assms(1,2), of m1 e] False
    by (cases "m1 = m0") (auto simp: resize_blocks_def free_all_def)
  have "set (file_ids (bm_data bm) n m1) \<subseteq> set (file_ids (bm_data bm) n m0)"
    using False set_take_subset [of m1 "file_ids (bm_data bm) n m0"] by (simp add: take_file_ids)
  moreover have "set ?bs \<subseteq> set (file_ids (bm_data bm) n m0)" by (rule set_drop_subset)
  ultimately show ?thesis
    using run assms(1) node_ok_free_all [OF assms(2), of m1] False
    by (intro exI [of _ n] exI [of _ ?bm]) auto
qed

section \<open>Copying a file's contents\<close>

lemma nblk_bounds: "i < nblk n \<Longrightarrow> 512 * i < n" "n \<le> 512 * nblk n"
  by (auto simp: nblk_def)

lemma nblk_le: "n \<le> MAXFILE * BLOCK_SIZE \<Longrightarrow> nblk n \<le> MAXFILE"
  by (simp add: nblk_def NDIRECT_def)

lemma length_concat_blocks:
  "(\<And>b. b \<in> set bs \<Longrightarrow> length (D b) = BLOCK_SIZE) \<Longrightarrow>
   length (concat (map D bs)) = BLOCK_SIZE * length bs"
  by (induction bs) auto

text \<open>Blocks that start with the consecutive 512-byte chunks of \<open>buf\<close> spell \<open>buf\<close>.\<close>

definition chunk :: "byte list \<Rightarrow> nat \<Rightarrow> byte list" where
  "chunk buf i = take BLOCK_SIZE (drop (BLOCK_SIZE * i) buf)"

lemma chunk_prefix: "take (length (chunk buf i)) (drop (BLOCK_SIZE * i) buf) = chunk buf i"
  by (simp add: chunk_def min_def)

lemma chunk_le: "length (chunk buf i) \<le> 512"
  by (simp add: chunk_def)

lemma concat_chunks_prefix:
  assumes "\<And>i. i < m \<Longrightarrow> length (f i) = BLOCK_SIZE \<and> take (length (chunk buf i)) (f i) = chunk buf i"
    and "m \<le> nblk (length buf)"
  shows "take (length buf) (concat (map f [0..<m])) = take (BLOCK_SIZE * m) buf"
  using assms
proof (induction m)
  case (Suc m)
  let ?C = "concat (map f [0..<m])"
  from Suc.prems(2) have lt: "512 * m < length buf" by (intro nblk_bounds(1)) simp
  have IH: "take (length buf) ?C = take (BLOCK_SIZE * m) buf"
    by (rule Suc.IH) (use Suc.prems in auto)
  have "length ?C = BLOCK_SIZE * length [0..<m]"
    using Suc.prems(1) by (intro length_concat_blocks) auto
  then have len: "length ?C = 512 * m" by simp
  with IH lt have C: "?C = take (512 * m) buf" by simp
  have "take (length buf - 512 * m) (f m) = chunk buf m"
  proof -
    have "take (length (chunk buf m)) (f m) = chunk buf m" "length (f m) = 512"
      using Suc.prems(1) [of m] by simp_all
    moreover have "length (chunk buf m) = min 512 (length buf - 512 * m)"
      by (simp add: chunk_def)
    ultimately show ?thesis by (cases "512 \<le> length buf - 512 * m") (simp_all add: min_def)
  qed
  then have "take (length buf) (concat (map f [0..<Suc m])) = take (512 * m) buf @ chunk buf m"
    using len lt by (simp add: C [symmetric])
  also have "\<dots> = take (512 * m + 512) buf"
    by (simp add: chunk_def take_add)
  finally show ?case by (simp add: algebra_simps)
qed simp

lemma write_block_take:
  "n \<le> length b \<Longrightarrow>
   bm_write_block bm bid (Some b) (int n) = bm_write_block bm bid (Some (take n b)) (int n)"
  by (simp add: bm_write_block_def disk_write_block_def)

lemma bm_write_frame:
  "bm_write_block bm bid b sz = Inr bm' \<Longrightarrow> using_blocks bm' = using_blocks bm"
  by (auto simp: bm_write_block_def res_simps)

text \<open>The copying loop of \<open>write_file\<close>, through the interface of the block layer.\<close>

lemma write_loop_ok:
  assumes wf: "bm_wf bm" and ok: "node_ok bm n m" and m: "m = nblk (length buf)"
  shows "\<exists>bm'. for_each (write_round e n buf (int (length buf)) (int m)) [0..<m] bm = Inr bm' \<and>
    bm_wf bm' \<and> using_blocks bm' = using_blocks bm \<and>
    (\<forall>b. b \<notin> set (file_ids (bm_data bm) n m) \<longrightarrow> bm_data bm' b = bm_data bm b) \<and>
    take (length buf) (concat (map (bm_data bm') (file_ids (bm_data bm) n m))) = buf"
proof -
  let ?ks = "file_ids (bm_data bm) n m"
  let ?body = "write_round e n buf (int (length buf)) (int m)"
  have "\<exists>t. for_each ?body [0..<length ?ks] bm = Inr t \<and> bm_wf t \<and>
      (\<forall>i < length ?ks. bm_data t (?ks ! i) =
         chunk buf i @ drop (length (chunk buf i)) (bm_data bm (?ks ! i))) \<and>
      (\<forall>k. k \<notin> set ?ks \<longrightarrow> bm_data t k = bm_data bm k)"
  proof (rule bs.write_loop [OF wf])
    show "distinct ?ks" by (rule node_okD(4) [OF ok])
  next
    fix k assume "k \<in> set ?ks" then show "k < BLOCK_NUM"
      using node_okD(6) [OF ok] by (blast intro: data_block_less)
  next
    fix i show "length (chunk buf i) \<le> BLOCK_SIZE" by (simp add: chunk_def)
  next
    fix t i assume t: "bm_wf t" "\<And>k. k \<notin> set ?ks \<Longrightarrow> bm_data t k = bm_data bm k"
      and "i < length ?ks"
    then have i: "i < m" "512 * i < length buf" by (auto simp: m dest: nblk_bounds(1))
    have same: "blk_id (bm_data t) n i = blk_id (bm_data bm) n i"
      using i(1) node_okD(5) [OF ok] t(2) by (intro blk_id_cong) auto
    have "get_block_id e t n (int i) = Inr (blk_id (bm_data t) n i)"
      using i(1) node_okD(2,3) [OF ok] t(1)
      by (intro get_block_id_eq) (auto simp del: BLOCK_NUM_def intro: data_block_less)
    moreover have "(if int i = int m - 1 then int (length buf) - int i * int BLOCK_SIZE
        else int BLOCK_SIZE) = int (length (chunk buf i))"
    proof (cases "Suc i = m")
      case True
      then have "length buf \<le> 512 * Suc i" using nblk_bounds(2) [of "length buf"] m by simp
      with True i show ?thesis by (auto simp: chunk_def)
    next
      case False
      with i(1) have "Suc i < nblk (length buf)" using m by simp
      then have "512 * Suc i < length buf" by (rule nblk_bounds(1))
      with False show ?thesis by (auto simp: chunk_def)
    qed
    moreover have "bm_write_block t (?ks ! i) (Some (drop (BLOCK_SIZE * i) buf)) (int (length (chunk buf i)))
        = bm_write_block t (?ks ! i) (Some (chunk buf i)) (int (length (chunk buf i)))"
    proof -
      have "length (chunk buf i) \<le> length (drop (BLOCK_SIZE * i) buf)" by (simp add: chunk_def)
      from write_block_take [OF this, of t "?ks ! i"] show ?thesis unfolding chunk_prefix .
    qed
    ultimately show "?body i t = bm_write_block t (?ks ! i) (Some (chunk buf i)) (int (length (chunk buf i)))"
      using i(1) same by (simp add: write_round_def Let_def)
  qed
  then obtain bm' where run: "for_each ?body [0..<m] bm = Inr bm'" and wf': "bm_wf bm'"
    and at: "\<And>i. i < m \<Longrightarrow> bm_data bm' (?ks ! i) =
        chunk buf i @ drop (length (chunk buf i)) (bm_data bm (?ks ! i))"
    and other: "\<And>k. k \<notin> set ?ks \<Longrightarrow> bm_data bm' k = bm_data bm k" by auto
  have "using_blocks bm' = using_blocks bm"
    using run by (rule for_each_invariant) (auto simp: write_round_def Let_def res_simps dest: bm_write_frame)
  moreover have "map (bm_data bm') ?ks = map (\<lambda>i. bm_data bm' (?ks ! i)) [0..<m]"
    by (rule nth_equalityI) simp_all
  moreover have "take (length buf) (concat (map (\<lambda>i. bm_data bm' (?ks ! i)) [0..<m])) = take (BLOCK_SIZE * m) buf"
    by (rule concat_chunks_prefix) (use m wf at chunk_le in \<open>auto simp: bm_wf_def\<close>)
  ultimately show ?thesis
    using run wf' other nblk_bounds(2) [of "length buf"] m by auto
qed

corollary write_loop_node:
  assumes wf: "bm_wf bm" and ok: "node_ok bm n (nblk (length buf))"
    and n': "i_blocks n' = i_blocks n" "unat (i_size n') = length buf"
  shows "\<exists>bm'. for_each (write_round e n buf (int (length buf)) (int (nblk (length buf))))
      [0..<nblk (length buf)] bm = Inr bm' \<and>
    bm_wf bm' \<and> using_blocks bm' = using_blocks bm \<and> node_ok bm' n' (nblk (length buf)) \<and>
    own_ids (bm_data bm') n' (nblk (length buf)) = own_ids (bm_data bm) n (nblk (length buf)) \<and>
    (\<forall>b. b \<notin> set (file_ids (bm_data bm) n (nblk (length buf))) \<longrightarrow> bm_data bm' b = bm_data bm b) \<and>
    file_data (bm_data bm') n' = buf"
proof -
  let ?m = "nblk (length buf)"
  obtain bm' where run: "for_each (write_round e n buf (int (length buf)) (int ?m)) [0..<?m] bm = Inr bm'"
    and wf': "bm_wf bm'" and use': "using_blocks bm' = using_blocks bm"
    and keep: "\<And>b. b \<notin> set (file_ids (bm_data bm) n ?m) \<Longrightarrow> bm_data bm' b = bm_data bm b"
    and data: "take (length buf) (concat (map (bm_data bm') (file_ids (bm_data bm) n ?m))) = buf"
    using write_loop_ok [OF wf ok refl, of e] by blast
  have "b \<notin> set (file_ids (bm_data bm) n ?m)" if "b \<in> set (ind_ids n)" for b
    using that ok by (auto simp: node_ok_def)
  then have ind: "bm_data bm b = bm_data bm' b" if "b \<in> set (ind_ids n)" for b
    using that keep [of b] by simp
  have ids: "file_ids (bm_data bm') n' ?m = file_ids (bm_data bm) n ?m"
    using ind n'(1) ok by (intro file_ids_cong) (auto simp: ind_ids_def node_ok_def)
  have "node_ok bm' n' ?m"
    by (rule node_ok_cong [OF ok]) (use n'(1) ind ok use' in \<open>auto simp: node_ok_def\<close>)
  then show ?thesis
    using run wf' use' keep data ids n' ind_ids_cong [OF n'(1)]
    by (intro exI [of _ bm']) (simp add: file_data_def)
qed

text \<open>The copying loop of \<open>read_file\<close>.\<close>

lemma read_loop_ok:
  assumes wf: "bm_wf bm" and ok: "node_ok bm n m" and m: "m = nblk (unat (i_size n))"
    and "length buf = BLOCK_SIZE * m"
  shows "\<exists>buf'. for_each (read_round e bm n m) [0..<m] buf = Inr buf' \<and>
    take (unat (i_size n)) buf' = file_data (bm_data bm) n"
proof -
  let ?D = "bm_data bm" and ?sz = "unat (i_size n)"
  let ?C = "\<lambda>i. concat (map ?D (file_ids ?D n i))"
  have len: "length (?C i) = 512 * i" for i
    using wf length_concat_blocks [of "file_ids ?D n i" ?D] by (simp add: bm_wf_def)
  define I where "I i b \<longleftrightarrow> length b = 512 * m \<and> take (min (512 * i) ?sz) b = take ?sz (?C i)" for i b
  have "\<exists>b. for_each (read_round e bm n m) [0..<m] buf = Inr b \<and> I m b"
  proof (rule for_each_upt_rule)
    show "I 0 buf" using assms(4) by (simp add: I_def file_ids_def)
  next
    fix i b assume i: "i < m" and "I i b"
    let ?id = "blk_id ?D n i" and ?k = "min 512 (?sz - 512 * i)"
    from i m have lt: "512 * i < ?sz" by (auto dest: nblk_bounds(1))
    have size: "(if i = m - 1 then ?sz - i * BLOCK_SIZE else BLOCK_SIZE) = ?k"
    proof (cases "Suc i = m")
      case True
      then have "?sz \<le> 512 * Suc i" using nblk_bounds(2) [of ?sz] m by simp
      with True show ?thesis by auto
    next
      case False
      with i have "Suc i < nblk ?sz" using m by simp
      then have "512 * Suc i < ?sz" by (rule nblk_bounds(1))
      with False i show ?thesis by auto
    qed
    have "data_block ?id" using i node_okD(6) [OF ok, of ?id] by (simp add: file_ids_def)
    then have "read_local e bm ?id = Inr (?D ?id)"
      by (intro read_local_in [OF wf] data_block_less)
    then have body: "read_round e bm n m i b = Inr (memcpy (512 * i) (take ?k (?D ?id)) b)"
      using get_block_id_ok [OF wf ok i, of e] size by (simp add: read_round_def mult.commute)
    have idl: "length (?D ?id) = 512" using wf by (simp add: bm_wf_def)
    from \<open>I i b\<close> lt have bl: "length b = 512 * m" and pre: "take (512 * i) b = ?C i"
      using len [of i] by (simp_all add: I_def min_def)
    have "take (min (512 * Suc i) ?sz) (memcpy (512 * i) (take ?k (?D ?id)) b)
        = ?C i @ take ?k (?D ?id)"
    proof -
      have "min (512 * Suc i) ?sz = 512 * i + ?k" using lt by auto
      moreover have "length (take (512 * i) b) = 512 * i" using bl i by simp
      ultimately show ?thesis using idl by (simp add: memcpy_def pre)
    qed
    also have "\<dots> = take ?sz (?C (Suc i))"
      using len [of i] lt idl by (cases "512 \<le> ?sz - 512 * i") (simp_all add: file_ids_Suc min_def)
    finally have "I (Suc i) (memcpy (512 * i) (take ?k (?D ?id)) b)"
      using bl idl i by (auto simp: I_def length_memcpy)
    with body show "\<exists>t. read_round e bm n m i b = Inr t \<and> I (Suc i) t" by simp
  qed simp
  then show ?thesis
    using nblk_bounds(2) [of ?sz] m by (auto simp: I_def file_data_def min_absorb2)
qed

section \<open>The inode table\<close>

definition iblk :: "u32 \<Rightarrow> u32" where
  "iblk inum = inum + 11"

definition inode_of :: "(u32 \<Rightarrow> byte list) \<Rightarrow> u32 \<Rightarrow> inode option" where
  "inode_of D inum =
     (let n = load_inode (D (iblk inum))
      in if inum < INODE_NUM \<and> i_type n \<noteq> 0 then Some n else None)"

lemma im_IBLOCK_eq: "bm_wf (im_bm im) \<Longrightarrow> im_IBLOCK inum im = iblk inum"
  by (simp add: im_IBLOCK_def IBLOCK_def bm_wf_def iblk_def)

lemma iblk_inj [simp]: "iblk i = iblk j \<longleftrightarrow> i = j"
  by (simp add: iblk_def)

lemma iblk_bounds: "inum < INODE_NUM \<Longrightarrow> iblk inum < DATA_START"
proof -
  assume "inum < INODE_NUM"
  then have "unat inum < 1024" by (simp add: word_less_nat_alt)
  then have "unat (iblk inum) = unat inum + 11"
    unfolding iblk_def by (subst unat_add_no_wrap) simp_all
  with \<open>unat inum < 1024\<close> show ?thesis by (simp add: word_less_nat_alt)
qed

lemma iblk_less: "inum < INODE_NUM \<Longrightarrow> iblk inum < BLOCK_NUM"
  using iblk_bounds [of inum] by (simp add: word_less_nat_alt)

lemma iblk_not_data: "inum < INODE_NUM \<Longrightarrow> \<not> data_block (iblk inum)"
  using iblk_bounds [of inum] by (auto simp: data_block_def)

lemma inode_of_SomeD: "inode_of D inum = Some n \<Longrightarrow> inum < INODE_NUM \<and> inode_shape n \<and> i_type n \<noteq> 0"
  by (auto simp: inode_of_def Let_def split: if_splits)

lemma get_inode_eq:
  "bm_wf (im_bm im) \<Longrightarrow> get_inode e inum im = Inr (inode_of (bm_data (im_bm im)) inum)"
  by (auto simp: get_inode_def im_IBLOCK_eq read_local_in iblk_less inode_of_def Let_def not_le
      simp del: BLOCK_NUM_def INODE_NUM_def)

definition put_node :: "u32 \<Rightarrow> inode \<Rightarrow> block_manager \<Rightarrow> block_manager" where
  "put_node inum n bm = bm_put (iblk inum) (store_inode n (bm_data bm (iblk inum))) bm"

lemma put_inode_eq:
  assumes "bm_wf (im_bm im)" "inum < INODE_NUM" "inode_shape n"
  shows "put_inode e inum (Some n) im = Inr (im\<lparr>im_bm := put_node inum n (im_bm im)\<rparr>)"
proof -
  let ?buf = "store_inode n (bm_data (im_bm im) (iblk inum))"
  have "length ?buf = BLOCK_SIZE"
    using assms by (simp add: buf_simps bm_wf_def)
  with assms write_block_in [OF assms(1) iblk_less [OF assms(2)], of BLOCK_SIZE ?buf]
  show ?thesis
    by (simp add: put_inode_def im_IBLOCK_eq read_local_in [OF _ iblk_less] put_node_def Let_def
        del: BLOCK_NUM_def INODE_NUM_def)
qed

lemma put_node_facts:
  assumes "bm_wf bm" "inum < INODE_NUM" "inode_shape n"
  shows "bm_wf (put_node inum n bm)" "using_blocks (put_node inum n bm) = using_blocks bm"
    "next_block (put_node inum n bm) = next_block bm"
    "free_ahead (put_node inum n bm) = free_ahead bm"
    "\<And>b. b \<noteq> iblk inum \<Longrightarrow> bm_data (put_node inum n bm) b = bm_data bm b"
    "inode_of (bm_data (put_node inum n bm))
       = (inode_of (bm_data bm))(inum := (if i_type n = 0 then None else Some n))"
proof -
  have len: "length (bm_data bm (iblk inum)) = BLOCK_SIZE" using assms(1) by (simp add: bm_wf_def)
  then have lens: "length (store_inode n (bm_data bm (iblk inum))) = BLOCK_SIZE"
    using assms(3) by (simp add: buf_simps)
  show "bm_wf (put_node inum n bm)"
    unfolding put_node_def using assms(1) lens by (intro bm_put_wf) simp_all
  have D: "bm_data (put_node inum n bm)
      = (bm_data bm)(iblk inum := store_inode n (bm_data bm (iblk inum)))"
    using len lens by (simp add: put_node_def)
  then show "\<And>b. b \<noteq> iblk inum \<Longrightarrow> bm_data (put_node inum n bm) b = bm_data bm b" by simp
  show "inode_of (bm_data (put_node inum n bm))
       = (inode_of (bm_data bm))(inum := (if i_type n = 0 then None else Some n))"
    using load_store_inode [OF assms(3)] len assms(2) unfolding D
    by (auto simp: inode_of_def fun_eq_iff Let_def)
qed (simp_all add: put_node_def)

section \<open>The invariant and the abstraction\<close>

abbreviation node_blocks :: "inode \<Rightarrow> nat" where
  "node_blocks n \<equiv> nblk (unat (i_size n))"

abbreviation node_own :: "(u32 \<Rightarrow> byte list) \<Rightarrow> inode \<Rightarrow> u32 set" where
  "node_own D n \<equiv> set (own_ids D n (node_blocks n))"

definition im_inv :: "inode_manager \<Rightarrow> bool" where
  "im_inv im \<longleftrightarrow>
     bm_wf (im_bm im) \<and> 1 \<le> next_inum im \<and> next_inum im \<le> INODE_NUM \<and>
     (\<forall>i n. inode_of (bm_data (im_bm im)) i = Some n \<longrightarrow> node_ok (im_bm im) n (node_blocks n)) \<and>
     (\<forall>i j n m. i \<noteq> j \<longrightarrow> inode_of (bm_data (im_bm im)) i = Some n \<longrightarrow>
        inode_of (bm_data (im_bm im)) j = Some m \<longrightarrow>
        node_own (bm_data (im_bm im)) n \<inter> node_own (bm_data (im_bm im)) m = {})"

text \<open>The abstract state: the type and the contents of every inode in use.\<close>

definition files :: "inode_manager \<Rightarrow> u32 \<rightharpoonup> (u16 \<times> byte list)" where
  "files im i =
     map_option (\<lambda>n. (i_type n, file_data (bm_data (im_bm im)) n))
       (inode_of (bm_data (im_bm im)) i)"

definition old_own :: "inode_manager \<Rightarrow> u32 \<Rightarrow> u32 set" where
  "old_own im i =
     (case inode_of (bm_data (im_bm im)) i of
        None \<Rightarrow> {} | Some n \<Rightarrow> node_own (bm_data (im_bm im)) n)"

lemma im_invD:
  assumes "im_inv im"
  shows "bm_wf (im_bm im)"
    "inode_of (bm_data (im_bm im)) i = Some n \<Longrightarrow> node_ok (im_bm im) n (node_blocks n)"
    "1 \<le> next_inum im" "next_inum im \<le> INODE_NUM"
  using assms by (auto simp: im_inv_def)

lemma file_data_cong:
  assumes "i_blocks n = i_blocks n'" "i_size n = i_size n'" "\<And>b. b \<in> node_own D n \<Longrightarrow> D' b = D b"
    and "NDIRECT < node_blocks n \<Longrightarrow> i_blocks n ! NDIRECT \<noteq> 0"
  shows "file_ids D' n' (node_blocks n') = file_ids D n (node_blocks n)"
    and "file_data D' n' = file_data D n"
proof -
  have ids: "file_ids D n (node_blocks n) = file_ids D' n' (node_blocks n)"
    using assms by (intro file_ids_cong) (auto simp: ind_ids_def)
  then show "file_ids D' n' (node_blocks n') = file_ids D n (node_blocks n)"
    using assms(2) by simp
  have same: "map D' (file_ids D n (node_blocks n)) = map D (file_ids D n (node_blocks n))"
    using assms(3) by simp
  show "file_data D' n' = file_data D n"
    by (simp only: file_data_def assms(2) [symmetric] ids [symmetric] same)
qed

text \<open>
  The frame rule of the layer: an operation that replaces inode \<open>i\<close> keeps the invariant
  and every other file, if the new inode's blocks are old blocks of \<open>i\<close> or free ones and
  no block in use by another file is written or freed.
\<close>

lemma inv_update:
  assumes inv: "im_inv im" and wf: "bm_wf (im_bm im')"
    and nxt: "1 \<le> next_inum im'" "next_inum im' \<le> INODE_NUM"
    and tab: "inode_of (bm_data (im_bm im')) = (inode_of (bm_data (im_bm im)))(i := x)"
    and keep: "\<And>b. data_block b \<Longrightarrow> using_blocks (im_bm im) b \<noteq> 0 \<Longrightarrow> b \<notin> old_own im i \<Longrightarrow>
      bm_data (im_bm im') b = bm_data (im_bm im) b \<and> using_blocks (im_bm im') b \<noteq> 0"
    and new: "\<And>n. x = Some n \<Longrightarrow> node_ok (im_bm im') n (node_blocks n)"
      "\<And>n b. x = Some n \<Longrightarrow> b \<in> node_own (bm_data (im_bm im')) n \<Longrightarrow>
        b \<in> old_own im i \<or> using_blocks (im_bm im) b = 0"
  shows "im_inv im'" and "files im' = (files im)(i := map_option
    (\<lambda>n. (i_type n, file_data (bm_data (im_bm im')) n)) x)"
proof -
  let ?D = "bm_data (im_bm im)" and ?D' = "bm_data (im_bm im')"
  have other: "node_ok (im_bm im') m (node_blocks m) \<and> node_own ?D' m = node_own ?D m \<and>
      file_data ?D' m = file_data ?D m \<and> (\<forall>b \<in> node_own ?D m. b \<notin> old_own im i)"
    if m: "inode_of ?D j = Some m" and "j \<noteq> i" for j m
  proof -
    from m have ok: "node_ok (im_bm im) m (node_blocks m)" by (rule im_invD(2) [OF inv])
    have out: "\<forall>b \<in> node_own ?D m. b \<notin> old_own im i"
      using inv that by (fastforce simp: im_inv_def old_own_def split: option.splits)
    then have same: "?D' b = ?D b \<and> using_blocks (im_bm im') b \<noteq> 0" if "b \<in> node_own ?D m" for b
      using that ok keep by (auto simp: node_ok_def)
    have "node_ok (im_bm im') m (node_blocks m)"
      by (rule node_ok_cong [OF ok]) (use same in auto)
    moreover have "file_ids ?D' m (node_blocks m) = file_ids ?D m (node_blocks m)"
      "file_data ?D' m = file_data ?D m"
      by (rule file_data_cong; use same ok in \<open>auto simp: node_ok_def\<close>)+
    ultimately show ?thesis using out by simp
  qed
  have used: "using_blocks (im_bm im) b \<noteq> 0" if "inode_of ?D j = Some m" "b \<in> node_own ?D m" for j m b
    using im_invD(2) [OF inv that(1)] that(2) by (auto simp: node_ok_def)
  have mixed: "node_own ?D' n \<inter> node_own ?D' m = {}"
    if "x = Some n" "inode_of ?D j = Some m" "j \<noteq> i" for n m j
    using new(2) [OF that(1)] other [OF that(2,3)] used [OF that(2)] by fastforce
  show "im_inv im'"
    unfolding im_inv_def tab
  proof (intro conjI allI impI)
    fix j k n m
    assume jk: "j \<noteq> k" and j: "((inode_of ?D)(i := x)) j = Some n"
      and k: "((inode_of ?D)(i := x)) k = Some m"
    consider "j = i" "k \<noteq> i" | "k = i" "j \<noteq> i" | "j \<noteq> i" "k \<noteq> i" using jk by auto
    then show "node_own ?D' n \<inter> node_own ?D' m = {}"
    proof cases
      case 1 with j k mixed [of n k m] show ?thesis by simp
    next
      case 2 with j k mixed [of m j n] show ?thesis by auto
    next
      case 3
      with j k have nm: "inode_of ?D j = Some n" "inode_of ?D k = Some m" by simp_all
      with inv jk have "node_own ?D n \<inter> node_own ?D m = {}" unfolding im_inv_def by blast
      with other [OF nm(1)] other [OF nm(2)] 3 show ?thesis by simp
    qed
  next
    fix j n assume "((inode_of ?D)(i := x)) j = Some n"
    then show "node_ok (im_bm im') n (node_blocks n)"
      using new(1) other [of j n] by (cases "j = i") auto
  qed (use wf nxt in auto)
  show "files im' = (files im)(i := map_option (\<lambda>n. (i_type n, file_data ?D' n)) x)"
  proof
    fix j show "files im' j = ((files im)(i := map_option (\<lambda>n. (i_type n, file_data ?D' n)) x)) j"
      using other [of j] by (cases "inode_of ?D j") (auto simp: files_def tab)
  qed
qed

section \<open>Operations on files\<close>

lemma length_file_data:
  assumes "bm_wf bm" shows "length (file_data (bm_data bm) n) = unat (i_size n)"
proof -
  have "length (concat (map (bm_data bm) (file_ids (bm_data bm) n (node_blocks n))))
      = BLOCK_SIZE * length (file_ids (bm_data bm) n (node_blocks n))"
    using assms by (intro length_concat_blocks) (simp add: bm_wf_def)
  then show ?thesis
    using nblk_bounds(2) [of "unat (i_size n)"] by (simp add: file_data_def)
qed

lemma unat_size: "n \<le> MAXFILE * BLOCK_SIZE \<Longrightarrow> unat (word_of_int (int n) :: u32) = n"
  by (simp add: NDIRECT_def unat_of_nat)

text \<open>
  Every operation ends by storing one inode. Given what it did to the blocks, the
  invariant holds again and only that inode's file has changed.
\<close>

lemma commit_node:
  assumes inv: "im_inv im" and i: "i < INODE_NUM" and shape: "inode_shape n" and wf: "bm_wf bm"
    and keep: "\<And>b. data_block b \<Longrightarrow> using_blocks (im_bm im) b \<noteq> 0 \<Longrightarrow> b \<notin> old_own im i \<Longrightarrow>
      bm_data bm b = bm_data (im_bm im) b \<and> using_blocks bm b \<noteq> 0"
    and tab: "\<And>b. \<not> data_block b \<Longrightarrow> bm_data bm b = bm_data (im_bm im) b"
    and ok: "i_type n \<noteq> 0 \<Longrightarrow> node_ok bm n (node_blocks n)"
    and own: "\<And>b. i_type n \<noteq> 0 \<Longrightarrow> b \<in> node_own (bm_data bm) n \<Longrightarrow>
      b \<in> old_own im i \<or> using_blocks (im_bm im) b = 0"
    and nxt: "1 \<le> k" "k \<le> INODE_NUM"
  shows "im_inv \<lparr>next_inum = k, im_bm = put_node i n bm\<rparr>" (is "im_inv ?im'")
    and "files \<lparr>next_inum = k, im_bm = put_node i n bm\<rparr> =
      (files im)(i := if i_type n = 0 then None else Some (i_type n, file_data (bm_data bm) n))"
proof -
  let ?x = "if i_type n = 0 then None else Some n" and ?D' = "bm_data (put_node i n bm)"
  note put = put_node_facts [OF wf i shape]
  have data: "?D' b = bm_data bm b" if "data_block b" for b
    by (rule put(5)) (use that iblk_not_data [OF i] in auto)
  have ids: "file_ids ?D' n (node_blocks n) = file_ids (bm_data bm) n (node_blocks n)"
    and fd: "file_data ?D' n = file_data (bm_data bm) n" if "i_type n \<noteq> 0"
    by (rule file_data_cong; use ok [OF that] data in \<open>auto simp: node_ok_def\<close>)+
  have ok': "node_ok (put_node i n bm) n (node_blocks n)" if "i_type n \<noteq> 0"
    by (rule node_ok_cong [OF ok [OF that]]) (use ok [OF that] data put(2) in \<open>auto simp: node_ok_def\<close>)
  have "bm_data bm (iblk j) = bm_data (im_bm im) (iblk j)" if "j < INODE_NUM" for j
    using tab iblk_not_data [OF that] by blast
  then have "inode_of (bm_data bm) = inode_of (bm_data (im_bm im))"
    by (auto simp: inode_of_def fun_eq_iff Let_def)
  then have table: "inode_of ?D' = (inode_of (bm_data (im_bm im)))(i := ?x)" using put(6) by simp
  have keep': "bm_data (im_bm ?im') b = bm_data (im_bm im) b \<and> using_blocks (im_bm ?im') b \<noteq> 0"
    if "data_block b" "using_blocks (im_bm im) b \<noteq> 0" "b \<notin> old_own im i" for b
    using that keep data put(2) by simp
  have new: "node_ok (im_bm ?im') m (node_blocks m)" if "?x = Some m" for m
    using that ok' by (auto split: if_splits)
  have new': "b \<in> old_own im i \<or> using_blocks (im_bm im) b = 0"
    if "?x = Some m" "b \<in> node_own (bm_data (im_bm ?im')) m" for m b
    using that own ids by (auto split: if_splits)
  note upd = inv_update [OF inv, of ?im' i ?x, OF _ _ _ _ keep' new new']
  show "im_inv ?im'" by (rule upd(1)) (use put(1) table nxt in simp_all)
  have "files ?im' = (files im)(i := map_option (\<lambda>n. (i_type n, file_data (bm_data (im_bm ?im')) n)) ?x)"
    by (rule upd(2)) (use put(1) table nxt in simp_all)
  then show "files ?im' =
      (files im)(i := if i_type n = 0 then None else Some (i_type n, file_data (bm_data bm) n))"
    using fd by auto
qed

lemma write_file_ok:
  assumes inv: "im_inv im" and n: "inode_of (bm_data (im_bm im)) i = Some n"
    and small: "length buf \<le> MAXFILE * BLOCK_SIZE"
    and room: "blocks_needed n (node_blocks n) (nblk (length buf)) \<le> length (free_ahead (im_bm im))"
  shows "\<exists>im'. write_file e i buf (int (length buf)) im = Inr im' \<and> im_inv im' \<and>
    files im' = (files im)(i \<mapsto> (i_type n, buf)) \<and> next_inum im' = next_inum im"
proof -
  let ?bm = "im_bm im" and ?D = "bm_data (im_bm im)" and ?m0 = "node_blocks n"
  let ?m1 = "nblk (length buf)" and ?z = "word_of_int (int (length buf)) :: u32"
  let ?n0 = "n\<lparr>i_size := ?z\<rparr>"
  have wf: "bm_wf ?bm" and ok: "node_ok ?bm n ?m0" using im_invD [OF inv] n by blast+
  have i: "i < INODE_NUM" "i_type n \<noteq> 0" using inode_of_SomeD [OF n] by auto
  have eqs: "file_ids D ?n0 k = file_ids D n k" "ind_ids ?n0 = ind_ids n" for D k
    by (auto intro: file_ids_cong ind_ids_cong)
  have ok0: "node_ok ?bm ?n0 ?m0"
    by (rule node_ok_cong [OF ok]) (use ok in \<open>auto simp: node_ok_def\<close>)
  have room0: "blocks_needed ?n0 ?m0 ?m1 \<le> length (free_ahead ?bm)"
    using room by (simp add: blocks_needed_def)
  obtain n1 bm1 where
    rs: "resize_blocks e (int ?m0) (int ?m1) (?n0, ?bm) = Inr (n1, bm1)"
    and wf1: "bm_wf bm1" and ok1: "node_ok bm1 n1 ?m1"
    and same1: "i_type n1 = i_type n" "i_size n1 = ?z"
    and own1: "\<And>b. b \<in> set (own_ids (bm_data bm1) n1 ?m1) \<Longrightarrow>
        b \<in> set (own_ids ?D n ?m0) \<or> using_blocks ?bm b = 0"
    and keep1: "\<And>b. b \<notin> set (own_ids ?D n ?m0) \<Longrightarrow> using_blocks ?bm b \<noteq> 0 \<Longrightarrow>
        bm_data bm1 b = ?D b \<and> using_blocks bm1 b \<noteq> 0"
    and tab1: "\<And>b. \<not> data_block b \<Longrightarrow> bm_data bm1 b = ?D b"
    using resize_ok [OF wf ok0 nblk_le [OF small] room0, of e] unfolding eqs by auto
  let ?n3 = "n1\<lparr>i_atime := clock e 0, i_mtime := clock e 1, i_ctime := clock e 2\<rparr>"
  have n3: "i_blocks ?n3 = i_blocks n1" "unat (i_size ?n3) = length buf"
    using unat_size [OF small] same1 by simp_all
  obtain bm2 where
    wr: "for_each (write_round e n1 buf (int (length buf)) (int ?m1)) [0..<?m1] bm1 = Inr bm2"
    and wf2: "bm_wf bm2" and use2: "using_blocks bm2 = using_blocks bm1"
    and ok2: "node_ok bm2 ?n3 ?m1"
    and own2: "own_ids (bm_data bm2) ?n3 ?m1 = own_ids (bm_data bm1) n1 ?m1"
    and keep2: "\<And>b. b \<notin> set (file_ids (bm_data bm1) n1 ?m1) \<Longrightarrow> bm_data bm2 b = bm_data bm1 b"
    and data2: "file_data (bm_data bm2) ?n3 = buf"
    using write_loop_node [OF wf1 ok1 n3, of e] by blast
  have m3: "node_blocks ?n3 = ?m1" using n3 by simp
  have shape: "inode_shape ?n3" using ok2 by (simp add: node_ok_def)
  have run: "write_file e i buf (int (length buf)) im
      = Inr \<lparr>next_inum = next_inum im, im_bm = put_node i ?n3 bm2\<rparr>"
    using put_inode_eq [of "im\<lparr>im_bm := bm2\<rparr>" i ?n3 e] wf2 i(1) shape rs wr
    by (simp add: write_file_def get_inode_eq [OF wf] n nblocks_unsigned_eq nblocks_signed_eq Let_def)
  have old: "old_own im i = set (own_ids ?D n ?m0)" using n by (simp add: old_own_def)
  have "b \<notin> set (file_ids (bm_data bm1) n1 ?m1)"
    if "using_blocks ?bm b \<noteq> 0" "b \<notin> old_own im i \<or> \<not> data_block b" for b
    using own1 [of b] old that node_okD(6) [OF ok1, of b] by auto
  then have keep: "bm_data bm2 b = ?D b \<and> using_blocks bm2 b \<noteq> 0"
    if "using_blocks ?bm b \<noteq> 0" "b \<notin> old_own im i" for b
    using that keep1 [of b] keep2 use2 old by simp
  have tab: "bm_data bm2 b = ?D b" if "\<not> data_block b" for b
    using that keep2 [of b] tab1 [of b] node_okD(6) [OF ok1, of b] by auto
  have own: "b \<in> old_own im i \<or> using_blocks ?bm b = 0" if "b \<in> node_own (bm_data bm2) ?n3" for b
    using that own1 [of b] own2 unfolding m3 old by simp
  note commit = commit_node [OF inv i(1) shape wf2 keep tab _ own im_invD(3,4) [OF inv]]
  from commit ok2 run data2 same1 i(2) m3 show ?thesis by auto
qed

end
