(* ===== verification/Inode_Correct.thy ===== *)
theory Inode_Correct
  imports Inode_File
begin

text \<open>
  The remaining operations of the inode layer against the abstraction \<open>files\<close>, the
  reachable states of an inode manager, and the properties of the layer. The heap
  hypothesis \<open>heap_clean\<close> says that the four bytes that become the indirect block
  number of a new inode are zero, which \<open>malloc\<close> does not promise.
\<close>

section \<open>Reading, removing and freeing\<close>

lemma node_ok_atime:
  "node_ok bm n m \<Longrightarrow> node_ok bm (n\<lparr>i_atime := t\<rparr>) m"
  by (rule node_ok_cong) (auto simp: node_ok_def)

lemma own_ids_update [simp]:
  "file_ids D (n\<lparr>i_atime := t\<rparr>) m = file_ids D n m" "ind_ids (n\<lparr>i_atime := t\<rparr>) = ind_ids n"
  by (auto intro: file_ids_cong ind_ids_cong)

lemma file_data_atime [simp]: "file_data D (n\<lparr>i_atime := t\<rparr>) = file_data D n"
  by (simp add: file_data_def)

lemma read_file_ok:
  assumes inv: "im_inv im" and n: "inode_of (bm_data (im_bm im)) i = Some n"
  shows "\<exists>buf im'. read_file e i im = Inr ((buf, i_size n), im') \<and>
    take (unat (i_size n)) buf = file_data (bm_data (im_bm im)) n \<and>
    im_inv im' \<and> files im' = files im \<and> next_inum im' = next_inum im \<and>
    free_ahead (im_bm im') = free_ahead (im_bm im)"
proof -
  let ?n = "n\<lparr>i_atime := clock e 0\<rparr>" and ?bm = "im_bm im"
  let ?im' = "\<lparr>next_inum = next_inum im, im_bm = put_node i ?n ?bm\<rparr>"
  have wf: "bm_wf ?bm" and ok: "node_ok ?bm n (node_blocks n)" using im_invD [OF inv] n by blast+
  have i: "i < INODE_NUM" "inode_shape ?n" "i_type n \<noteq> 0" using inode_of_SomeD [OF n] by auto
  obtain buf where loop: "for_each (read_round e ?bm n (node_blocks n)) [0..<node_blocks n]
      (malloc e (BLOCK_SIZE * node_blocks n)) = Inr buf"
    and data: "take (unat (i_size n)) buf = file_data (bm_data ?bm) n"
    using read_loop_ok [OF wf ok refl, of "malloc e (BLOCK_SIZE * node_blocks n)" e] by auto
  have run: "read_file e i im = Inr ((buf, i_size n), ?im')"
    using loop put_inode_eq [OF wf i(1,2), of e]
    by (simp add: read_file_def get_inode_eq [OF wf] n nblocks_unsigned_eq Let_def)
  have own: "b \<in> old_own im i \<or> using_blocks ?bm b = 0" if "b \<in> node_own (bm_data ?bm) ?n" for b
    using that n by (simp add: old_own_def)
  have ok': "node_ok ?bm ?n (node_blocks ?n)" using node_ok_atime [OF ok] by simp
  note commit = commit_node [OF inv i(1,2) wf _ _ ok' own im_invD(3,4) [OF inv]]
  have "files ?im' = files im"
    using commit(2) i(3) n by (auto simp: files_def fun_eq_iff)
  moreover have "im_inv ?im'" by (rule commit(1)) simp_all
  ultimately show ?thesis
    using run data put_node_facts(4) [OF wf i(1,2)] by auto
qed

lemma free_inode_ok:
  assumes inv: "im_inv im" and n: "inode_of (bm_data (im_bm im)) i = Some n"
    and wf: "bm_wf bm" and D: "bm_data bm = bm_data (im_bm im)"
    and keep: "\<And>b. using_blocks (im_bm im) b \<noteq> 0 \<Longrightarrow> b \<notin> old_own im i \<Longrightarrow> using_blocks bm b \<noteq> 0"
  shows "\<exists>im'. free_inode e i (im\<lparr>im_bm := bm\<rparr>) = Inr im' \<and> im_inv im' \<and>
    files im' = (files im)(i := None) \<and> using_blocks (im_bm im') = using_blocks bm \<and>
    next_inum im' = next_inum im"
proof -
  let ?n = "n\<lparr>i_type := 0\<rparr>"
  let ?im' = "\<lparr>next_inum = next_inum im, im_bm = put_node i ?n bm\<rparr>"
  have i: "i < INODE_NUM" "inode_shape ?n" using inode_of_SomeD [OF n] by auto
  have "get_inode e i (im\<lparr>im_bm := bm\<rparr>) = Inr (Some n)"
    using get_inode_eq [of "im\<lparr>im_bm := bm\<rparr>" e i] wf n D by simp
  then have "free_inode e i (im\<lparr>im_bm := bm\<rparr>) = Inr ?im'"
    using put_inode_eq [of "im\<lparr>im_bm := bm\<rparr>" i ?n e] wf i by (simp add: free_inode_def)
  moreover have "im_inv ?im'"
    by (rule commit_node(1) [OF inv i wf]) (use D keep im_invD(3,4) [OF inv] in auto)
  moreover have "files ?im' = (files im)(i := if i_type ?n = 0 then None
      else Some (i_type ?n, file_data (bm_data bm) ?n))"
    by (rule commit_node(2) [OF inv i wf]) (use D keep im_invD(3,4) [OF inv] in auto)
  ultimately show ?thesis
    using put_node_facts(2) [OF wf i] by auto
qed

lemma remove_file_ok:
  assumes inv: "im_inv im" and n: "inode_of (bm_data (im_bm im)) i = Some n"
  shows "\<exists>im'. remove_file e i im = Inr im' \<and> im_inv im' \<and> files im' = (files im)(i := None) \<and>
    using_blocks (im_bm im') =
      using_blocks (free_all (file_ids (bm_data (im_bm im)) n (node_blocks n)) (im_bm im))"
proof -
  let ?bs = "file_ids (bm_data (im_bm im)) n (node_blocks n)"
  let ?bm = "free_all ?bs (im_bm im)"
  have wf: "bm_wf (im_bm im)" and ok: "node_ok (im_bm im) n (node_blocks n)"
    using im_invD [OF inv] n by blast+
  have loop: "for_each (shrink_round e n 0) [0..<node_blocks n] (im_bm im) = Inr ?bm"
    using shrink_loop [OF wf ok, of 0 e] by simp
  have run: "remove_file e i im = free_inode e i (im\<lparr>im_bm := ?bm\<rparr>)"
    using loop by (simp add: remove_file_def get_inode_eq [OF wf] n nblocks_unsigned_eq)
  have keep: "using_blocks ?bm b \<noteq> 0" if "using_blocks (im_bm im) b \<noteq> 0" "b \<notin> old_own im i" for b
    using that n by (auto simp: old_own_def)
  show ?thesis
    unfolding run using free_inode_ok [OF inv n, of ?bm e] wf keep by fastforce
qed

section \<open>Allocating inodes\<close>

definition heap_clean :: "env \<Rightarrow> bool" where
  "heap_clean e \<longleftrightarrow> i_blocks (load_inode (malloc e INODE_BYTES)) ! NDIRECT = 0"

lemma scan_inode_spec:
  assumes "bm_wf (im_bm im)"
  shows "\<exists>r. scan_inode e im i lim = Inr r \<and>
    (case r of
       Some j \<Rightarrow> i \<le> j \<and> j < lim \<and> inode_of (bm_data (im_bm im)) j = None
     | None \<Rightarrow> (\<forall>j. i \<le> j \<longrightarrow> j < lim \<longrightarrow> inode_of (bm_data (im_bm im)) j \<noteq> None))"
  using assms
proof (induction e im i lim rule: scan_inode.induct)
  case (1 e im i lim)
  note get = get_inode_eq [OF "1.prems", of e i]
  show ?case
  proof (cases "i < lim \<and> inode_of (bm_data (im_bm im)) i \<noteq> None")
    case True
    then obtain n where n: "inode_of (bm_data (im_bm im)) i = Some n" by auto
    with inode_of_SomeD have t: "i_type n \<noteq> 0" by blast
    have nxt: "i + 1 \<le> j \<longleftrightarrow> i < j" for j
      using unat_Suc_less [of i lim] True by (simp add: word_le_nat_alt word_less_nat_alt Suc_le_eq)
    have step: "scan_inode e im i lim = scan_inode e im (i + 1) lim"
      using True get n t by (simp add: scan_inode.simps [of e im i lim])
    have "get_inode e i im = Inr (Some n)" using get n by simp
    from "1.IH" [OF _ this _ _ "1.prems"] True t obtain r where
      "scan_inode e im (i + 1) lim = Inr r" and
      "case r of
         Some j \<Rightarrow> i + 1 \<le> j \<and> j < lim \<and> inode_of (bm_data (im_bm im)) j = None
       | None \<Rightarrow> (\<forall>j. i + 1 \<le> j \<longrightarrow> j < lim \<longrightarrow> inode_of (bm_data (im_bm im)) j \<noteq> None)"
      by auto
    with step n show ?thesis
      by (intro exI [of _ r]) (auto simp: nxt less_le split: option.splits)
  next
    case False
    then show ?thesis
      using get by (cases "i < lim") (auto simp: scan_inode.simps [of e im i lim])
  qed
qed

lemma scan_inodeE:
  assumes "bm_wf (im_bm im)"
  obtains r where "scan_inode e im i lim = Inr r"
    "\<And>j. r = Some j \<Longrightarrow> i \<le> j \<and> j < lim \<and> inode_of (bm_data (im_bm im)) j = None"
proof -
  from scan_inode_spec [OF assms, of e i lim] obtain r where r: "scan_inode e im i lim = Inr r"
    and "case r of
       Some j \<Rightarrow> i \<le> j \<and> j < lim \<and> inode_of (bm_data (im_bm im)) j = None
     | None \<Rightarrow> (\<forall>j. i \<le> j \<longrightarrow> j < lim \<longrightarrow> inode_of (bm_data (im_bm im)) j \<noteq> None)" by blast
  then show thesis using that [OF r] by (cases r) auto
qed

lemma malloc_inode_sel [simp]:
  "i_type (malloc_inode e type) = ucast type" "i_size (malloc_inode e type) = 0"
  "inode_shape (malloc_inode e type)"
  "i_blocks (malloc_inode e type) = i_blocks (load_inode (malloc e INODE_BYTES))"
  by (simp_all add: malloc_inode_def)

lemma take_inode_ok:
  assumes inv: "im_inv im" and none: "inode_of (bm_data (im_bm im)) i = None"
    and i: "1 \<le> i" "i < INODE_NUM" and clean: "heap_clean e" and t: "(ucast type :: u16) \<noteq> 0"
  shows "\<exists>im'. take_inode e type i im = Inr (i, im') \<and> im_inv im' \<and>
    files im' = (files im)(i \<mapsto> (ucast type, [])) \<and> next_inum im' = i + 1 \<and>
    free_ahead (im_bm im') = free_ahead (im_bm im)"
proof -
  let ?n = "malloc_inode e type"
  let ?im' = "\<lparr>next_inum = i + 1, im_bm = put_node i ?n (im_bm im)\<rparr>"
  have wf: "bm_wf (im_bm im)" by (rule im_invD(1) [OF inv])
  have run: "take_inode e type i im = Inr (i, ?im')"
    using put_inode_eq [OF wf i(2), of ?n e] by (simp add: take_inode_def)
  have "unat (i + 1) = Suc (unat i)" by (rule unat_Suc_less [OF i(2)])
  with i have k: "1 \<le> i + 1" "i + 1 \<le> INODE_NUM"
    by (simp_all add: word_le_nat_alt word_less_nat_alt)
  have own: "own_ids D ?n 0 = []" for D
    using clean by (simp add: file_ids_def ind_ids_def heap_clean_def)
  have ok: "node_ok (im_bm im) ?n 0" using own by (simp add: node_ok_def)
  note commit = commit_node [OF inv i(2) malloc_inode_sel(3) wf _ _ _ _ k, of e type]
  have "im_inv ?im'" by (rule commit(1)) (use ok own in simp_all)
  moreover have "files ?im' = (files im)(i := if i_type ?n = 0 then None
      else Some (i_type ?n, file_data (bm_data (im_bm im)) ?n))"
    by (rule commit(2)) (use ok own in simp_all)
  ultimately show ?thesis
    using run t put_node_facts(4) [OF wf i(2), of ?n] by (simp add: file_data_def)
qed

lemma files_None_iff: "files im i = None \<longleftrightarrow> inode_of (bm_data (im_bm im)) i = None"
  by (simp add: files_def)

lemma files_SomeD:
  assumes "files im i = Some (t, data)"
  obtains n where "inode_of (bm_data (im_bm im)) i = Some n" "t = i_type n"
    "data = file_data (bm_data (im_bm im)) n"
  using assms by (auto simp: files_def)

lemma alloc_inode_ok:
  assumes inv: "im_inv im" and clean: "heap_clean e" and t: "(ucast type :: u16) \<noteq> 0"
    and free: "1 \<le> j" "j < INODE_NUM" "files im j = None"
  shows "\<exists>i im'. alloc_inode e type im = Inr (i, im') \<and> 1 \<le> i \<and> i < INODE_NUM \<and>
    files im i = None \<and> im_inv im' \<and> files im' = (files im)(i \<mapsto> (ucast type, [])) \<and>
    free_ahead (im_bm im') = free_ahead (im_bm im)"
proof -
  note scan = scan_inode_spec [OF im_invD(1) [OF inv], of e]
  obtain r where r: "scan_inode e im (next_inum im) INODE_NUM = Inr r"
    and rs: "case r of Some j \<Rightarrow> next_inum im \<le> j \<and> j < INODE_NUM \<and> files im j = None
      | None \<Rightarrow> (\<forall>j. next_inum im \<le> j \<longrightarrow> j < INODE_NUM \<longrightarrow> files im j \<noteq> None)"
    using scan [of "next_inum im" INODE_NUM] unfolding files_None_iff by blast
  obtain q where q: "scan_inode e im 1 (next_inum im) = Inr q"
    and qs: "case q of Some j \<Rightarrow> 1 \<le> j \<and> j < next_inum im \<and> files im j = None
      | None \<Rightarrow> (\<forall>j. 1 \<le> j \<longrightarrow> j < next_inum im \<longrightarrow> files im j \<noteq> None)"
    using scan [of 1 "next_inum im"] unfolding files_None_iff by blast
  have bounds: "1 \<le> next_inum im" "next_inum im \<le> INODE_NUM" using im_invD(3,4) [OF inv] .
  obtain i where i: "1 \<le> i" "i < INODE_NUM" "files im i = None"
    and run: "alloc_inode e type im = take_inode e type i im"
  proof (cases r)
    case (Some i)
    with rs bounds have "1 \<le> i" "i < INODE_NUM" "files im i = None" by auto
    with that r Some show thesis by (simp add: alloc_inode_def)
  next
    case None
    with rs free have "j < next_inum im"
      by (cases "next_inum im \<le> j") (auto simp del: INODE_NUM_def)
    with qs free obtain i where qi: "q = Some i" by (cases q) auto
    with qs bounds have "1 \<le> i" "i < INODE_NUM" "files im i = None" by auto
    with that r q None qi show thesis by (simp add: alloc_inode_def)
  qed
  with take_inode_ok [OF inv _ i(1,2) clean t] show ?thesis
    unfolding files_None_iff by fastforce
qed

lemma alloc_inode_full:
  assumes inv: "im_inv im" and full: "\<And>j. 1 \<le> j \<Longrightarrow> j < INODE_NUM \<Longrightarrow> files im j \<noteq> None"
  shows "alloc_inode e type im = Inr (0, im)"
proof -
  have bounds: "1 \<le> next_inum im" "next_inum im \<le> INODE_NUM" using im_invD(3,4) [OF inv] .
  have busy: "inode_of (bm_data (im_bm im)) j \<noteq> None" if "1 \<le> j" "j < INODE_NUM" for j
    using full [OF that] by (simp add: files_None_iff)
  obtain r where r: "scan_inode e im (next_inum im) INODE_NUM = Inr r"
    and rs: "\<And>j. r = Some j \<Longrightarrow> next_inum im \<le> j \<and> j < INODE_NUM \<and> inode_of (bm_data (im_bm im)) j = None"
    using scan_inodeE [OF im_invD(1) [OF inv], of e "next_inum im" INODE_NUM] by blast
  have "r = None" by (metis rs busy bounds(1) order.trans option.exhaust)
  moreover obtain q where q: "scan_inode e im 1 (next_inum im) = Inr q"
    and qs: "\<And>j. q = Some j \<Longrightarrow> 1 \<le> j \<and> j < next_inum im \<and> inode_of (bm_data (im_bm im)) j = None"
    using scan_inodeE [OF im_invD(1) [OF inv], of e 1 "next_inum im"] by blast
  moreover have "q = None" by (metis qs busy bounds(2) less_le_trans option.exhaust)
  ultimately show ?thesis using r q by (simp add: alloc_inode_def)
qed

section \<open>The initial state\<close>

lemma bm_new_wf: "bm_wf (bm_new nb)"
proof -
  have "unat nb div 4096 < 1048576" using unat_u32_less [of nb] by simp
  then have "unat (nb div BPB) < 1048576" by (simp add: unat_div)
  moreover have "IBLOCK INODE_NUM nb + 1 = 1028 + nb div BPB"
    by (simp add: IBLOCK_def)
  moreover have "unat (1028 + nb div BPB) = 1028 + unat (nb div BPB)"
    using \<open>unat (nb div BPB) < 1048576\<close> by (subst unat_add_no_wrap) simp_all
  ultimately have "IBLOCK INODE_NUM nb + 1 \<le> 0x00200000"
    by (simp add: word_le_nat_alt)
  then show ?thesis
    by (simp add: bm_wf_def bm_new_def disk_new_def)
qed

lemma le_dec_zeros: "le_dec (replicate n 0) = 0"
  by (induction n) simp_all

lemma inode_of_new: "inode_of (bm_data (bm_new nb)) i = None"
  by (simp add: inode_of_def bm_new_def disk_new_def load_inode_def bytes_at_def le_dec_zeros Let_def)

lemma im_inv_empty: "im_inv \<lparr>next_inum = 1, im_bm = bm_new nb\<rparr>"
  using bm_new_wf by (simp add: im_inv_def inode_of_new)

lemma im_new_ok:
  assumes "heap_clean e"
  shows "\<exists>im. im_new e nb = Inr im \<and> im_inv im \<and> files im = [1 \<mapsto> (1, [])] \<and>
    free_ahead (im_bm im) = free_ahead (bm_new nb)"
proof -
  let ?im0 = "\<lparr>next_inum = 1, im_bm = bm_new nb\<rparr>"
  have empty: "files ?im0 = Map.empty" by (simp add: files_def inode_of_new fun_eq_iff)
  have get: "get_inode e 1 ?im0 = Inr None"
    using get_inode_eq [of ?im0 e 1] bm_new_wf by (simp add: inode_of_new)
  then have scan: "scan_inode e ?im0 1 INODE_NUM = Inr (Some 1)"
    by (subst scan_inode.simps) simp
  obtain im' where "take_inode e T_DIR 1 ?im0 = Inr (1, im')" "im_inv im'"
    "files im' = (files ?im0)(1 \<mapsto> (ucast T_DIR, []))"
    "free_ahead (im_bm im') = free_ahead (bm_new nb)"
    using take_inode_ok [OF im_inv_empty, of nb 1 e T_DIR] assms by (auto simp: inode_of_new)
  with scan empty show ?thesis
    by (simp add: im_new_def alloc_inode_def)
qed

section \<open>Operations on an inode that is not in use\<close>

lemma missing_inode:
  assumes "im_inv im" "inode_of (bm_data (im_bm im)) i = None"
  shows "read_file e i im = Inl Null_deref" "write_file e i buf sz im = Inl Null_deref"
    "remove_file e i im = Inl Null_deref" "free_inode e i im = Inr im"
    "im_getattr e i a im = Inr a"
  using assms get_inode_eq [OF im_invD(1) [OF assms(1)], of e i]
  by (simp_all add: read_file_def write_file_def remove_file_def free_inode_def im_getattr_def)

lemma blocks_needed_le: "blocks_needed n m0 m1 \<le> Suc m1"
  by (auto simp: blocks_needed_def)

section \<open>The operations on the abstraction\<close>

text \<open>
  The same facts with \<open>files\<close> in place of \<open>inode_of\<close>: what a client of the inode layer
  needs to know.
\<close>

lemma write_file_files:
  assumes "im_inv im" "files im i = Some (t, old)" "length buf \<le> MAXFILE * BLOCK_SIZE"
    and "Suc (nblk (length buf)) \<le> length (free_ahead (im_bm im))"
  obtains im' where "write_file e i buf (int (length buf)) im = Inr im'" "im_inv im'"
    "files im' = (files im)(i \<mapsto> (t, buf))" "next_inum im' = next_inum im"
proof -
  from assms(2) obtain n where n: "inode_of (bm_data (im_bm im)) i = Some n" "t = i_type n"
    by (rule files_SomeD)
  have "blocks_needed n (node_blocks n) (nblk (length buf)) \<le> length (free_ahead (im_bm im))"
    using assms(4) blocks_needed_le order.trans by blast
  with write_file_ok [OF assms(1) n(1) assms(3), of e] n(2) that show thesis by blast
qed

lemma read_file_files:
  assumes "im_inv im" "files im i = Some (t, data)"
  obtains b im' where "read_file e i im = Inr ((b, word_of_nat (length data)), im')"
    "take (length data) b = data" "im_inv im'" "files im' = files im"
    "free_ahead (im_bm im') = free_ahead (im_bm im)" "unat (word_of_nat (length data) :: u32) = length data"
proof -
  from assms(2) obtain n where n: "inode_of (bm_data (im_bm im)) i = Some n"
    and data: "data = file_data (bm_data (im_bm im)) n" by (rule files_SomeD)
  have len: "unat (i_size n) = length data"
    using data length_file_data [OF im_invD(1) [OF assms(1)], of n] by simp
  then have sz: "i_size n = word_of_nat (length data)" by (simp flip: len)
  from read_file_ok [OF assms(1) n, of e] that data len sz show thesis by auto
qed

lemma remove_file_files:
  assumes "im_inv im" "files im i = Some x"
  obtains im' where "remove_file e i im = Inr im'" "im_inv im'" "files im' = (files im)(i := None)"
proof -
  obtain t d where "x = (t, d)" by (cases x)
  with assms(2) obtain n where "inode_of (bm_data (im_bm im)) i = Some n"
    using files_SomeD [of im i t d] by metis
  from remove_file_ok [OF assms(1) this, of e] that show thesis by blast
qed

lemma free_inode_files:
  assumes "im_inv im"
  obtains im' where "free_inode e i im = Inr im'" "im_inv im'" "files im' = (files im)(i := None)"
proof (cases "inode_of (bm_data (im_bm im)) i")
  case None
  then have "files im = (files im)(i := None)" by (auto simp: files_def)
  with missing_inode(4) [OF assms None, of e] assms that show thesis by metis
next
  case (Some n)
  from free_inode_ok [OF assms Some im_invD(1) [OF assms], of e] that show thesis by auto
qed

lemma files_missing:
  assumes "im_inv im" "files im i = None"
  shows "read_file e i im = Inl Null_deref" "write_file e i buf sz im = Inl Null_deref"
    "remove_file e i im = Inl Null_deref" "im_getattr e i a im = Inr a"
  using missing_inode [OF assms(1)] assms(2) by (simp_all add: files_None_iff)

lemma files_size:
  assumes "im_inv im" "files im i = Some (t, data)"
  shows "length data \<le> MAXFILE * BLOCK_SIZE" "i < INODE_NUM" "t \<noteq> 0"
proof -
  from assms(2) obtain n where n: "inode_of (bm_data (im_bm im)) i = Some n" "t = i_type n"
    and data: "data = file_data (bm_data (im_bm im)) n" by (rule files_SomeD)
  have "node_blocks n \<le> MAXFILE" using im_invD(2) [OF assms(1) n(1)] by (simp add: node_ok_def)
  moreover have "length data = unat (i_size n)"
    using data length_file_data [OF im_invD(1) [OF assms(1)], of n] by simp
  ultimately show "length data \<le> MAXFILE * BLOCK_SIZE"
    using nblk_bounds(2) [of "length data"] by (simp add: NDIRECT_def)
  show "i < INODE_NUM" "t \<noteq> 0" using inode_of_SomeD [OF n(1)] n(2) by auto
qed

lemma getattr_files:
  assumes "im_inv im" "files im i = Some (t, data)"
  obtains at mt ct where "im_getattr e i a im =
    Inr \<lparr>a_type = scast t, a_atime = at, a_mtime = mt, a_ctime = ct, a_size = word_of_nat (length data)\<rparr>"
proof -
  from assms(2) obtain n where n: "inode_of (bm_data (im_bm im)) i = Some n" "t = i_type n"
    and data: "data = file_data (bm_data (im_bm im)) n" by (rule files_SomeD)
  have "length data = unat (i_size n)"
    using data length_file_data [OF im_invD(1) [OF assms(1)], of n] by simp
  then have "i_size n = word_of_nat (length data)" by simp
  then show thesis
    using that n get_inode_eq [OF im_invD(1) [OF assms(1)], of e i]
    by (cases a) (simp add: im_getattr_def)
qed

section \<open>A clean start\<close>

lemma load_inode_indirect: "i_blocks (load_inode buf) ! NDIRECT = get_u32 (20 + 4 * NDIRECT) buf"
  by (simp add: load_inode_def nth_append)

lemma malloc_env0: "malloc env0 n = replicate n 0"
  by (simp add: malloc_def env0_def map_replicate_const)

lemma env0_clean [simp]: "heap_clean env0"
  unfolding heap_clean_def load_inode_indirect
  by (simp add: malloc_env0 get_u32_def bytes_at_def NDIRECT_def le_dec_zeros)

lemma free_ahead_new: "free_ahead (bm_new nb) = [unat (next_block (bm_new nb))..<unat DATA_BLOCKS]"
  by (simp add: free_ahead_def bm_new_def)

lemma length_free_ahead_new: "length (free_ahead (bm_new 0)) = 30704"
  unfolding free_ahead_new length_upt by (simp add: bm_new_def IBLOCK_def)

text \<open>An inode manager just started: the root directory and 30704 free blocks ahead.\<close>

lemma boot:
  obtains im where "im_new env0 0 = Inr im" "im_inv im" "files im = [1 \<mapsto> (1, [])]"
    "length (free_ahead (im_bm im)) = 30704"
  using im_new_ok [OF env0_clean, of 0] length_free_ahead_new by auto

end
