(* ===== verification/Inode_Props.thy ===== *)
theory Inode_Props
  imports Inode_Correct
begin

text \<open>
  What the inode layer promises: an abstract file store as a map from inode numbers to
  types and contents, the steps of an inode manager labelled with what the caller sees,
  the refinement between the two, and the properties of the single operations, those that
  fail included.
\<close>

section \<open>The abstract file store\<close>

text \<open>An operation with its arguments and what it returned.\<close>

datatype im_op =
  Alloc u32 u32 | Read u32 "byte list" | Write u32 "byte list" | Remove u32 | Free u32

type_synonym afs = "u32 \<rightharpoonup> (u16 \<times> byte list)"

definition afs_full :: "afs \<Rightarrow> bool" where
  "afs_full m \<longleftrightarrow> (\<forall>i \<in> set [1..<unat INODE_NUM]. m (word_of_nat i) \<noteq> None)"

text \<open>The effect of an operation, or \<open>None\<close> where the store does not allow that result.\<close>

fun afs_apply :: "im_op \<Rightarrow> afs \<Rightarrow> afs option" where
  "afs_apply (Alloc type i) m =
     (if i = 0 then (if afs_full m then Some m else None)
      else if i < INODE_NUM \<and> m i = None then Some (m(i \<mapsto> (ucast type, []))) else None)"
| "afs_apply (Read i data) m =
     (case m i of Some (t, d) \<Rightarrow> if d = data then Some m else None | None \<Rightarrow> None)"
| "afs_apply (Write i data) m =
     (case m i of Some (t, d) \<Rightarrow> Some (m(i \<mapsto> (t, data))) | None \<Rightarrow> None)"
| "afs_apply (Remove i) m = (case m i of Some x \<Rightarrow> Some (m(i := None)) | None \<Rightarrow> None)"
| "afs_apply (Free i) m = Some (m(i := None))"

fun afs_run :: "im_op list \<Rightarrow> afs \<Rightarrow> afs option" where
  "afs_run [] m = Some m"
| "afs_run (op # ops) m = Option.bind (afs_apply op m) (afs_run ops)"

section \<open>Steps of an inode manager\<close>

text \<open>
  One rule per public operation that changes the manager. The premises of \<open>im_write\<close> keep
  a file within \<open>MAXFILE\<close> blocks and within the free blocks ahead of \<open>next_block\<close>; those
  of \<open>im_alloc\<close> are a proper type and a clean heap.
\<close>

inductive im_step :: "inode_manager \<Rightarrow> im_op \<Rightarrow> inode_manager \<Rightarrow> bool" where
  im_alloc: "heap_clean e \<Longrightarrow> (ucast type :: u16) \<noteq> 0 \<Longrightarrow> alloc_inode e type im = Inr (i, im') \<Longrightarrow>
    im_step im (Alloc type i) im'"
| im_read: "read_file e i im = Inr ((b, sz), im') \<Longrightarrow> im_step im (Read i (take (unat sz) b)) im'"
| im_write: "length buf \<le> MAXFILE * BLOCK_SIZE \<Longrightarrow>
    Suc (nblk (length buf)) \<le> length (free_ahead (im_bm im)) \<Longrightarrow>
    write_file e i buf (int (length buf)) im = Inr im' \<Longrightarrow> im_step im (Write i buf) im'"
| im_remove: "remove_file e i im = Inr im' \<Longrightarrow> im_step im (Remove i) im'"
| im_free: "free_inode e i im = Inr im' \<Longrightarrow> im_step im (Free i) im'"

inductive im_reachable :: "im_op list \<Rightarrow> inode_manager \<Rightarrow> bool" where
  start: "heap_clean e \<Longrightarrow> im_new e nb = Inr im \<Longrightarrow> im_reachable [] im"
| step: "im_reachable ops im \<Longrightarrow> im_step im op im' \<Longrightarrow> im_reachable (ops @ [op]) im'"

inductive_cases im_step_allocE: "im_step im (Alloc type i) im'"
inductive_cases im_step_readE: "im_step im (Read i d) im'"
inductive_cases im_step_writeE: "im_step im (Write i d) im'"
inductive_cases im_step_removeE: "im_step im (Remove i) im'"
inductive_cases im_step_freeE: "im_step im (Free i) im'"

lemma afs_full_iff: "afs_full m \<longleftrightarrow> (\<forall>j. 1 \<le> j \<longrightarrow> j < INODE_NUM \<longrightarrow> m j \<noteq> None)"
proof
  assume full: "afs_full m"
  show "\<forall>j. 1 \<le> j \<longrightarrow> j < INODE_NUM \<longrightarrow> m j \<noteq> None"
  proof (intro allI impI)
    fix j :: u32 assume "1 \<le> j" "j < INODE_NUM"
    then have "unat j \<in> set [1..<unat INODE_NUM]"
      unfolding set_upt atLeastLessThan_iff by (simp add: word_le_nat_alt word_less_nat_alt)
    with full have "m (word_of_nat (unat j)) \<noteq> None" unfolding afs_full_def by (rule bspec)
    then show "m j \<noteq> None" by simp
  qed
next
  assume all: "\<forall>j. 1 \<le> j \<longrightarrow> j < INODE_NUM \<longrightarrow> m j \<noteq> None"
  have "m (word_of_nat i) \<noteq> None" if "i \<in> set [1..<unat INODE_NUM]" for i
  proof -
    from that have i: "1 \<le> i" "i < 1024" unfolding set_upt atLeastLessThan_iff by simp_all
    then have "unat (word_of_nat i :: u32) = i" by (simp add: unat_of_nat)
    with i all show ?thesis by (simp add: word_le_nat_alt word_less_nat_alt)
  qed
  then show "afs_full m" unfolding afs_full_def by blast
qed

lemma alloc_inode_files:
  assumes "im_inv im" "heap_clean e" "(ucast type :: u16) \<noteq> 0"
    and "alloc_inode e type im = Inr (i, im')"
  shows "im_inv im' \<and> afs_apply (Alloc type i) (files im) = Some (files im')"
proof (cases "\<exists>j. 1 \<le> j \<and> j < INODE_NUM \<and> files im j = None")
  case True
  then obtain j where "1 \<le> j" "j < INODE_NUM" "files im j = None" by blast
  from alloc_inode_ok [OF assms(1-3) this] assms(4) have
    "1 \<le> i" "i < INODE_NUM" "files im i = None" "im_inv im'"
    "files im' = (files im)(i \<mapsto> (ucast type, []))" by auto
  moreover from \<open>1 \<le> i\<close> have "i \<noteq> 0" by auto
  ultimately show ?thesis by (simp only: afs_apply.simps if_True if_False simp_thms)
next
  case False
  have busy: "files im j \<noteq> None" if "1 \<le> j" "j < INODE_NUM" for j
  proof
    assume "files im j = None"
    with that have "1 \<le> j \<and> j < INODE_NUM \<and> files im j = None" by (simp only: simp_thms)
    then have "\<exists>j. 1 \<le> j \<and> j < INODE_NUM \<and> files im j = None" ..
    with False show False ..
  qed
  then have "afs_full (files im)" unfolding afs_full_iff by simp
  moreover have "alloc_inode e type im = Inr (0, im)"
    by (rule alloc_inode_full [OF assms(1) busy])
  ultimately show ?thesis
    using assms(1,4) by (simp only: afs_apply.simps if_True simp_thms sum.inject prod.inject)
qed

text \<open>One step of the manager is one operation of the abstract store.\<close>

lemma im_step_sim:
  assumes "im_step im op im'" "im_inv im"
  shows "im_inv im' \<and> afs_apply op (files im) = Some (files im')"
  using assms(1)
proof (cases rule: im_step.cases)
  case (im_alloc e type i)
  with alloc_inode_files [OF assms(2)] show ?thesis by blast
next
  case (im_read e i b sz)
  then obtain t data where f: "files im i = Some (t, data)"
    using files_missing(1) [OF assms(2), of i e] by (cases "files im i") auto
  show ?thesis
    using assms(2) f by (rule read_file_files [where e = e]) (use im_read f in auto)
next
  case (im_write buf e i)
  then obtain t data where f: "files im i = Some (t, data)"
    using files_missing(2) [OF assms(2), of i e buf] by (cases "files im i") auto
  show ?thesis
    using assms(2) f im_write(2,3)
    by (rule write_file_files [where e = e]) (use im_write f in auto)
next
  case (im_remove e i)
  then obtain x where f: "files im i = Some x"
    using files_missing(3) [OF assms(2), of i e] by (cases "files im i") auto
  show ?thesis
    using assms(2) f by (rule remove_file_files [where e = e]) (use im_remove f in auto)
next
  case (im_free e i)
  show ?thesis
    using assms(2) by (rule free_inode_files [where e = e and i = i]) (use im_free in auto)
qed

lemma afs_run_append: "afs_run (xs @ ys) m = Option.bind (afs_run xs m) (afs_run ys)"
  by (induction xs arbitrary: m) (auto split: bind_split)

lemma im_reachable_sim:
  "im_reachable ops im \<Longrightarrow> im_inv im \<and> afs_run ops [1 \<mapsto> (1, [])] = Some (files im)"
proof (induction rule: im_reachable.induct)
  case (start e nb im)
  with im_new_ok [OF start(1), of nb] show ?case by auto
next
  case (step ops im op im')
  with im_step_sim [OF step(2)] show ?case by (simp add: afs_run_append)
qed

text \<open>A reachable state with two files: the empty root and a file of one byte.\<close>

lemma two_files_reachable:
  "\<exists>im i. im_reachable [Alloc T_FILE i, Write i [7]] im \<and> i \<noteq> 1 \<and> im_inv im \<and>
    files im = [1 \<mapsto> (1, []), i \<mapsto> (2, [7])]"
proof -
  obtain im where im: "im_new env0 0 = Inr im" "im_inv im" "files im = [1 \<mapsto> (1, [])]"
    "length (free_ahead (im_bm im)) = 30704" by (rule boot)
  obtain i im1 where al: "alloc_inode env0 T_FILE im = Inr (i, im1)" "files im i = None"
    "files im1 = (files im)(i \<mapsto> (ucast T_FILE, []))" "im_inv im1"
    "free_ahead (im_bm im1) = free_ahead (im_bm im)"
    using alloc_inode_ok [OF im(2) env0_clean, of T_FILE 2] im(3) by auto
  have i: "i \<noteq> 1" using al(2) im(3) by auto
  have small: "length [7 :: byte] \<le> MAXFILE * BLOCK_SIZE" by (simp add: NDIRECT_def)
  have room: "Suc (nblk (length [7 :: byte])) \<le> length (free_ahead (im_bm im1))"
    using al(5) im(4) by (simp add: nblk_def)
  have f: "files im1 i = Some (2, [])" using al(3) by simp
  obtain im2 where wr: "write_file env0 i [7] (int (length [7 :: byte])) im1 = Inr im2"
    "im_inv im2" "files im2 = (files im1)(i \<mapsto> (2, [7]))"
    using write_file_files [OF al(4) f small room, of env0] by blast
  have "im_reachable [] im" using im(1) by (rule im_reachable.start [OF env0_clean])
  then have "im_reachable ([] @ [Alloc T_FILE i]) im1"
    by (rule im_reachable.step) (use im_step.im_alloc [OF env0_clean _ al(1)] in simp)
  then have "im_reachable (([] @ [Alloc T_FILE i]) @ [Write i [7]]) im2"
    using im_step.im_write [OF small room wr(1)] by (rule im_reachable.step)
  moreover have "files im2 = [1 \<mapsto> (1, []), i \<mapsto> (2, [7])]"
    using wr(3) al(3) im(3) by simp
  ultimately show ?thesis using i wr(2) by auto
qed

section \<open>Properties\<close>



text \<open>
  C6. Writing a file and reading it back: in any state that satisfies the invariant, for
  any inode in use and any buffer of at most \<open>MAXFILE\<close> blocks that fits the free blocks
  ahead, \<open>write_file\<close> followed by \<open>read_file\<close> returns exactly the bytes written and
  their number.
\<close>

theorem write_read_roundtrip:
  assumes "im_inv im" and "files im i = Some (t, old)" and "length buf \<le> MAXFILE * BLOCK_SIZE"
    and "Suc (nblk (length buf)) \<le> length (free_ahead (im_bm im))"
  shows "\<exists>im1 b im2. write_file e i buf (int (length buf)) im = Inr im1 \<and>
    read_file e' i im1 = Inr ((b, word_of_nat (length buf)), im2) \<and> take (length buf) b = buf"
proof -
  obtain im1 where w: "write_file e i buf (int (length buf)) im = Inr im1" "im_inv im1"
    "files im1 = (files im)(i \<mapsto> (t, buf))" by (rule write_file_files [OF assms, where e = e])
  then have "files im1 i = Some (t, buf)" by simp
  from read_file_files [OF w(2) this, where e = e'] w(1) show ?thesis by metis
qed

theorem write_read_roundtrip_witness:
  "\<exists>im im1 b im2. im_new env0 0 = Inr im \<and>
    write_file env0 1 [104, 105] (int (length [104, 105 :: byte])) im = Inr im1 \<and>
    read_file env0 1 im1 = Inr ((b, word_of_nat (length [104, 105 :: byte])), im2) \<and>
    take (length [104, 105 :: byte]) b = [104, 105]"
proof -
  obtain im where im: "im_new env0 0 = Inr im" "im_inv im" "files im = [1 \<mapsto> (1, [])]"
    "length (free_ahead (im_bm im)) = 30704" by (rule boot)
  have "files im 1 = Some (1, [])" using im(3) by simp
  from write_read_roundtrip [OF im(2) this, of "[104, 105]" env0 env0] im(1,4) show ?thesis
    by (simp add: NDIRECT_def nblk_def)
qed



text \<open>
  Removing a file: \<open>remove_file\<close> on an inode in use returns, the inode is free
  afterwards, every other file is as before, and each data block the file had is marked
  free again, so that it can be allocated.
\<close>

theorem remove_file_frees:
  assumes "im_inv im" and "inode_of (bm_data (im_bm im)) i = Some n"
  shows "\<exists>im'. remove_file e i im = Inr im' \<and> im_inv im' \<and> files im' = (files im)(i := None) \<and>
    (\<forall>b \<in> set (file_ids (bm_data (im_bm im)) n (node_blocks n)). using_blocks (im_bm im') b = 0)"
  using remove_file_ok [OF assms, of e] by auto

theorem remove_file_frees_witness:
  "\<exists>im i im'. im_inv im \<and> files im i = Some (2, [7]) \<and> remove_file env0 i im = Inr im' \<and>
    files im' = [1 \<mapsto> (1, [])]"
proof -
  obtain ops im i where r: "i \<noteq> 1" "im_inv im"
    "files im = [1 \<mapsto> (1, []), i \<mapsto> (2, [7])]" using two_files_reachable by blast
  then have f: "files im i = Some (2, [7])" by simp
  then obtain n where n: "inode_of (bm_data (im_bm im)) i = Some n" by (metis files_SomeD)
  obtain im' where "remove_file env0 i im = Inr im'" "files im' = (files im)(i := None)"
    using remove_file_frees [OF r(2) n, of env0] by blast
  moreover have "(files im)(i := None) = [1 \<mapsto> (1, [])]" using r by (auto simp: fun_eq_iff)
  ultimately show ?thesis using r(2) f by metis
qed

text \<open>
  Allocating an inode: with a free inode number left, \<open>alloc_inode\<close> returns a number
  from 1 to \<open>INODE_NUM\<close> - 1 that was free, and the only change is a new empty file of the
  requested type under it; with none left it returns 0 and changes nothing.
\<close>

theorem alloc_inode_refines:
  assumes "im_inv im" and "heap_clean e" and "(ucast type :: u16) \<noteq> 0"
  shows "if afs_full (files im) then alloc_inode e type im = Inr (0, im)
    else \<exists>i im'. alloc_inode e type im = Inr (i, im') \<and> 1 \<le> i \<and> i < INODE_NUM \<and>
      files im i = None \<and> im_inv im' \<and> files im' = (files im)(i \<mapsto> (ucast type, []))"
proof (cases "afs_full (files im)")
  case True
  have "alloc_inode e type im = Inr (0, im)"
    by (rule alloc_inode_full [OF assms(1)]) (use True in \<open>simp only: afs_full_iff simp_thms\<close>)
  with True show ?thesis by simp
next
  case False
  then obtain j where "1 \<le> j" "j < INODE_NUM" "files im j = None"
    unfolding afs_full_iff by metis
  from alloc_inode_ok [OF assms this] False show ?thesis by (simp only: if_False) blast
qed

theorem alloc_inode_refines_witness:
  "\<exists>im i im'. im_new env0 0 = Inr im \<and> alloc_inode env0 T_FILE im = Inr (i, im') \<and>
    files im' = [1 \<mapsto> (1, []), i \<mapsto> (2, [])] \<and> i \<noteq> 1"
proof -
  obtain im where im: "im_new env0 0 = Inr im" "im_inv im" "files im = [1 \<mapsto> (1, [])]"
    by (rule boot)
  have "files im 2 = None" using im(3) by simp
  then have "\<not> afs_full (files im)" unfolding afs_full_iff by (auto intro!: exI [of _ 2])
  with alloc_inode_refines [OF im(2) env0_clean, of T_FILE] obtain i im' where
    "alloc_inode env0 T_FILE im = Inr (i, im')" "files im i = None"
    "files im' = (files im)(i \<mapsto> (ucast T_FILE, []))" by auto
  with im(1,3) show ?thesis by auto
qed

text \<open>
  Attributes: \<open>getattr\<close> of an inode in use reports the type of the file and the number
  of bytes last written; of an inode that is not in use it leaves the caller's attributes
  untouched.
\<close>

theorem getattr_reports:
  assumes "im_inv im"
  shows "case files im i of
      None \<Rightarrow> im_getattr e i a im = Inr a
    | Some (t, data) \<Rightarrow> \<exists>r. im_getattr e i a im = Inr r \<and> a_type r = scast t \<and>
        unat (a_size r) = length data"
proof (cases "files im i")
  case None
  with files_missing(4) [OF assms] show ?thesis by simp
next
  case (Some f)
  then obtain t data where f: "files im i = Some (t, data)" by (cases f) simp
  have "length data < 2 ^ 32" using files_size(1) [OF assms f] by (simp add: NDIRECT_def)
  then have "unat (word_of_nat (length data) :: u32) = length data" by (simp add: unat_of_nat)
  with f show ?thesis by (auto intro: getattr_files [OF assms f, of e a])
qed

theorem getattr_reports_witness:
  "\<exists>im r. im_new env0 0 = Inr im \<and> im_getattr env0 1 attr_zero im = Inr r \<and> a_type r = T_DIR \<and>
    unat (a_size r) = 0 \<and> im_getattr env0 2 attr_zero im = Inr attr_zero"
proof -
  obtain im where im: "im_new env0 0 = Inr im" "im_inv im" "files im = [1 \<mapsto> (1, [])]"
    by (rule boot)
  have f: "files im 1 = Some (1, [])" "files im 2 = None" using im(3) by simp_all
  from getattr_reports [OF im(2), of env0 1 attr_zero] obtain r where
    "im_getattr env0 1 attr_zero im = Inr r" "a_type r = scast (1 :: u16)" "unat (a_size r) = 0"
    unfolding f by auto
  moreover have "scast (1 :: u16) = T_DIR" by simp
  moreover from getattr_reports [OF im(2), of env0 2 attr_zero]
  have "im_getattr env0 2 attr_zero im = Inr attr_zero" unfolding f by simp
  ultimately show ?thesis using im(1) by metis
qed

text \<open>
  The inode structure round trip: an inode with its \<open>NDIRECT\<close> + 1 block numbers,
  stored over any buffer that is large enough, is read back unchanged.
\<close>

theorem inode_layout_roundtrip:
  assumes "length (i_blocks n) = NDIRECT + 1" and "INODE_BYTES \<le> length buf"
  shows "load_inode (store_inode n buf) = n"
  using assms by (intro load_store_inode) (simp_all add: inode_shape_def)

theorem inode_layout_roundtrip_witness:
  "load_inode (store_inode \<lparr>i_type = 2, i_size = 600, i_atime = 1, i_mtime = 2, i_ctime = 3,
     i_blocks = replicate 101 5\<rparr> (replicate 512 0)) = \<lparr>i_type = 2, i_size = 600, i_atime = 1,
     i_mtime = 2, i_ctime = 3, i_blocks = replicate 101 5\<rparr>"
  by (rule inode_layout_roundtrip) (simp_all add: NDIRECT_def)

text \<open>
  C28. A missing inode: \<open>read_file\<close>, \<open>write_file\<close> and \<open>remove_file\<close> use the result of
  \<open>get_inode\<close> without a test, so on an inode that is not in use each of them dereferences
  a null pointer.
\<close>

theorem missing_inode_faults:
  assumes "im_inv im" and "files im i = None"
  shows "read_file e i im = Inl Null_deref \<and> write_file e i buf sz im = Inl Null_deref \<and>
    remove_file e i im = Inl Null_deref"
  using files_missing [OF assms] by simp

theorem missing_inode_faults_witness:
  "\<exists>im. im_new env0 0 = Inr im \<and> read_file env0 5 im = Inl Null_deref"
proof -
  obtain im where im: "im_new env0 0 = Inr im" "im_inv im" "files im = [1 \<mapsto> (1, [])]"
    by (rule boot)
  have "files im 5 = None" using im(3) by simp
  from missing_inode_faults [OF im(2) this] im(1) show ?thesis by blast
qed

end
