(* ===== verification/Inode_Faults.thy ===== *)
theory Inode_Faults
  imports Inode_Props
begin

text \<open>
  Where \<open>inode_manager.cc\<close> leaves the contract of the file store: files larger than
  \<open>MAXFILE\<close> blocks, the indirect block of a removed file, and the block numbers a new
  inode inherits from the heap.
\<close>

lemma and_then_fails: "(\<And>x. \<exists>f. h x = Inl f) \<Longrightarrow> \<exists>f. and_then m h = Inl f"
  by (cases m) simp_all

lemma set_block_id_too_far:
  assumes "int MAXFILE \<le> idx"
  shows "\<exists>f. set_block_id e idx bid s = Inl f"
proof -
  obtain node bm where s: "s = (node, bm)" by (cases s)
  have "int NDIRECT \<le> idx" "\<not> idx - int NDIRECT < int NINDIRECT"
    using assms by (simp_all add: NDIRECT_def)
  then show ?thesis by (simp add: set_block_id_def s split_def and_then_fails)
qed

lemma grow_round_too_far: "int MAXFILE \<le> old + int k \<Longrightarrow> \<exists>f. grow_round e old k s = Inl f"
  using set_block_id_too_far [of "old + int k" e]
  by (cases s; cases "bm_alloc_block (snd s)") (auto simp: grow_round_def)

text \<open>
  C30. No file grows beyond \<open>MAXFILE\<close> blocks, but \<open>write_file\<close> has no test for it: for
  every larger buffer the loop that enters block numbers runs past the end of the indirect
  block, whatever the state of the disk, unless the allocator has already exited.
\<close>

theorem write_file_too_large:
  assumes "im_inv im" and "files im i = Some (t, old)" and "MAXFILE * BLOCK_SIZE < length buf"
  shows "\<exists>f. write_file e i buf (int (length buf)) im = Inl f"
proof -
  from assms(2) obtain n where n: "inode_of (bm_data (im_bm im)) i = Some n" by (rule files_SomeD)
  let ?m0 = "node_blocks n" and ?m1 = "nblk (length buf)"
  have m0: "?m0 \<le> MAXFILE" using im_invD(2) [OF assms(1) n] by (simp add: node_ok_def)
  have m1: "MAXFILE < ?m1" using assms(3) by (simp add: nblk_def NDIRECT_def)
  have "\<exists>f. for_each (grow_round e (int ?m0)) [0..<?m1 - ?m0] s = Inl f" for s
  proof (rule for_each_fail)
    show "MAXFILE - ?m0 \<in> set [0..<?m1 - ?m0]" using m0 m1 by simp
  next
    fix s show "\<exists>f. grow_round e (int ?m0) (MAXFILE - ?m0) s = Inl f"
      by (rule grow_round_too_far) (use m0 in simp)
  qed
  then have "\<exists>f. resize_blocks e (int ?m0) (int ?m1) (x, im_bm im) = Inl f" for x
    using m0 m1 by (simp add: resize_blocks_def nat_diff_distrib flip: of_nat_diff)
  then obtain f where "resize_blocks e (int ?m0) (int ?m1)
      (n\<lparr>i_size := word_of_int (int (length buf))\<rparr>, im_bm im) = Inl f" by blast
  then show ?thesis
    using get_inode_eq [OF im_invD(1) [OF assms(1)], of e i] n
    by (simp add: write_file_def nblocks_unsigned_eq nblocks_signed_eq Let_def)
qed

theorem write_file_too_large_witness:
  "\<exists>im f. im_new env0 0 = Inr im \<and>
    write_file env0 1 (replicate 116737 0) (int (length (replicate 116737 (0 :: byte)))) im = Inl f"
proof -
  obtain im where im: "im_new env0 0 = Inr im" "im_inv im" "files im = [1 \<mapsto> (1, [])]"
    by (rule boot)
  have f: "files im 1 = Some (1, [])" using im(3) by simp
  have "MAXFILE * BLOCK_SIZE < length (replicate 116737 (0 :: byte))" by (simp add: NDIRECT_def)
  from write_file_too_large [OF im(2) f this, of env0] im(1) show ?thesis by blast
qed

text \<open>
  C31. The indirect block is never freed: after \<open>remove_file\<close> of a file of more than
  \<open>NDIRECT\<close> blocks its indirect block is still marked in use, although the inode that
  pointed to it is gone.
\<close>

theorem remove_file_leaks_indirect:
  assumes "im_inv im" and "inode_of (bm_data (im_bm im)) i = Some n" and "NDIRECT < node_blocks n"
  shows "\<exists>im'. remove_file e i im = Inr im' \<and> files im' i = None \<and>
    using_blocks (im_bm im') (i_blocks n ! NDIRECT) \<noteq> 0"
proof -
  obtain im' where r: "remove_file e i im = Inr im'" "files im' = (files im)(i := None)"
    "using_blocks (im_bm im') =
      using_blocks (free_all (file_ids (bm_data (im_bm im)) n (node_blocks n)) (im_bm im))"
    using remove_file_ok [OF assms(1,2), of e] by blast
  have ok: "node_ok (im_bm im) n (node_blocks n)" by (rule im_invD(2) [OF assms(1,2)])
  then have "i_blocks n ! NDIRECT \<noteq> 0" using assms(3) by (simp add: node_ok_def)
  then have ind: "ind_ids n = [i_blocks n ! NDIRECT]" by (simp add: ind_ids_def)
  with ok have "i_blocks n ! NDIRECT \<notin> set (file_ids (bm_data (im_bm im)) n (node_blocks n))"
    "using_blocks (im_bm im) (i_blocks n ! NDIRECT) \<noteq> 0"
    by (auto simp: node_ok_def)
  with r show ?thesis by auto
qed

theorem remove_file_leaks_indirect_witness:
  "\<exists>im n im'. im_inv im \<and> inode_of (bm_data (im_bm im)) 1 = Some n \<and>
    remove_file env0 1 im = Inr im' \<and> files im' 1 = None \<and>
    using_blocks (im_bm im') (i_blocks n ! NDIRECT) \<noteq> 0"
proof -
  define buf where "buf = replicate 51201 (0 :: byte)"
  have len: "length buf = 51201" by (simp add: buf_def)
  obtain im0 where im0: "im_inv im0" "files im0 = [1 \<mapsto> (1, [])]"
    "length (free_ahead (im_bm im0)) = 30704" by (rule boot)
  have "files im0 1 = Some (1, [])" using im0(2) by simp
  then obtain im where im: "im_inv im" "files im = (files im0)(1 \<mapsto> (1, buf))"
    by (rule write_file_files [OF im0(1), where buf = buf and e = env0])
      (use im0(3) len in \<open>simp_all add: NDIRECT_def nblk_def\<close>)
  then have "files im 1 = Some (1, buf)" by simp
  then obtain n where n: "inode_of (bm_data (im_bm im)) 1 = Some n"
    "buf = file_data (bm_data (im_bm im)) n" by (rule files_SomeD)
  have "unat (i_size n) = 51201"
    using n(2) len length_file_data [OF im_invD(1) [OF im(1)], of n] by simp
  then have "NDIRECT < node_blocks n" by (simp add: nblk_def NDIRECT_def)
  from remove_file_leaks_indirect [OF im(1) n(1) this, of env0] im(1) n(1) show ?thesis by metis
qed

text \<open>
  C32. A new inode inherits block numbers from the heap: \<open>alloc_inode\<close> does not clear
  \<open>blocks\<close>. If the heap holds the number of a data block where the indirect block number
  goes, entering a block number past the direct ones allocates nothing and overwrites that
  block, whoever it belongs to.
\<close>

theorem dirty_heap_overwrites:
  assumes "bm_wf bm" and "NDIRECT \<le> k" and "k < MAXFILE"
    and "get_u32 420 (malloc e INODE_BYTES) = g" and "data_block g"
  shows "\<exists>bm'. set_block_id e' (int k) bid (malloc_inode e type, bm) = Inr (malloc_inode e type, bm') \<and>
    using_blocks bm' = using_blocks bm \<and>
    bm_data bm' = (bm_data bm)(g := put_u32 (4 * (k - NDIRECT)) bid (bm_data bm g))"
proof -
  have g: "i_blocks (malloc_inode e type) ! NDIRECT = g"
    using assms(4) unfolding malloc_inode_sel load_inode_indirect by (simp add: NDIRECT_def)
  have len: "length (bm_data bm g) = 512" using assms(1) by (simp add: bm_wf_def)
  then have "length (put_u32 (4 * (k - NDIRECT)) bid (bm_data bm g)) = 512"
    using assms(3) by (simp add: buf_simps)
  then show ?thesis
    using set_block_id_eq [OF assms(1,3), of "malloc_inode e type" e' bid] g assms(2,5) len
    by (simp add: enter_id_def)
qed

theorem dirty_heap_overwrites_witness:
  "\<exists>bm'. set_block_id env0 (int 100) 9 (malloc_inode (env0\<lparr>heap := (\<lambda>i. if i = 421 then 16 else 0)\<rparr>) T_FILE, bm_at 0)
      = Inr (malloc_inode (env0\<lparr>heap := (\<lambda>i. if i = 421 then 16 else 0)\<rparr>) T_FILE, bm') \<and>
    bm_data bm' = (bm_data (bm_at 0))(4096 := put_u32 0 9 (bm_data (bm_at 0) 4096))"
proof -
  let ?e = "env0\<lparr>heap := (\<lambda>i. if i = 421 then 16 else 0)\<rparr>"
  have "bytes_at 420 4 (malloc ?e INODE_BYTES) = map (heap ?e) [420, 421, 422, 423]"
    by (simp add: bytes_at_def malloc_def drop_map take_map flip: upt_conv_Cons) 
  then have g: "get_u32 420 (malloc ?e INODE_BYTES) = 4096" by (simp add: get_u32_def)
  have "bm_wf (bm_at 0)" by (rule bm_at_wf) simp
  from dirty_heap_overwrites [OF this _ _ g, of 100 env0 9 T_FILE] show ?thesis
    by (auto simp: NDIRECT_def data_block_def)
qed

end
