(* ===== verification/Lock_Protocol.thy ===== *)
theory Lock_Protocol
  imports Prelude
begin

text \<open>
  The vocabulary of \<open>lock_protocol.h\<close> and the mechanics both lock servers share: lock
  identifiers, status codes and RPC numbers, and what \<open>pthread_cond_signal\<close> does to a set
  of waiting threads.
\<close>

type_synonym lockid_t = u64

text \<open>\<open>lock_protocol::xxstatus\<close> and \<open>rlock_protocol::xxstatus\<close>.\<close>

datatype lock_status = L_OK | L_RETRY | L_RPCERR | L_NOENT | L_IOERR
datatype rlock_status = R_OK | R_RPCERR

datatype lock_rpc = RPC_acquire | RPC_release | RPC_stat
datatype rlock_rpc = RPC_revoke | RPC_retry

fun lock_rpc_number :: "lock_rpc \<Rightarrow> nat" where
  "lock_rpc_number RPC_acquire = 0x7001"
| "lock_rpc_number RPC_release = 0x7002"
| "lock_rpc_number RPC_stat = 0x7003"

fun rlock_rpc_number :: "rlock_rpc \<Rightarrow> nat" where
  "rlock_rpc_number RPC_revoke = 0x8001"
| "rlock_rpc_number RPC_retry = 0x8002"

text \<open>
  The value an enumerator has on the wire.
\<close>

fun lock_status_code :: "lock_status \<Rightarrow> int" where
  "lock_status_code L_OK = 0"
| "lock_status_code L_RETRY = 1"
| "lock_status_code L_RPCERR = 2"
| "lock_status_code L_NOENT = 3"
| "lock_status_code L_IOERR = 4"

lemma lock_status_code_inj [simp]: "lock_status_code a = lock_status_code b \<longleftrightarrow> a = b"
  by (cases a; cases b) simp_all

end
