(* ===== verification/Lock_Server_Cache.thy ===== *)
theory Lock_Server_Cache
  imports Lock_Protocol "HOL-Library.Char_ord" "HOL-Library.List_Lexorder"
begin

text \<open>
  The caching lock server of \<open>lock_server_cache.cc\<close>. A handler changes the state of its
  lock under the mutex, then possibly makes one RPC to a client (\<open>revoke\<close> or \<open>retry\<close>), then
  replies: an operation of the model returns the call it makes, its reply and the new state.
\<close>

type_synonym client = string

datatype sc_status = SC_NONE | SC_LOCKED | SC_REVOKING | SC_RETRYING

text \<open>\<open>waiting\<close> is a \<open>std::set<std::string>\<close>: its elements in increasing order.\<close>

record sc_lock =
  sc_owner :: client
  sc_retrying :: client
  sc_waiting :: "client list"
  sc_state :: sc_status

type_synonym lock_server_cache = "lockid_t \<rightharpoonup> sc_lock"

text \<open>\<open>new lock_state_t\<close> with \<open>state = NONE\<close>.\<close>

definition sc_lock_new :: sc_lock where
  "sc_lock_new = \<lparr>sc_owner = [], sc_retrying = [], sc_waiting = [], sc_state = SC_NONE\<rparr>"

definition set_insert :: "client \<Rightarrow> client list \<Rightarrow> client list" where
  "set_insert c xs = (if c \<in> set xs then xs else insort c xs)"

text \<open>The RPC a handler makes to a client before it replies.\<close>

type_synonym rcall = "(client \<times> rlock_rpc) option"

definition sc_acquire_lock :: "client \<Rightarrow> sc_lock \<Rightarrow> ((rcall \<times> lock_status) \<times> sc_lock) res" where
  "sc_acquire_lock clientID ls =
     (case sc_state ls of
        SC_NONE \<Rightarrow> Inr ((None, L_OK), ls\<lparr>sc_state := SC_LOCKED, sc_owner := clientID\<rparr>)
      | SC_LOCKED \<Rightarrow>
          Inr ((Some (sc_owner ls, RPC_revoke), L_RETRY),
               ls\<lparr>sc_waiting := set_insert clientID (sc_waiting ls), sc_state := SC_REVOKING\<rparr>)
      | SC_REVOKING \<Rightarrow>
          Inr ((None, L_RETRY), ls\<lparr>sc_waiting := set_insert clientID (sc_waiting ls)\<rparr>)
      | SC_RETRYING \<Rightarrow>
          if clientID = sc_retrying ls
          then guard Assert_fail (clientID \<notin> set (sc_waiting ls))
            (if sc_waiting ls \<noteq> []
             then Inr ((Some (clientID, RPC_revoke), L_OK),
                       ls\<lparr>sc_retrying := [], sc_state := SC_REVOKING, sc_owner := clientID\<rparr>)
             else Inr ((None, L_OK),
                       ls\<lparr>sc_retrying := [], sc_state := SC_LOCKED, sc_owner := clientID\<rparr>))
          else Inr ((None, L_RETRY), ls\<lparr>sc_waiting := set_insert clientID (sc_waiting ls)\<rparr>))"

definition sc_acquire ::
    "lockid_t \<Rightarrow> client \<Rightarrow> lock_server_cache \<Rightarrow> ((rcall \<times> lock_status) \<times> lock_server_cache) res" where
  "sc_acquire lid clientID lock_map =
     (let ls = (case lock_map lid of None \<Rightarrow> sc_lock_new | Some ls \<Rightarrow> ls)
      in and_then (sc_acquire_lock clientID ls) (\<lambda>(r, ls'). Inr (r, lock_map(lid \<mapsto> ls'))))"

text \<open>
  \<open>release\<close> dereferences \<open>lock_map[lid]\<close> and \<open>waiting.begin()\<close> without a test; the client
  that calls it is not looked at.
\<close>

definition sc_release ::
    "lockid_t \<Rightarrow> client \<Rightarrow> lock_server_cache \<Rightarrow> ((rcall \<times> lock_status) \<times> lock_server_cache) res" where
  "sc_release lid clientID lock_map =
     (case lock_map lid of
        None \<Rightarrow> Inl Null_deref
      | Some ls \<Rightarrow>
          (case sc_waiting ls of
             [] \<Rightarrow> Inl Out_of_bounds
           | nextWaitingClient # rest \<Rightarrow>
               Inr ((Some (nextWaitingClient, RPC_retry), L_OK),
                    lock_map(lid \<mapsto> ls\<lparr>sc_waiting := rest, sc_retrying := nextWaitingClient,
                                        sc_owner := [], sc_state := SC_RETRYING\<rparr>))))"

text \<open>\<open>nacquire\<close> is never initialised nor updated: \<open>junk\<close> is what it holds.\<close>

definition sc_stat :: "int \<Rightarrow> lockid_t \<Rightarrow> lock_status \<times> int" where
  "sc_stat junk lid = (L_OK, junk)"

section \<open>The server's view of a client\<close>

datatype standing = R_none | R_wait | R_ret | R_own bool

text \<open>The argument of \<open>R_own\<close> tells whether the server has decided to revoke the lock.\<close>

fun standing_of :: "sc_lock option \<Rightarrow> client \<Rightarrow> standing" where
  "standing_of None c = R_none"
| "standing_of (Some ls) c =
     (case sc_state ls of
        SC_NONE \<Rightarrow> R_none
      | SC_LOCKED \<Rightarrow> if sc_owner ls = c then R_own False else R_none
      | SC_REVOKING \<Rightarrow> if sc_owner ls = c then R_own True
          else if c \<in> set (sc_waiting ls) then R_wait else R_none
      | SC_RETRYING \<Rightarrow> if sc_retrying ls = c then R_ret
          else if c \<in> set (sc_waiting ls) then R_wait else R_none)"

text \<open>A well-formed lock: clients wait only while another one is asked to give way.\<close>

fun sc_ok :: "sc_lock option \<Rightarrow> bool" where
  "sc_ok None = True"
| "sc_ok (Some ls) =
     (sorted (sc_waiting ls) \<and> distinct (sc_waiting ls) \<and>
      (case sc_state ls of
         SC_NONE \<Rightarrow> sc_waiting ls = []
       | SC_LOCKED \<Rightarrow> sc_waiting ls = []
       | SC_REVOKING \<Rightarrow> sc_waiting ls \<noteq> [] \<and> sc_owner ls \<notin> set (sc_waiting ls)
       | SC_RETRYING \<Rightarrow> sc_retrying ls \<notin> set (sc_waiting ls)))"

lemma set_insert_simps [simp]:
  "set (set_insert c xs) = insert c (set xs)" "set_insert c xs \<noteq> []"
  "sorted xs \<Longrightarrow> sorted (set_insert c xs)" "distinct xs \<Longrightarrow> distinct (set_insert c xs)"
  by (auto simp: set_insert_def set_insort_key sorted_insort distinct_insort)

lemma standing_own_unique:
  "standing_of ls c = R_own b \<Longrightarrow> standing_of ls d = R_own b' \<Longrightarrow> c = d \<and> b = b'"
  by (cases ls) (auto split: sc_status.splits if_splits)

lemma standing_ret_unique: "standing_of ls c = R_ret \<Longrightarrow> standing_of ls d = R_ret \<Longrightarrow> c = d"
  by (cases ls) (auto split: sc_status.splits if_splits)

lemma standing_ret_no_own: "standing_of ls c = R_ret \<Longrightarrow> standing_of ls d \<noteq> R_own b"
  by (cases ls) (auto split: sc_status.splits if_splits)

text \<open>A client that waits, waits for an owner that is being asked or for a client retrying.\<close>

lemma standing_wait_other:
  "standing_of ls c = R_wait \<Longrightarrow> \<exists>d. standing_of ls d = R_own True \<or> standing_of ls d = R_ret"
  by (cases ls) (auto split: sc_status.splits if_splits)

text \<open>
  The effect of an acquire by a client that is not the owner and not waiting: it becomes the
  owner if the lock is free or was kept for it, and waits otherwise; the owner is then asked
  to give the lock back, once.
\<close>

definition acquired :: "sc_lock option \<Rightarrow> client \<Rightarrow> rcall \<Rightarrow> lock_status \<Rightarrow> sc_lock option \<Rightarrow> bool" where
  "acquired ls c call st ls' \<longleftrightarrow>
     st = L_OK \<and> call = None \<and> standing_of ls' c = R_own False \<and>
       (\<forall>d. d \<noteq> c \<longrightarrow> standing_of ls' d = standing_of ls d) \<or>
     st = L_OK \<and> call = Some (c, RPC_revoke) \<and> standing_of ls' c = R_own True \<and>
       (\<forall>d. d \<noteq> c \<longrightarrow> standing_of ls' d = standing_of ls d) \<or>
     st = L_RETRY \<and> call = None \<and> standing_of ls c = R_none \<and> standing_of ls' c = R_wait \<and>
       (\<forall>d. d \<noteq> c \<longrightarrow> standing_of ls' d = standing_of ls d) \<or>
     (\<exists>o'. o' \<noteq> c \<and> st = L_RETRY \<and> call = Some (o', RPC_revoke) \<and> standing_of ls c = R_none \<and>
       standing_of ls' c = R_wait \<and> standing_of ls o' = R_own False \<and>
       standing_of ls' o' = R_own True \<and>
       (\<forall>d. d \<noteq> c \<longrightarrow> d \<noteq> o' \<longrightarrow> standing_of ls' d = standing_of ls d))"

lemma sc_acquire_cases:
  assumes ok: "sc_ok (m lid)" and c: "standing_of (m lid) c \<in> {R_none, R_ret}"
  obtains call st m' where "sc_acquire lid c m = Inr ((call, st), m')" "sc_ok (m' lid)"
    "\<And>l. l \<noteq> lid \<Longrightarrow> m' l = m l" "acquired (m lid) c call st (m' lid)"
proof (cases "m lid")
  case None
  then show thesis
    by (intro that [of None L_OK "m(lid \<mapsto> sc_lock_new\<lparr>sc_state := SC_LOCKED, sc_owner := c\<rparr>)"])
      (auto simp: sc_acquire_def sc_acquire_lock_def sc_lock_new_def acquired_def)
next
  case (Some ls)
  note defs = sc_acquire_def sc_acquire_lock_def acquired_def Let_def
  let ?w = "ls\<lparr>sc_waiting := set_insert c (sc_waiting ls)\<rparr>"
  show thesis
  proof (cases "sc_state ls")
    case SC_NONE
    with Some ok show thesis
      by (intro that [of None L_OK "m(lid \<mapsto> ls\<lparr>sc_state := SC_LOCKED, sc_owner := c\<rparr>)"])
        (simp_all add: defs)
  next
    case SC_LOCKED
    with Some c have "sc_owner ls \<noteq> c" by auto
    with SC_LOCKED Some ok show thesis
      by (intro that [of "Some (sc_owner ls, RPC_revoke)" L_RETRY
            "m(lid \<mapsto> ?w\<lparr>sc_state := SC_REVOKING\<rparr>)"]) (simp_all add: defs)
  next
    case SC_REVOKING
    with Some c have "sc_owner ls \<noteq> c" "c \<notin> set (sc_waiting ls)" by (auto split: if_splits)
    with SC_REVOKING Some ok show thesis
      by (intro that [of None L_RETRY "m(lid \<mapsto> ?w)"]) (simp_all add: defs)
  next
    case SC_RETRYING
    consider "sc_retrying ls = c" "sc_waiting ls \<noteq> []" | "sc_retrying ls = c" "sc_waiting ls = []"
      | "sc_retrying ls \<noteq> c" by blast
    then show thesis
    proof cases
      case 1
      with SC_RETRYING Some ok show thesis
        by (intro that [of "Some (c, RPC_revoke)" L_OK
              "m(lid \<mapsto> ls\<lparr>sc_retrying := [], sc_state := SC_REVOKING, sc_owner := c\<rparr>)"])
          (simp_all add: defs)
    next
      case 2
      with SC_RETRYING Some ok show thesis
        by (intro that [of None L_OK
              "m(lid \<mapsto> ls\<lparr>sc_retrying := [], sc_state := SC_LOCKED, sc_owner := c\<rparr>)"])
          (simp_all add: defs)
    next
      case 3
      with SC_RETRYING Some c have "c \<notin> set (sc_waiting ls)" by (auto split: if_splits)
      with 3 SC_RETRYING Some ok show thesis
        by (intro that [of None L_RETRY "m(lid \<mapsto> ?w)"]) (simp_all add: defs)
    qed
  qed
qed

text \<open>A release by the owner, once it has been asked: the first waiting client is next.\<close>

lemma sc_release_cases:
  assumes ok: "sc_ok (m lid)" and c: "standing_of (m lid) c = R_own True"
  obtains n m' where "sc_release lid c m = Inr ((Some (n, RPC_retry), L_OK), m')" "sc_ok (m' lid)"
    "\<And>l. l \<noteq> lid \<Longrightarrow> m' l = m l" "n \<noteq> c" "standing_of (m lid) n = R_wait" "standing_of (m' lid) n = R_ret"
    "standing_of (m' lid) c = R_none" "\<And>d. d \<noteq> c \<Longrightarrow> d \<noteq> n \<Longrightarrow> standing_of (m' lid) d = standing_of (m lid) d"
proof -
  from c obtain ls where ls: "m lid = Some ls" "sc_state ls = SC_REVOKING" "sc_owner ls = c"
    by (cases "m lid") (auto split: sc_status.splits if_splits)
  with ok obtain n rest where w: "sc_waiting ls = n # rest" by (cases "sc_waiting ls") auto
  with ls ok show thesis
    by (intro that [of n "m(lid \<mapsto> ls\<lparr>sc_waiting := rest, sc_retrying := n, sc_owner := [],
          sc_state := SC_RETRYING\<rparr>)"]) (auto simp: sc_release_def)
qed

end
