(* ===== verification/Lock_Client_Cache.thy ===== *)
theory Lock_Client_Cache
  imports Lock_Protocol
begin

text \<open>
  The caching lock client of \<open>lock_client_cache.cc\<close>. Each method runs under the client's
  mutex and gives it up only while it makes an RPC or sleeps in \<open>pthread_cond_wait\<close>, so a
  method is a sequence of atomic segments on the state of one lock. A segment ends with a
  \<open>suspension\<close>: the method has returned, is making a call to the server, or sleeps at one of
  the three \<open>pthread_cond_wait\<close> calls. A thread that asks for a lock is named by its
  condition variable, which \<open>acquire\<close> creates.
\<close>

unbundle bit_operations_syntax

section \<open>State\<close>

datatype cc_message = EMPTY | RETRY | REVOKE
datatype cc_status = CC_NONE | ACQUIRING | FREE | RELEASING | CC_LOCKED

type_synonym thread = nat

record cc_lock =
  cc_state :: cc_status
  cc_message :: cc_message
  cc_threads :: "thread list"

type_synonym lock_client_cache = "lockid_t \<rightharpoonup> cc_lock"

definition cc_lock_new :: cc_lock where
  "cc_lock_new = \<lparr>cc_state = CC_NONE, cc_message = EMPTY, cc_threads = []\<rparr>"

text \<open>
  The three places a thread sleeps at: after it joined an empty queue while the lock is
  being released, after it joined a queue that is not empty, and between two acquire calls.
\<close>

datatype wait_point = At_first | At_queue | At_retry

datatype suspension = Returned lock_status | Call_acquire | Call_release | Sleep wait_point

type_synonym 'r segment = "('r \<times> cc_lock) res"

section \<open>Acquiring\<close>

text \<open>The test \<open>while (ls->state == ACQUIRING)\<close> of \<open>wait\<close>, with the \<open>exit\<close> behind the loop.\<close>

definition cc_wait_test :: "cc_lock \<Rightarrow> suspension segment" where
  "cc_wait_test ls = (if cc_state ls = ACQUIRING then Inr (Call_acquire, ls) else Inl Exit)"

definition cc_wait :: "cc_lock \<Rightarrow> suspension segment" where
  "cc_wait ls = cc_wait_test (ls\<lparr>cc_state := ACQUIRING\<rparr>)"

text \<open>What \<open>wait\<close> does when the acquire call has returned \<open>ret\<close>.\<close>

definition cc_wait_reply :: "lock_status \<Rightarrow> cc_lock \<Rightarrow> suspension segment" where
  "cc_wait_reply ret ls =
     (if ret = L_OK then Inr (Returned L_OK, ls\<lparr>cc_state := CC_LOCKED\<rparr>)
      else if cc_message ls = EMPTY then Inr (Sleep At_retry, ls)
      else cc_wait_test (ls\<lparr>cc_message := EMPTY\<rparr>))"

text \<open>\<open>acquire\<close> up to its first suspension.\<close>

definition cc_acquire_lock :: "thread \<Rightarrow> cc_lock \<Rightarrow> suspension segment" where
  "cc_acquire_lock t ls =
     (if cc_threads ls = []
      then let s = cc_state ls; ls = ls\<lparr>cc_threads := cc_threads ls @ [t]\<rparr>
           in if s = FREE then Inr (Returned L_OK, ls\<lparr>cc_state := CC_LOCKED\<rparr>)
              else if s = CC_NONE then cc_wait ls
              else Inr (Sleep At_first, ls)
      else Inr (Sleep At_queue, ls\<lparr>cc_threads := cc_threads ls @ [t]\<rparr>))"

text \<open>What a thread does when it wakes up.\<close>

fun cc_resume :: "wait_point \<Rightarrow> cc_lock \<Rightarrow> suspension segment" where
  "cc_resume At_first ls = cc_wait ls"
| "cc_resume At_queue ls =
     (case cc_state ls of
        FREE \<Rightarrow> Inr (Returned L_OK, ls\<lparr>cc_state := CC_LOCKED\<rparr>)
      | CC_LOCKED \<Rightarrow> Inr (Returned L_OK, ls)
      | CC_NONE \<Rightarrow> cc_wait ls
      | _ \<Rightarrow> Inl Exit)"
| "cc_resume At_retry ls = cc_wait_test (ls\<lparr>cc_message := EMPTY\<rparr>)"

section \<open>Releasing\<close>

text \<open>The end of \<open>release\<close>: the result is the thread that is signalled, if any.\<close>

definition cc_leave :: "bool \<Rightarrow> cc_lock \<Rightarrow> thread option segment" where
  "cc_leave revoking ls =
     (case cc_threads ls of
        [] \<Rightarrow> Inl Out_of_bounds
      | _ # rest \<Rightarrow>
          let ls = ls\<lparr>cc_threads := rest\<rparr>
          in case rest of
               [] \<Rightarrow> Inr (None, ls)
             | t # _ \<Rightarrow> Inr (Some t, if revoking then ls else ls\<lparr>cc_state := CC_LOCKED\<rparr>))"

text \<open>\<open>release\<close> up to its call to the server, or to its end when it makes none.\<close>

definition cc_release_lock :: "cc_lock \<Rightarrow> (suspension \<times> thread option) segment" where
  "cc_release_lock ls =
     (if cc_message ls = REVOKE
      then Inr ((Call_release, None), ls\<lparr>cc_state := RELEASING\<rparr>)
      else and_then (cc_leave False (ls\<lparr>cc_state := FREE\<rparr>))
             (\<lambda>(sig, ls'). Inr ((Returned L_OK, sig), ls')))"

definition cc_release_reply :: "cc_lock \<Rightarrow> thread option segment" where
  "cc_release_reply ls = cc_leave True (ls\<lparr>cc_message := EMPTY, cc_state := CC_NONE\<rparr>)"

section \<open>The handlers of the server's calls\<close>

definition cc_revoke_lock :: "cc_lock \<Rightarrow> suspension segment" where
  "cc_revoke_lock ls =
     (if cc_state ls = FREE then Inr (Call_release, ls\<lparr>cc_state := RELEASING\<rparr>)
      else Inr (Returned L_OK, ls\<lparr>cc_message := REVOKE\<rparr>))"

definition cc_revoke_reply :: "cc_lock \<Rightarrow> thread option segment" where
  "cc_revoke_reply ls =
     (let ls = ls\<lparr>cc_state := CC_NONE\<rparr>
      in case cc_threads ls of [] \<Rightarrow> Inr (None, ls) | t # _ \<Rightarrow> Inr (Some t, ls))"

definition cc_retry_lock :: "cc_lock \<Rightarrow> thread option segment" where
  "cc_retry_lock ls =
     (let ls = ls\<lparr>cc_message := RETRY\<rparr>
      in case cc_threads ls of [] \<Rightarrow> Inl Out_of_bounds | t # _ \<Rightarrow> Inr (Some t, ls))"

section \<open>The methods on the client's lock map\<close>

text \<open>
  \<open>acquire\<close> creates a missing entry; every other method dereferences \<open>lock_map[lid]\<close>, which
  is a null pointer for a missing one.
\<close>

definition at_lock :: "(cc_lock \<Rightarrow> 'r segment) \<Rightarrow> lockid_t \<Rightarrow> lock_client_cache \<Rightarrow>
    ('r \<times> lock_client_cache) res" where
  "at_lock f lid lock_map =
     (case lock_map lid of
        None \<Rightarrow> Inl Null_deref
      | Some ls \<Rightarrow> and_then (f ls) (\<lambda>(r, ls'). Inr (r, lock_map(lid \<mapsto> ls'))))"

definition cc_acquire ::
    "lockid_t \<Rightarrow> thread \<Rightarrow> lock_client_cache \<Rightarrow> (suspension \<times> lock_client_cache) res" where
  "cc_acquire lid t lock_map =
     at_lock (cc_acquire_lock t) lid
       (if lock_map lid = None then lock_map(lid \<mapsto> cc_lock_new) else lock_map)"

definition cc_release ::
    "lockid_t \<Rightarrow> lock_client_cache \<Rightarrow> ((suspension \<times> thread option) \<times> lock_client_cache) res" where
  "cc_release = at_lock cc_release_lock"

definition cc_revoke_handler ::
    "lockid_t \<Rightarrow> lock_client_cache \<Rightarrow> (suspension \<times> lock_client_cache) res" where
  "cc_revoke_handler = at_lock cc_revoke_lock"

definition cc_retry_handler ::
    "lockid_t \<Rightarrow> lock_client_cache \<Rightarrow> (thread option \<times> lock_client_cache) res" where
  "cc_retry_handler = at_lock cc_retry_lock"

text \<open>The port a client listens on, from the value of \<open>rand()\<close>.\<close>

definition rlock_port :: "nat \<Rightarrow> nat" where
  "rlock_port r = (r mod 32000) OR push_bit 10 1"

lemmas cc_defs = cc_wait_test_def cc_wait_def cc_wait_reply_def cc_acquire_lock_def cc_leave_def
  cc_release_lock_def cc_release_reply_def cc_revoke_lock_def cc_revoke_reply_def cc_retry_lock_def
  Let_def

lemmas cc_methods = cc_acquire_def cc_release_def cc_revoke_handler_def cc_retry_handler_def

lemma at_lock_Inr [res_simps]:
  "at_lock f lid m = Inr (r, m') \<longleftrightarrow>
     (\<exists>ls ls'. m lid = Some ls \<and> f ls = Inr (r, ls') \<and> m' = m(lid \<mapsto> ls'))"
  by (auto simp: at_lock_def res_simps split: option.splits)

end
