(* ===== verification/Lock_System.thy ===== *)
theory Lock_System
  imports Lock_Server_Cache Lock_Client_Cache "HOL-Library.Multiset"
begin

text \<open>
  The caching lock service as a whole: one lock server, any number of clients, any number
  of threads in each, and the RPCs between them as events in transit. A step executes one
  atomic segment of the server or of a client. An RPC is delivered once and may be delayed
  for any time; a reply may overtake the call the server makes before it, which only adds
  behaviours. A sleeping thread wakes only after it has been signalled, and \<open>call\<close> succeeds.
\<close>

section \<open>The system\<close>

datatype pc = Idle | Calling | Sleeping wait_point | Holding | Leaving

text \<open>
  Requests carry the thread that waits for the reply; a release sent by \<open>revoke_handler\<close>
  carries \<open>None\<close>.
\<close>

datatype event =
  Acq_req thread | Acq_rep thread lock_status | Rel_req "thread option" | Rel_rep "thread option"
| Revoke_ev | Retry_ev

record lk_sys =
  srv :: lock_server_cache
  cl :: "client \<Rightarrow> lock_client_cache"
  pcs :: "client \<Rightarrow> lockid_t \<Rightarrow> thread \<Rightarrow> pc"
  sigs :: "client \<Rightarrow> lockid_t \<Rightarrow> thread set"
  net :: "client \<Rightarrow> lockid_t \<Rightarrow> event multiset"

definition lk_start :: lk_sys where
  "lk_start = \<lparr>srv = Map.empty, cl = (\<lambda>_. Map.empty), pcs = (\<lambda>_ _ _. Idle),
     sigs = (\<lambda>_ _. {}), net = (\<lambda>_ _. {#})\<rparr>"

text \<open>Updates of what belongs to client \<open>c\<close> and lock \<open>lid\<close>.\<close>

definition upd2 :: "'a \<Rightarrow> 'b \<Rightarrow> ('c \<Rightarrow> 'c) \<Rightarrow> ('a \<Rightarrow> 'b \<Rightarrow> 'c) \<Rightarrow> 'a \<Rightarrow> 'b \<Rightarrow> 'c" where
  "upd2 c l g f = f(c := (f c)(l := g (f c l)))"

fun pc_of :: "suspension \<Rightarrow> pc" where
  "pc_of (Returned _) = Holding"
| "pc_of Call_acquire = Calling"
| "pc_of Call_release = Leaving"
| "pc_of (Sleep p) = Sleeping p"

definition asks :: "thread \<Rightarrow> suspension \<Rightarrow> event multiset" where
  "asks t s = (if s = Call_acquire then {#Acq_req t#} else {#})"

definition gives :: "thread option \<Rightarrow> suspension \<Rightarrow> event multiset" where
  "gives w s = (if s = Call_release then {#Rel_req w#} else {#})"

text \<open>\<open>pthread_cond_signal\<close>: a thread that does not sleep misses the signal.\<close>

definition signal :: "thread option \<Rightarrow> (thread \<Rightarrow> pc) \<Rightarrow> thread set \<Rightarrow> thread set" where
  "signal sig P G =
     (case sig of Some u \<Rightarrow> if \<exists>p. P u = Sleeping p then insert u G else G | None \<Rightarrow> G)"

fun call_event :: "rlock_rpc \<Rightarrow> event" where
  "call_event RPC_revoke = Revoke_ev"
| "call_event RPC_retry = Retry_ev"

definition make_call :: "lockid_t \<Rightarrow> rcall \<Rightarrow> (client \<Rightarrow> lockid_t \<Rightarrow> event multiset) \<Rightarrow>
    client \<Rightarrow> lockid_t \<Rightarrow> event multiset" where
  "make_call lid call n =
     (case call of None \<Rightarrow> n | Some (d, k) \<Rightarrow> upd2 d lid (add_mset (call_event k)) n)"

text \<open>One local step of client \<open>c\<close>: its lock map, the program counter of thread \<open>t\<close>, the
  signals and the events.\<close>

definition local_step :: "client \<Rightarrow> lockid_t \<Rightarrow> lock_client_cache \<Rightarrow> ((thread \<Rightarrow> pc) \<Rightarrow> thread \<Rightarrow> pc) \<Rightarrow>
    (thread set \<Rightarrow> thread set) \<Rightarrow> (event multiset \<Rightarrow> event multiset) \<Rightarrow> lk_sys \<Rightarrow> lk_sys" where
  "local_step c lid m p g n y =
     y\<lparr>cl := (cl y)(c := m), pcs := upd2 c lid p (pcs y), sigs := upd2 c lid g (sigs y),
       net := upd2 c lid n (net y)\<rparr>"

text \<open>
  Steps are new requests of a thread, a holder giving the lock back, and all the rest.
\<close>

datatype lk_act = New | Give_back | Internal

inductive lk_step :: "lk_sys \<Rightarrow> lk_act \<Rightarrow> lk_sys \<Rightarrow> bool" where
  acquire: "pcs y c lid t = Idle \<Longrightarrow> cc_acquire lid t (cl y c) = Inr (s, m) \<Longrightarrow>
    lk_step y New (local_step c lid m (\<lambda>P. P(t := pc_of s)) id (\<lambda>N. N + asks t s) y)"
| resume: "t \<in> sigs y c lid \<Longrightarrow> pcs y c lid t = Sleeping p \<Longrightarrow>
    at_lock (cc_resume p) lid (cl y c) = Inr (s, m) \<Longrightarrow>
    lk_step y Internal (local_step c lid m (\<lambda>P. P(t := pc_of s)) (\<lambda>G. G - {t}) (\<lambda>N. N + asks t s) y)"
| reply: "Acq_rep t st \<in># net y c lid \<Longrightarrow> at_lock (cc_wait_reply st) lid (cl y c) = Inr (s, m) \<Longrightarrow>
    lk_step y Internal (local_step c lid m (\<lambda>P. P(t := pc_of s)) id
      (\<lambda>N. N - {#Acq_rep t st#} + asks t s) y)"
| release: "pcs y c lid t = Holding \<Longrightarrow> cc_release lid (cl y c) = Inr ((s, sig), m) \<Longrightarrow>
    lk_step y Give_back (local_step c lid m (\<lambda>P. P(t := if s = Call_release then Leaving else Idle))
      (signal sig (pcs y c lid)) (\<lambda>N. N + gives (Some t) s) y)"
| release_reply: "Rel_rep (Some t) \<in># net y c lid \<Longrightarrow>
    at_lock cc_release_reply lid (cl y c) = Inr (sig, m) \<Longrightarrow>
    lk_step y Internal (local_step c lid m (\<lambda>P. P(t := Idle)) (signal sig (pcs y c lid))
      (\<lambda>N. N - {#Rel_rep (Some t)#}) y)"
| revoke: "Revoke_ev \<in># net y c lid \<Longrightarrow> cc_revoke_handler lid (cl y c) = Inr (s, m) \<Longrightarrow>
    lk_step y Internal (local_step c lid m id id (\<lambda>N. N - {#Revoke_ev#} + gives None s) y)"
| revoke_reply: "Rel_rep None \<in># net y c lid \<Longrightarrow>
    at_lock cc_revoke_reply lid (cl y c) = Inr (sig, m) \<Longrightarrow>
    lk_step y Internal (local_step c lid m id (signal sig (pcs y c lid)) (\<lambda>N. N - {#Rel_rep None#}) y)"
| retry: "Retry_ev \<in># net y c lid \<Longrightarrow> cc_retry_handler lid (cl y c) = Inr (sig, m) \<Longrightarrow>
    lk_step y Internal (local_step c lid m id (signal sig (pcs y c lid)) (\<lambda>N. N - {#Retry_ev#}) y)"
| srv_acquire: "Acq_req t \<in># net y c lid \<Longrightarrow> sc_acquire lid c (srv y) = Inr ((call, st), m) \<Longrightarrow>
    lk_step y Internal (y\<lparr>srv := m, net := make_call lid call
      (upd2 c lid (\<lambda>N. N - {#Acq_req t#} + {#Acq_rep t st#}) (net y))\<rparr>)"
| srv_release: "Rel_req w \<in># net y c lid \<Longrightarrow> sc_release lid c (srv y) = Inr ((call, st), m) \<Longrightarrow>
    lk_step y Internal (y\<lparr>srv := m, net := make_call lid call
      (upd2 c lid (\<lambda>N. N - {#Rel_req w#} + {#Rel_rep w#}) (net y))\<rparr>)"

inductive lk_reachable :: "lk_sys \<Rightarrow> bool" where
  start: "lk_reachable lk_start"
| step: "lk_reachable y \<Longrightarrow> lk_step y a z \<Longrightarrow> lk_reachable z"

section \<open>The configurations of a client\<close>

text \<open>The owner of a lock: revocation not asked for, asked for, or noted.\<close>

inductive owned :: "bool \<Rightarrow> cc_message \<Rightarrow> event multiset \<Rightarrow> bool" where
  "owned False EMPTY {#}"
| "owned True EMPTY {#Revoke_ev#}"
| "owned True REVOKE {#}"

text \<open>A client that was told to wait: still waiting, its turn announced, announcement noted.\<close>

inductive parked :: "standing \<Rightarrow> cc_message \<Rightarrow> event multiset \<Rightarrow> bool" where
  "parked R_wait EMPTY {#}"
| "parked R_ret EMPTY {#Retry_ev#}"
| "parked R_ret RETRY {#}"

text \<open>
  \<open>config r st msg front N\<close>: what the server knows of the client, the state and message of
  the lock, the first thread of the queue with its program counter and whether it has been
  signalled, and the events in transit.
\<close>

inductive config :: "standing \<Rightarrow> cc_status \<Rightarrow> cc_message \<Rightarrow> (thread \<times> pc \<times> bool) option \<Rightarrow>
    event multiset \<Rightarrow> bool" where
  k_none: "config R_none CC_NONE EMPTY None {#}"
| k_free: "owned b EMPTY N \<Longrightarrow> config (R_own b) FREE EMPTY None N"
| k_giving: "f = None \<or> f = Some (t, Sleeping At_first, False) \<Longrightarrow>
    config (R_own True) RELEASING EMPTY f {#Rel_req None#}"
| k_given: "f = None \<or> f = Some (t, Sleeping At_first, False) \<Longrightarrow>
    config R_none RELEASING EMPTY f {#Rel_rep None#}"
| k_again: "p = At_first \<or> p = At_queue \<Longrightarrow>
    config R_none CC_NONE EMPTY (Some (t, Sleeping p, True)) {#}"
| k_asking: "r = R_none \<or> r = R_ret \<Longrightarrow>
    config r ACQUIRING EMPTY (Some (t, Calling, False)) {#Acq_req t#}"
| k_granted: "owned b msg N \<Longrightarrow>
    config (R_own b) ACQUIRING msg (Some (t, Calling, False)) (add_mset (Acq_rep t L_OK) N)"
| k_denied: "parked r msg N \<Longrightarrow>
    config r ACQUIRING msg (Some (t, Calling, False)) (add_mset (Acq_rep t L_RETRY) N)"
| k_parked: "parked r msg N \<Longrightarrow> g = (msg = RETRY) \<Longrightarrow>
    config r ACQUIRING msg (Some (t, Sleeping At_retry, g)) N"
| k_held: "owned b msg N \<Longrightarrow> config (R_own b) CC_LOCKED msg (Some (t, Holding, False)) N"
| k_handed: "owned b msg N \<Longrightarrow>
    config (R_own b) CC_LOCKED msg (Some (t, Sleeping At_queue, True)) N"
| k_leaving: "config (R_own True) RELEASING REVOKE (Some (t, Leaving, False)) {#Rel_req (Some t)#}"
| k_left: "config R_none RELEASING REVOKE (Some (t, Leaving, False)) {#Rel_rep (Some t)#}"

definition front_of :: "cc_lock \<Rightarrow> (thread \<Rightarrow> pc) \<Rightarrow> thread set \<Rightarrow> (thread \<times> pc \<times> bool) option" where
  "front_of ls P G =
     (case cc_threads ls of [] \<Rightarrow> None | t # _ \<Rightarrow> Some (t, P t, t \<in> G))"

definition queue_ok :: "thread list \<Rightarrow> (thread \<Rightarrow> pc) \<Rightarrow> thread set \<Rightarrow> bool" where
  "queue_ok T P G \<longleftrightarrow>
     distinct T \<and> (\<forall>u. (P u = Idle) = (u \<notin> set T)) \<and>
     (\<forall>u \<in> set (tl T). P u = Sleeping At_queue \<and> u \<notin> G) \<and> G \<subseteq> set T"

definition client_ok :: "standing \<Rightarrow> cc_lock option \<Rightarrow> (thread \<Rightarrow> pc) \<Rightarrow> thread set \<Rightarrow>
    event multiset \<Rightarrow> bool" where
  "client_ok r L P G N =
     (case L of
        None \<Rightarrow> r = R_none \<and> (\<forall>t. P t = Idle) \<and> G = {} \<and> N = {#}
      | Some ls \<Rightarrow> queue_ok (cc_threads ls) P G \<and>
          config r (cc_state ls) (cc_message ls) (front_of ls P G) N)"

definition lk_ok :: "lk_sys \<Rightarrow> lockid_t \<Rightarrow> bool" where
  "lk_ok y lid \<longleftrightarrow> sc_ok (srv y lid) \<and>
     (\<forall>c. client_ok (standing_of (srv y lid) c) (cl y c lid) (pcs y c lid) (sigs y c lid) (net y c lid))"

inductive_cases ownedE: "owned b msg N"
inductive_cases parkedE: "parked r msg N"
inductive_cases configE: "config r st msg f N"

lemma config_revoke:
  "config (R_own False) st msg f N \<Longrightarrow> config (R_own True) st msg f (add_mset Revoke_ev N)"
  by (erule configE) (auto elim!: ownedE parkedE intro: config.intros owned.intros
      simp: add_mset_commute [of Revoke_ev])

lemma config_retry:
  "config R_wait st msg f N \<Longrightarrow> config R_ret st msg f (add_mset Retry_ev N)"
  by (erule configE) (auto elim!: ownedE parkedE intro: config.intros parked.intros
      simp: add_mset_commute [of Retry_ev])

lemma client_ok_revoke:
  "client_ok (R_own False) L P G N \<Longrightarrow> client_ok (R_own True) L P G (add_mset Revoke_ev N)"
  by (auto simp: client_ok_def config_revoke split: option.splits)

lemma client_ok_retry:
  "client_ok R_wait L P G N \<Longrightarrow> client_ok R_ret L P G (add_mset Retry_ev N)"
  by (auto simp: client_ok_def config_retry split: option.splits)

section \<open>Local steps keep a client in order\<close>

lemma front_of_cong: "cc_threads ls = cc_threads ls' \<Longrightarrow> front_of ls P G = front_of ls' P G"
  by (simp add: front_of_def)

lemma front_Nil [simp]: "front_of ls P G = None \<longleftrightarrow> cc_threads ls = []"
  by (simp add: front_of_def split: list.splits)

lemma front_Some [simp]:
  "front_of ls P G = Some (t, p, g) \<longleftrightarrow> (\<exists>rest. cc_threads ls = t # rest) \<and> P t = p \<and> (t \<in> G) = g"
  by (auto simp: front_of_def split: list.splits)

lemma queue_push:
  "queue_ok T P G \<Longrightarrow> P t = Idle \<Longrightarrow> T \<noteq> [] \<Longrightarrow> queue_ok (T @ [t]) (P(t := Sleeping At_queue)) G"
  by (cases T) (auto simp: queue_ok_def)

lemma queue_first: "queue_ok [] P G \<Longrightarrow> P t = Idle \<Longrightarrow> p \<noteq> Idle \<Longrightarrow> queue_ok [t] (P(t := p)) G"
  by (auto simp: queue_ok_def)

lemma queue_front:
  "queue_ok (t # T) P G \<Longrightarrow> p \<noteq> Idle \<Longrightarrow> queue_ok (t # T) (P(t := p)) (G - {t})"
  by (auto simp: queue_ok_def)

lemma queue_front_keep: "queue_ok (t # T) P G \<Longrightarrow> p \<noteq> Idle \<Longrightarrow> queue_ok (t # T) (P(t := p)) G"
  by (auto simp: queue_ok_def)

lemma queue_pop_signal:
  "queue_ok (t # u # T) P G \<Longrightarrow> t \<notin> G \<Longrightarrow> queue_ok (u # T) (P(t := Idle)) (insert u G)"
  by (auto simp: queue_ok_def)

lemma queue_pop_last: "queue_ok [t] P G \<Longrightarrow> t \<notin> G \<Longrightarrow> queue_ok [] (P(t := Idle)) G"
  by (auto simp: queue_ok_def)

lemma queue_signal: "queue_ok (t # T) P G \<Longrightarrow> queue_ok (t # T) P (insert t G)"
  by (auto simp: queue_ok_def)

lemmas queue_intros = queue_push queue_first queue_front queue_front_keep queue_pop_signal
  queue_pop_last queue_signal

lemma acquire_ok:
  assumes "client_ok r (M lid) P G N" "P t = Idle"
  shows "\<exists>s m. cc_acquire lid t M = Inr (s, m) \<and>
    client_ok r (m lid) (P(t := pc_of s)) G (N + asks t s)"
proof (cases "M lid")
  case None
  with assms show ?thesis
    by (auto simp: client_ok_def cc_acquire_def at_lock_def cc_defs cc_lock_new_def asks_def
        queue_ok_def front_of_def intro!: config.intros)
next
  case (Some ls)
  with assms(1) have q: "queue_ok (cc_threads ls) P G"
    and k: "config r (cc_state ls) (cc_message ls) (front_of ls P G) N" by (simp_all add: client_ok_def)
  show ?thesis
  proof (cases "cc_threads ls")
    case Nil
    then have "t \<notin> G" using q by (auto simp: queue_ok_def)
    moreover have "front_of ls P G = None" using Nil by simp
    ultimately show ?thesis
      using k Nil Some q assms(2)
      by (elim configE)
        (auto simp: client_ok_def cc_acquire_def at_lock_def cc_defs asks_def front_of_def
          intro!: queue_first intro: config.intros elim: ownedE)
  next
    case (Cons u us)
    then have "front_of (ls\<lparr>cc_threads := cc_threads ls @ [t]\<rparr>) (P(t := Sleeping At_queue)) G = front_of ls P G"
      using q assms(2) by (auto simp: front_of_def queue_ok_def)
    with Cons Some k q assms(2) show ?thesis
      using queue_push [OF q assms(2)]
      by (simp add: client_ok_def cc_acquire_def at_lock_def cc_defs asks_def)
  qed
qed


lemmas local_defs = client_ok_def at_lock_def cc_methods cc_defs asks_def gives_def front_of_def signal_def

lemma resume_ok:
  assumes "client_ok r (M lid) P G N" "t \<in> G" "P t = Sleeping p"
  shows "\<exists>s m. at_lock (cc_resume p) lid M = Inr (s, m) \<and>
    client_ok r (m lid) (P(t := pc_of s)) (G - {t}) (N + asks t s)"
proof (cases "M lid")
  case None
  with assms show ?thesis by (simp add: client_ok_def)
next
  case (Some ls)
  with assms(1) have q: "queue_ok (cc_threads ls) P G"
    and k: "config r (cc_state ls) (cc_message ls) (front_of ls P G) N" by (simp_all add: client_ok_def)
  from q assms(2) obtain us where T: "cc_threads ls = t # us"
    by (cases "cc_threads ls") (auto simp: queue_ok_def)
  then have "front_of ls P G = Some (t, Sleeping p, True)" using assms by simp
  with k have "config r (cc_state ls) (cc_message ls) (Some (t, Sleeping p, True)) N" by simp
  then show ?thesis
    using T Some q assms
    by (elim configE)
      (auto simp: local_defs intro!: queue_front intro: config.intros elim: parkedE)
qed

lemma reply_ok:
  assumes "client_ok r (M lid) P G N" "Acq_rep t st \<in># N"
  shows "\<exists>s m. at_lock (cc_wait_reply st) lid M = Inr (s, m) \<and>
    client_ok r (m lid) (P(t := pc_of s)) G (N - {#Acq_rep t st#} + asks t s)"
proof (cases "M lid")
  case None
  with assms show ?thesis by (simp add: client_ok_def)
next
  case (Some ls)
  with assms(1) have q: "queue_ok (cc_threads ls) P G"
    and k: "config r (cc_state ls) (cc_message ls) (front_of ls P G) N" by (simp_all add: client_ok_def)
  show ?thesis
    using k Some q assms(2)
    by (elim configE)
      (auto simp: local_defs split: list.splits elim!: ownedE parkedE
        intro!: queue_front_keep config.intros intro: owned.intros parked.intros)
qed


lemma client_okE:
  assumes "client_ok r (M lid) P G N" "N \<noteq> {#} \<or> (\<exists>t. P t \<noteq> Idle)"
  obtains ls where "M lid = Some ls" "queue_ok (cc_threads ls) P G"
    "config r (cc_state ls) (cc_message ls) (front_of ls P G) N"
  using assms by (cases "M lid") (auto simp: client_ok_def)

lemma release_ok:
  assumes "client_ok r (M lid) P G N" "P t = Holding"
  shows "\<exists>s sig m. cc_release lid M = Inr ((s, sig), m) \<and>
    client_ok r (m lid) (P(t := if s = Call_release then Leaving else Idle)) (signal sig P G)
      (N + gives (Some t) s)"
proof -
  from assms obtain ls where ls: "M lid = Some ls" "queue_ok (cc_threads ls) P G"
    "config r (cc_state ls) (cc_message ls) (front_of ls P G) N"
    by (metis client_okE pc.distinct(5))
  have "t \<in> set (cc_threads ls)" "t \<notin> set (tl (cc_threads ls))"
    using ls(2) assms(2) unfolding queue_ok_def by (metis pc.distinct(5), auto)
  then obtain us where T: "cc_threads ls = t # us" by (cases "cc_threads ls") auto
  have f: "front_of ls P G = Some (t, Holding, t \<in> G)" using T assms(2) by simp
  with ls(3) have "t \<notin> G" by (auto elim: configE)
  show ?thesis
  proof (cases us)
    case Nil
    then show ?thesis
      using T f ls \<open>t \<notin> G\<close> assms(2)
      by (elim configE)
        (auto simp: local_defs elim!: ownedE
          intro!: queue_front_keep queue_pop_last config.intros intro: owned.intros)
  next
    case (Cons u vs)
    then have "P u = Sleeping At_queue" "u \<noteq> t" using ls(2) T by (auto simp: queue_ok_def)
    with Cons show ?thesis
      using T f ls \<open>t \<notin> G\<close> assms(2)
      by (elim configE)
        (auto simp: local_defs elim!: ownedE
          intro!: queue_front_keep queue_pop_signal config.intros intro: owned.intros)
  qed
qed

lemma release_reply_ok:
  assumes "client_ok r (M lid) P G N" "Rel_rep (Some t) \<in># N"
  shows "\<exists>sig m. at_lock cc_release_reply lid M = Inr (sig, m) \<and>
    client_ok r (m lid) (P(t := Idle)) (signal sig P G) (N - {#Rel_rep (Some t)#})"
proof -
  from assms obtain ls where ls: "M lid = Some ls" "queue_ok (cc_threads ls) P G"
    "config r (cc_state ls) (cc_message ls) (front_of ls P G) N"
    by (metis client_okE empty_iff set_mset_empty)
  from ls(3) assms(2) have k: "r = R_none" "N = {#Rel_rep (Some t)#}" "P t = Leaving" "t \<notin> G"
    and "\<exists>us. cc_threads ls = t # us"
    by (auto elim!: configE ownedE parkedE)
  then obtain us where T: "cc_threads ls = t # us" by blast
  show ?thesis
  proof (cases us)
    case Nil
    with k T ls queue_pop_last [of t P G] show ?thesis by (auto simp: local_defs intro!: config.intros)
  next
    case (Cons u vs)
    then have "P u = Sleeping At_queue" "u \<noteq> t" using ls(2) T by (auto simp: queue_ok_def)
    with Cons k T ls queue_pop_signal [of t u vs P G] show ?thesis
      by (auto simp: local_defs intro!: config.intros)
  qed
qed

lemma revoke_ok:
  assumes "client_ok r (M lid) P G N" "Revoke_ev \<in># N"
  shows "\<exists>s m. cc_revoke_handler lid M = Inr (s, m) \<and>
    client_ok r (m lid) P G (N - {#Revoke_ev#} + gives None s)"
proof -
  from assms obtain ls where ls: "M lid = Some ls" "queue_ok (cc_threads ls) P G"
    "config r (cc_state ls) (cc_message ls) (front_of ls P G) N"
    by (metis client_okE empty_iff set_mset_empty)
  show ?thesis
    using ls(3,1,2) assms(2)
    by (elim configE)
      (auto simp: local_defs split: list.splits elim!: ownedE parkedE
        intro!: config.intros intro: owned.intros)
qed

lemma revoke_reply_ok:
  assumes "client_ok r (M lid) P G N" "Rel_rep None \<in># N"
  shows "\<exists>sig m. at_lock cc_revoke_reply lid M = Inr (sig, m) \<and>
    client_ok r (m lid) P (signal sig P G) (N - {#Rel_rep None#})"
proof -
  from assms obtain ls where ls: "M lid = Some ls" "queue_ok (cc_threads ls) P G"
    "config r (cc_state ls) (cc_message ls) (front_of ls P G) N"
    by (metis client_okE empty_iff set_mset_empty)
  show ?thesis
    using ls(3,1,2) assms(2)
    by (elim configE)
      (auto simp: local_defs split: list.splits elim!: ownedE parkedE intro!: config.intros queue_signal)
qed

lemma retry_ok:
  assumes "client_ok r (M lid) P G N" "Retry_ev \<in># N"
  shows "\<exists>sig m. cc_retry_handler lid M = Inr (sig, m) \<and>
    client_ok r (m lid) P (signal sig P G) (N - {#Retry_ev#})"
proof -
  from assms obtain ls where ls: "M lid = Some ls" "queue_ok (cc_threads ls) P G"
    "config r (cc_state ls) (cc_message ls) (front_of ls P G) N"
    by (metis client_okE empty_iff set_mset_empty)
  show ?thesis
    using ls(3,1,2) assms(2)
    by (elim configE)
      (auto simp: local_defs split: list.splits elim!: ownedE parkedE
        intro!: config.intros queue_signal intro: parked.intros)
qed

section \<open>The invariant\<close>

text \<open>A local step of client \<open>c\<close> on \<open>lid\<close> that keeps this client in order keeps all.\<close>

lemma upd2_simps [simp]:
  "upd2 c l g f c l = g (f c l)" "d \<noteq> c \<or> k \<noteq> l \<Longrightarrow> upd2 c l g f d k = f d k"
  by (auto simp: upd2_def)

lemma local_step_ok:
  assumes ok: "\<And>l. lk_ok y l" and m: "\<And>l. l \<noteq> lid \<Longrightarrow> m l = cl y c l"
    and here: "client_ok (standing_of (srv y lid) c) (m lid) (p (pcs y c lid)) (g (sigs y c lid))
      (n (net y c lid))"
  shows "lk_ok (local_step c lid m p g n y) l"
proof -
  have "client_ok (standing_of (srv y l) d) (((cl y)(c := m)) d l) (upd2 c lid p (pcs y) d l)
      (upd2 c lid g (sigs y) d l) (upd2 c lid n (net y) d l)" for d
    using ok [of l] m [of l] here by (cases "d = c"; cases "l = lid") (auto simp: lk_ok_def)
  then show ?thesis using ok [of l] by (simp add: lk_ok_def local_step_def)
qed

lemma at_lock_other: "at_lock f lid M = Inr (r, m) \<Longrightarrow> l \<noteq> lid \<Longrightarrow> m l = M l"
  by (auto simp: res_simps)

lemma cc_acquire_other: "cc_acquire lid t M = Inr (r, m) \<Longrightarrow> l \<noteq> lid \<Longrightarrow> m l = M l"
  unfolding cc_acquire_def by (drule at_lock_other) (auto split: if_splits)

lemma lk_okD:
  "lk_ok y lid \<Longrightarrow> sc_ok (srv y lid)"
  "lk_ok y lid \<Longrightarrow>
     client_ok (standing_of (srv y lid) c) (cl y c lid) (pcs y c lid) (sigs y c lid) (net y c lid)"
  by (simp_all add: lk_ok_def)

text \<open>A request in transit tells what the server knows of its sender.\<close>

lemma config_asked:
  assumes "config r st msg f N" "Acq_req t \<in># N"
  shows "r \<in> {R_none, R_ret} \<and> st = ACQUIRING \<and> msg = EMPTY \<and> f = Some (t, Calling, False) \<and>
    N = {#Acq_req t#}"
  using assms by (auto elim!: configE ownedE parkedE)

lemma config_leaving:
  assumes "config r st msg f N" "Rel_req w \<in># N"
  shows "r = R_own True \<and> N = {#Rel_req w#} \<and> config R_none st msg f {#Rel_rep w#}"
  using assms by (auto elim!: configE ownedE parkedE intro: config.intros)

lemma request_standing:
  assumes "client_ok r L P G N"
  shows "Acq_req t \<in># N \<Longrightarrow> r \<in> {R_none, R_ret}" "Rel_req w \<in># N \<Longrightarrow> r = R_own True"
  using assms config_asked config_leaving by (fastforce simp: client_ok_def split: option.splits)+

text \<open>The sender's configuration once the server has answered.\<close>

lemma config_answered:
  "config (R_own False) ACQUIRING EMPTY (Some (t, Calling, False)) {#Acq_rep t L_OK#}"
  "config (R_own True) ACQUIRING EMPTY (Some (t, Calling, False)) {#Revoke_ev, Acq_rep t L_OK#}"
  "config R_wait ACQUIRING EMPTY (Some (t, Calling, False)) {#Acq_rep t L_RETRY#}"
  using k_granted [OF owned.intros(1), of t] k_granted [OF owned.intros(2), of t]
    k_denied [OF parked.intros(1), of t] by (simp_all add: add_mset_commute)

lemma answered_acquire:
  assumes "client_ok r L P G N" "Acq_req t \<in># N"
  shows "client_ok (R_own False) L P G (N - {#Acq_req t#} + {#Acq_rep t L_OK#})"
    "client_ok (R_own True) L P G (add_mset Revoke_ev (N - {#Acq_req t#} + {#Acq_rep t L_OK#}))"
    "client_ok R_wait L P G (N - {#Acq_req t#} + {#Acq_rep t L_RETRY#})"
proof -
  from assms obtain ls where L: "L = Some ls" "queue_ok (cc_threads ls) P G"
    and k: "config r (cc_state ls) (cc_message ls) (front_of ls P G) N"
    by (cases L) (auto simp: client_ok_def)
  from config_asked [OF k assms(2)] L(2)
  show "client_ok (R_own False) L P G (N - {#Acq_req t#} + {#Acq_rep t L_OK#})"
    "client_ok (R_own True) L P G (add_mset Revoke_ev (N - {#Acq_req t#} + {#Acq_rep t L_OK#}))"
    "client_ok R_wait L P G (N - {#Acq_req t#} + {#Acq_rep t L_RETRY#})"
    unfolding L(1) client_ok_def by (simp_all add: config_answered del: front_Some)
qed

lemma answered_release:
  assumes "client_ok r L P G N" "Rel_req w \<in># N"
  shows "client_ok R_none L P G (N - {#Rel_req w#} + {#Rel_rep w#})"
proof -
  from assms obtain ls where L: "L = Some ls" "queue_ok (cc_threads ls) P G"
    and k: "config r (cc_state ls) (cc_message ls) (front_of ls P G) N"
    by (cases L) (auto simp: client_ok_def)
  from config_leaving [OF k assms(2)] L show ?thesis by (simp add: client_ok_def)
qed

lemma srv_acquire_ok:
  assumes ok: "\<And>l. lk_ok y l" and req: "Acq_req t \<in># net y c lid"
  shows "\<exists>call st m. sc_acquire lid c (srv y) = Inr ((call, st), m) \<and>
    (\<forall>l. lk_ok (y\<lparr>srv := m, net := make_call lid call
      (upd2 c lid (\<lambda>N. N - {#Acq_req t#} + {#Acq_rep t st#}) (net y))\<rparr>) l)"
proof -
  note here = lk_okD(2) [OF ok]
  have "standing_of (srv y lid) c \<in> {R_none, R_ret}" using request_standing(1) [OF here req] .
  then obtain call st m where run: "sc_acquire lid c (srv y) = Inr ((call, st), m)" "sc_ok (m lid)"
    "\<And>l. l \<noteq> lid \<Longrightarrow> m l = srv y l" and alt: "acquired (srv y lid) c call st (m lid)"
    by (rule sc_acquire_cases [where m = "srv y", OF lk_okD(1) [OF ok]]) (rule that)
  let ?n = "make_call lid call (upd2 c lid (\<lambda>N. N - {#Acq_req t#} + {#Acq_rep t st#}) (net y))"
  note ans = answered_acquire [OF here req]
  have lid: "client_ok (standing_of (m lid) d) (cl y d lid) (pcs y d lid) (sigs y d lid) (?n d lid)" for d
    using alt unfolding acquired_def
  proof (elim disjE exE conjE)
    fix o' assume o': "o' \<noteq> c" "st = L_RETRY" "call = Some (o', RPC_revoke)"
      "standing_of (m lid) c = R_wait" "standing_of (srv y lid) o' = R_own False"
      "standing_of (m lid) o' = R_own True"
      "\<forall>d. d \<noteq> c \<longrightarrow> d \<noteq> o' \<longrightarrow> standing_of (m lid) d = standing_of (srv y lid) d"
    then show ?thesis
      using ans(3) here [of lid d] client_ok_revoke here [of lid o']
      by (cases "d = c"; cases "d = o'") (auto simp: make_call_def)
  qed (use ans here in \<open>cases "d = c"; auto simp: make_call_def\<close>)+
  have "?n d l = net y d l" if "l \<noteq> lid" for d l
    using that by (auto simp: make_call_def split: option.splits)
  then have "lk_ok (y\<lparr>srv := m, net := ?n\<rparr>) l" for l
    using lid run(2,3) ok [of l] by (cases "l = lid") (auto simp: lk_ok_def)
  with run(1) show ?thesis by blast
qed

lemma srv_release_ok:
  assumes ok: "\<And>l. lk_ok y l" and req: "Rel_req w \<in># net y c lid"
  shows "\<exists>call st m. sc_release lid c (srv y) = Inr ((call, st), m) \<and>
    (\<forall>l. lk_ok (y\<lparr>srv := m, net := make_call lid call
      (upd2 c lid (\<lambda>N. N - {#Rel_req w#} + {#Rel_rep w#}) (net y))\<rparr>) l)"
proof -
  note here = lk_okD(2) [OF ok]
  have own: "standing_of (srv y lid) c = R_own True" using request_standing(2) [OF here req] .
  obtain n m where run: "sc_release lid c (srv y) = Inr ((Some (n, RPC_retry), L_OK), m)"
    "sc_ok (m lid)" "\<And>l. l \<noteq> lid \<Longrightarrow> m l = srv y l" and n: "n \<noteq> c"
    "standing_of (srv y lid) n = R_wait" "standing_of (m lid) n = R_ret"
    "standing_of (m lid) c = R_none"
    "\<And>d. d \<noteq> c \<Longrightarrow> d \<noteq> n \<Longrightarrow> standing_of (m lid) d = standing_of (srv y lid) d"
    by (rule sc_release_cases [where m = "srv y", OF lk_okD(1) [OF ok] own]) (rule that)
  let ?n = "make_call lid (Some (n, RPC_retry)) (upd2 c lid (\<lambda>N. N - {#Rel_req w#} + {#Rel_rep w#}) (net y))"
  have lid: "client_ok (standing_of (m lid) d) (cl y d lid) (pcs y d lid) (sigs y d lid) (?n d lid)" for d
    using answered_release [OF here req] here [of lid d] client_ok_retry here [of lid n] n
    by (cases "d = c"; cases "d = n") (auto simp: make_call_def)
  have "?n d l = net y d l" if "l \<noteq> lid" for d l
    using that by (auto simp: make_call_def)
  then have "lk_ok (y\<lparr>srv := m, net := ?n\<rparr>) l" for l
    using lid run(2,3) ok [of l] by (cases "l = lid") (auto simp: lk_ok_def)
  with run(1) show ?thesis by blast
qed

lemma lk_step_ok:
  assumes "lk_step y a z" "\<And>l. lk_ok y l"
  shows "lk_ok z l"
proof -
  note here = lk_okD(2) [OF assms(2)]
  from assms(1) show ?thesis
  proof cases
    case (acquire c lid t s m)
    with acquire_ok [where M = "cl y c" and lid = lid and t = t, OF here] cc_acquire_other [OF acquire(4)]
    show ?thesis unfolding acquire(2) by (intro local_step_ok assms(2)) auto
  next
    case (resume t c lid p s m)
    with resume_ok [where M = "cl y c" and lid = lid and t = t and p = p, OF here] at_lock_other [OF resume(5)]
    show ?thesis unfolding resume(2) by (intro local_step_ok assms(2)) auto
  next
    case (reply t st c lid s m)
    with reply_ok [where M = "cl y c" and lid = lid and t = t and st = st, OF here] at_lock_other [OF reply(4)]
    show ?thesis unfolding reply(2) by (intro local_step_ok assms(2)) auto
  next
    case (release c lid t s sig m)
    with release_ok [where M = "cl y c" and lid = lid and t = t, OF here] at_lock_other [of _ lid _ "(s, sig)" m]
    show ?thesis unfolding release(2)
      by (intro local_step_ok assms(2)) (auto simp: cc_release_def)
  next
    case (release_reply t c lid sig m)
    with release_reply_ok [where M = "cl y c" and lid = lid and t = t, OF here] at_lock_other [OF release_reply(4)]
    show ?thesis unfolding release_reply(2) by (intro local_step_ok assms(2)) auto
  next
    case (revoke c lid s m)
    with revoke_ok [where M = "cl y c" and lid = lid, OF here] at_lock_other [of _ lid _ s m]
    show ?thesis unfolding revoke(2)
      by (intro local_step_ok assms(2)) (auto simp: cc_revoke_handler_def)
  next
    case (revoke_reply c lid sig m)
    with revoke_reply_ok [where M = "cl y c" and lid = lid, OF here] at_lock_other [OF revoke_reply(4)]
    show ?thesis unfolding revoke_reply(2) by (intro local_step_ok assms(2)) auto
  next
    case (retry c lid sig m)
    with retry_ok [where M = "cl y c" and lid = lid, OF here] at_lock_other [of _ lid _ sig m]
    show ?thesis unfolding retry(2)
      by (intro local_step_ok assms(2)) (auto simp: cc_retry_handler_def)
  next
    case (srv_acquire t c lid call st m)
    with srv_acquire_ok [OF assms(2), of t c lid] show ?thesis by auto
  next
    case (srv_release w c lid call st m)
    with srv_release_ok [OF assms(2), of w c lid] show ?thesis by auto
  qed
qed

lemma lk_reachable_ok: "lk_reachable y \<Longrightarrow> lk_ok y l"
proof (induction arbitrary: l rule: lk_reachable.induct)
  case start
  then show ?case by (simp add: lk_start_def lk_ok_def client_ok_def)
next
  case (step y a z)
  then show ?case by (blast intro: lk_step_ok)
qed

end
