(* ===== verification/Lock_Props.thy ===== *)
theory Lock_Props
  imports Lock_System
begin

text \<open>
  Properties of the caching lock service: mutual exclusion between all threads of all
  clients, the absence of faults in every segment, freedom from deadlock, and what a
  spurious wake-up does.
\<close>

section \<open>Faults\<close>

text \<open>A segment that is due and does not return: one rule per rule of \<open>lk_step\<close>.\<close>

inductive lk_fault :: "lk_sys \<Rightarrow> fault \<Rightarrow> bool" where
  "pcs y c lid t = Idle \<Longrightarrow> cc_acquire lid t (cl y c) = Inl f \<Longrightarrow> lk_fault y f"
| "t \<in> sigs y c lid \<Longrightarrow> pcs y c lid t = Sleeping p \<Longrightarrow>
    at_lock (cc_resume p) lid (cl y c) = Inl f \<Longrightarrow> lk_fault y f"
| "Acq_rep t st \<in># net y c lid \<Longrightarrow> at_lock (cc_wait_reply st) lid (cl y c) = Inl f \<Longrightarrow> lk_fault y f"
| "pcs y c lid t = Holding \<Longrightarrow> cc_release lid (cl y c) = Inl f \<Longrightarrow> lk_fault y f"
| "Rel_rep (Some t) \<in># net y c lid \<Longrightarrow> at_lock cc_release_reply lid (cl y c) = Inl f \<Longrightarrow> lk_fault y f"
| "Revoke_ev \<in># net y c lid \<Longrightarrow> cc_revoke_handler lid (cl y c) = Inl f \<Longrightarrow> lk_fault y f"
| "Rel_rep None \<in># net y c lid \<Longrightarrow> at_lock cc_revoke_reply lid (cl y c) = Inl f \<Longrightarrow> lk_fault y f"
| "Retry_ev \<in># net y c lid \<Longrightarrow> cc_retry_handler lid (cl y c) = Inl f \<Longrightarrow> lk_fault y f"
| "Acq_req t \<in># net y c lid \<Longrightarrow> sc_acquire lid c (srv y) = Inl f \<Longrightarrow> lk_fault y f"
| "Rel_req w \<in># net y c lid \<Longrightarrow> sc_release lid c (srv y) = Inl f \<Longrightarrow> lk_fault y f"

lemma lk_ok_no_fault:
  assumes "\<And>l. lk_ok y l"
  shows "\<not> lk_fault y f"
proof
  note here = lk_okD(2) [OF assms]
  assume "lk_fault y f"
  then show False
  proof cases
    case (1 c lid t)
    with acquire_ok [where M = "cl y c" and lid = lid and t = t, OF here] show False by auto
  next
    case (2 t c lid p)
    with resume_ok [where M = "cl y c" and lid = lid and t = t and p = p, OF here] show False by auto
  next
    case (3 t st c lid)
    with reply_ok [where M = "cl y c" and lid = lid and t = t and st = st, OF here] show False by auto
  next
    case (4 c lid t)
    with release_ok [where M = "cl y c" and lid = lid and t = t, OF here] show False by auto
  next
    case (5 t c lid)
    with release_reply_ok [where M = "cl y c" and lid = lid and t = t, OF here] show False by auto
  next
    case (6 c lid)
    with revoke_ok [where M = "cl y c" and lid = lid, OF here] show False by auto
  next
    case (7 c lid)
    with revoke_reply_ok [where M = "cl y c" and lid = lid, OF here] show False by auto
  next
    case (8 c lid)
    with retry_ok [where M = "cl y c" and lid = lid, OF here] show False by auto
  next
    case (9 t c lid)
    with srv_acquire_ok [OF assms, of t c lid] show False by auto
  next
    case (10 w c lid)
    with srv_release_ok [OF assms, of w c lid] show False by auto
  qed
qed

section \<open>Progress\<close>

text \<open>Every event in transit and every signal leads to a step.\<close>

lemma event_step:
  assumes ok: "\<And>l. lk_ok y l" and "ev \<in># net y c lid"
  shows "\<exists>z. lk_step y Internal z"
proof -
  note here = lk_okD(2) [OF ok]
  show ?thesis
  proof (cases ev)
    case (Acq_req t)
    with assms srv_acquire_ok [OF ok, of t c lid] show ?thesis by (meson lk_step.srv_acquire)
  next
    case (Acq_rep t st)
    with assms reply_ok [where M = "cl y c" and lid = lid and t = t and st = st, OF here]
    show ?thesis by (meson lk_step.reply)
  next
    case (Rel_req w)
    with assms srv_release_ok [OF ok, of w c lid] show ?thesis by (meson lk_step.srv_release)
  next
    case (Rel_rep w)
    show ?thesis
    proof (cases w)
      case None
      with Rel_rep assms revoke_reply_ok [where M = "cl y c" and lid = lid, OF here]
      show ?thesis by (meson lk_step.revoke_reply)
    next
      case (Some t)
      with Rel_rep assms release_reply_ok [where M = "cl y c" and lid = lid and t = t, OF here]
      show ?thesis by (meson lk_step.release_reply)
    qed
  next
    case Revoke_ev
    with assms revoke_ok [where M = "cl y c" and lid = lid, OF here] show ?thesis
      by (meson lk_step.revoke)
  next
    case Retry_ev
    with assms retry_ok [where M = "cl y c" and lid = lid, OF here] show ?thesis
      by (meson lk_step.retry)
  qed
qed

lemma client_ok_cases:
  assumes "client_ok r L P G N" "t \<in> G \<or> P t \<noteq> Idle"
  obtains ls where "L = Some ls" "queue_ok (cc_threads ls) P G"
    "config r (cc_state ls) (cc_message ls) (front_of ls P G) N"
  using assms by (cases L) (auto simp: client_ok_def)

lemma signalled_sleeps:
  assumes "client_ok r L P G N" "t \<in> G"
  shows "\<exists>p. P t = Sleeping p"
proof -
  obtain ls where ls: "queue_ok (cc_threads ls) P G"
    "config r (cc_state ls) (cc_message ls) (front_of ls P G) N"
    using assms by (auto elim: client_ok_cases [where t = t])
  then obtain us where "cc_threads ls = t # us"
    using assms(2) by (cases "cc_threads ls") (auto simp: queue_ok_def)
  with ls(2) assms(2) show ?thesis by (auto elim!: configE)
qed

lemma signal_step:
  assumes ok: "\<And>l. lk_ok y l" and "t \<in> sigs y c lid"
  shows "\<exists>z. lk_step y Internal z"
proof -
  note here = lk_okD(2) [OF ok]
  obtain p where p: "pcs y c lid t = Sleeping p" using signalled_sleeps [OF here assms(2)] by blast
  with assms(2) resume_ok [where M = "cl y c" and lid = lid and t = t and p = p, OF here]
  show ?thesis by (meson lk_step.resume)
qed

text \<open>A client with nothing in transit, nobody signalled and nobody holding the lock is
  idle or waits in the server's queue.\<close>

lemma quiet_client:
  assumes "client_ok r L P {} {#}" "\<And>t. P t \<noteq> Holding"
  shows "r \<noteq> R_own True" "r \<noteq> R_ret" "P t \<noteq> Idle \<Longrightarrow> r = R_wait"
proof -
  have "(r \<noteq> R_own True \<and> r \<noteq> R_ret) \<and> (P t \<noteq> Idle \<longrightarrow> r = R_wait)"
    using assms(1)
    by (cases L) (auto simp: assms(2) client_ok_def queue_ok_def elim!: configE ownedE parkedE)
  then show "r \<noteq> R_own True" "r \<noteq> R_ret" "P t \<noteq> Idle \<Longrightarrow> r = R_wait" by auto
qed

lemma holder_owns:
  assumes "client_ok r L P G N" "P t = Holding"
  obtains b ls us where "r = R_own b" "L = Some ls" "cc_threads ls = t # us" "queue_ok (t # us) P G"
proof -
  obtain ls where ls: "L = Some ls" "queue_ok (cc_threads ls) P G"
    "config r (cc_state ls) (cc_message ls) (front_of ls P G) N"
    using assms by (auto elim: client_ok_cases [where t = t])
  have "t \<in> set (cc_threads ls)" "t \<notin> set (tl (cc_threads ls))"
    using ls(2) assms(2) unfolding queue_ok_def by (metis pc.distinct(5), auto)
  then obtain us where T: "cc_threads ls = t # us" by (cases "cc_threads ls") auto
  then have "front_of ls P G = Some (t, Holding, t \<in> G)" using assms(2) by simp
  with ls(3) obtain b where "r = R_own b" by (auto elim: configE)
  with ls T that show thesis by simp
qed

lemma lk_ok_exclusion:
  assumes "lk_ok y lid" "pcs y c lid t = Holding" "pcs y d lid u = Holding"
  shows "c = d \<and> t = u"
proof -
  note here = lk_okD(2) [OF assms(1)]
  obtain b ls us where 1: "standing_of (srv y lid) c = R_own b" "cl y c lid = Some ls"
    "cc_threads ls = t # us" by (rule holder_owns [OF here assms(2)])
  obtain b' ls' us' where 2: "standing_of (srv y lid) d = R_own b'" "cl y d lid = Some ls'"
    "cc_threads ls' = u # us'" by (rule holder_owns [OF here assms(3)])
  from standing_own_unique [OF 1(1) 2(1)] 1 2 show ?thesis by auto
qed

text \<open>A lock that some thread is engaged with is held, or the protocol is at work on it.\<close>

lemma lk_ok_progress:
  assumes ok: "\<And>l. lk_ok y l" and engaged: "pcs y c lid t \<noteq> Idle"
  shows "(\<exists>d u. pcs y d lid u = Holding) \<or> (\<exists>z. lk_step y Internal z)"
proof (rule ccontr)
  note here = lk_okD(2) [OF ok]
  assume stuck: "\<not> ?thesis"
  then have hold: "pcs y d lid u \<noteq> Holding" for d u by blast
  have "net y d lid = {#}" for d
    using event_step [OF ok] stuck by (metis multiset_nonemptyE)
  moreover have "sigs y d lid = {}" for d
    using signal_step [OF ok] stuck by blast
  ultimately have q: "client_ok (standing_of (srv y lid) d) (cl y d lid) (pcs y d lid) {} {#}" for d
    using here [of lid d] by simp
  have "standing_of (srv y lid) c = R_wait" using quiet_client(3) [OF q hold engaged] .
  with standing_wait_other quiet_client(1,2) [OF q hold] show False by blast
qed

lemma holder_gives_back:
  assumes "\<And>l. lk_ok y l" "pcs y d lid u = Holding"
  shows "\<exists>z. lk_step y Give_back z"
  using assms release_ok [where M = "cl y d" and lid = lid and t = u, OF lk_okD(2) [OF assms(1)]]
  by (meson lk_step.release)

section \<open>Properties\<close>

text \<open>
  C2. Mutual exclusion of the caching lock service: in every reachable state of the server
  and all clients, with any delay of the calls between them, at most one thread of one
  client holds a given lock.
\<close>

theorem lk_mutual_exclusion:
  assumes "lk_reachable y" and "pcs y c lid t = Holding" and "pcs y d lid u = Holding"
  shows "c = d \<and> t = u"
  using lk_reachable_ok [OF assms(1)] assms(2,3) by (rule lk_ok_exclusion)

text \<open>
  The run behind the witnesses: client \<open>a\<close> obtains lock 7 for its thread 1, then its thread 2
  joins the queue.
\<close>

definition lk_asked :: lk_sys where
  "lk_asked = local_step ''a'' 7 [7 \<mapsto> \<lparr>cc_state = ACQUIRING, cc_message = EMPTY, cc_threads = [1]\<rparr>]
     (\<lambda>P. P(1 := Calling)) id (\<lambda>N. N + {#Acq_req 1#}) lk_start"

definition lk_granted :: lk_sys where
  "lk_granted = lk_asked\<lparr>srv := [7 \<mapsto> sc_lock_new\<lparr>sc_state := SC_LOCKED, sc_owner := ''a''\<rparr>],
     net := make_call 7 None (upd2 ''a'' 7 (\<lambda>N. N - {#Acq_req 1#} + {#Acq_rep 1 L_OK#}) (net lk_asked))\<rparr>"

definition lk_held :: lk_sys where
  "lk_held = local_step ''a'' 7 [7 \<mapsto> \<lparr>cc_state = CC_LOCKED, cc_message = EMPTY, cc_threads = [1]\<rparr>]
     (\<lambda>P. P(1 := Holding)) id (\<lambda>N. N - {#Acq_rep 1 L_OK#} + {#}) lk_granted"

definition lk_queued :: lk_sys where
  "lk_queued = local_step ''a'' 7 [7 \<mapsto> \<lparr>cc_state = CC_LOCKED, cc_message = EMPTY, cc_threads = [1, 2]\<rparr>]
     (\<lambda>P. P(2 := Sleeping At_queue)) id (\<lambda>N. N + {#}) lk_held"

lemmas lk_run = lk_start_def lk_asked_def lk_granted_def lk_held_def lk_queued_def local_step_def
  upd2_def cc_acquire_def at_lock_def cc_defs cc_lock_new_def asks_def make_call_def sc_acquire_def
  sc_acquire_lock_def sc_lock_new_def

lemma lk_held_steps:
  "lk_step lk_asked Internal lk_granted" "lk_step lk_granted Internal lk_held" "lk_reachable lk_asked"
proof -
  show "lk_step lk_asked Internal lk_granted"
    using lk_step.srv_acquire [of 1 lk_asked "''a''" 7 None L_OK "srv lk_granted"]
    by (simp add: lk_granted_def) (simp add: lk_run)
  show "lk_step lk_granted Internal lk_held"
    using lk_step.reply [of 1 L_OK lk_granted "''a''" 7 "Returned L_OK"
        "[7 \<mapsto> \<lparr>cc_state = CC_LOCKED, cc_message = EMPTY, cc_threads = [1]\<rparr>]"]
    by (simp add: lk_held_def) (simp add: lk_run)
  have "lk_step lk_start New lk_asked"
    using lk_step.acquire [of lk_start "''a''" 7 1 Call_acquire
        "[7 \<mapsto> \<lparr>cc_state = ACQUIRING, cc_message = EMPTY, cc_threads = [1]\<rparr>]"]
    by (simp add: lk_asked_def) (simp add: lk_run)
  then show "lk_reachable lk_asked" by (meson lk_reachable.intros)
qed

lemma lk_held_reachable: "lk_reachable lk_held"
  using lk_held_steps by (meson lk_reachable.step)

lemma lk_queued_reachable: "lk_reachable lk_queued"
proof -
  have "lk_step lk_held New lk_queued"
    using lk_step.acquire [of lk_held "''a''" 7 2 "Sleep At_queue"
        "[7 \<mapsto> \<lparr>cc_state = CC_LOCKED, cc_message = EMPTY, cc_threads = [1, 2]\<rparr>]"]
    by (simp add: lk_queued_def) (simp add: lk_run)
  with lk_held_reachable show ?thesis by (rule lk_reachable.step)
qed

lemma lk_queued_pcs:
  "pcs lk_queued ''a'' 7 1 = Holding" "pcs lk_queued ''a'' 7 2 = Sleeping At_queue"
  "sigs lk_queued ''a'' 7 = {}"
  by (simp_all add: lk_run)

theorem lk_mutual_exclusion_witness:
  "lk_reachable lk_queued \<and> {(d, u). pcs lk_queued d 7 u = Holding} = {(''a'', 1)}"
  using lk_mutual_exclusion [OF lk_queued_reachable lk_queued_pcs(1)] lk_queued_reachable
    lk_queued_pcs(1) by blast

text \<open>
  C14. No segment of the caching lock protocol faults: in every reachable state, every
  segment that is due on the server or on a client returns. No null lock state is
  dereferenced, \<open>waiting.begin()\<close> and \<open>threads.front()\<close> are never taken of an empty
  container, the assertion of \<open>acquire\<close> holds, and neither \<open>exit\<close> of the client is reached.
\<close>

theorem lk_no_fault:
  assumes "lk_reachable y"
  shows "\<not> lk_fault y f"
  using lk_reachable_ok [OF assms] by (rule lk_ok_no_fault)

theorem lk_no_fault_witness: "lk_reachable lk_queued \<and> \<not> lk_fault lk_queued Exit"
  using lk_no_fault [OF lk_queued_reachable] lk_queued_reachable by blast

text \<open>
  C8. No deadlock: in every reachable state in which some thread is not idle, some thread
  holds the lock and can give it back, or the protocol can take a step of its own, without a
  new request.
\<close>

theorem lk_no_deadlock:
  assumes "lk_reachable y" and "pcs y c lid t \<noteq> Idle"
  shows "(\<exists>d u. pcs y d lid u = Holding \<and> (\<exists>z. lk_step y Give_back z)) \<or> (\<exists>z. lk_step y Internal z)"
  using lk_ok_progress [OF lk_reachable_ok [OF assms(1)] assms(2)]
    holder_gives_back [OF lk_reachable_ok [OF assms(1)]] by blast

theorem lk_no_deadlock_witness:
  "pcs lk_queued ''a'' 7 2 \<noteq> Idle \<and>
    ((\<exists>d u. pcs lk_queued d 7 u = Holding \<and> (\<exists>z. lk_step lk_queued Give_back z)) \<or>
     (\<exists>z. lk_step lk_queued Internal z))"
proof -
  have "pcs lk_queued ''a'' 7 2 \<noteq> Idle" using lk_queued_pcs(2) by simp
  with lk_no_deadlock [OF lk_queued_reachable this] show ?thesis by blast
qed

text \<open>
  C33. A spurious wake-up breaks mutual exclusion: \<open>acquire\<close> does not repeat its
  \<open>pthread_cond_wait\<close> in a loop. In a reachable state in which one thread holds the lock, a
  queued thread that wakes up without a signal finds the state \<open>LOCKED\<close> and returns \<open>OK\<close>.
\<close>

theorem lk_spurious_wakeup:
  "\<exists>y t u m. lk_reachable y \<and> t \<noteq> u \<and> pcs y ''a'' 7 t = Holding \<and>
    pcs y ''a'' 7 u = Sleeping At_queue \<and> u \<notin> sigs y ''a'' 7 \<and>
    at_lock (cc_resume At_queue) 7 (cl y ''a'') = Inr (Returned L_OK, m)"
proof -
  have "\<exists>m. at_lock (cc_resume At_queue) 7 (cl lk_queued ''a'') = Inr (Returned L_OK, m)"
    by (simp add: lk_run)
  moreover have "(1 :: nat) \<noteq> 2" by simp
  ultimately show ?thesis
    using lk_queued_reachable lk_queued_pcs by (metis empty_iff)
qed

end
