(* ===== verification/Lock_Settle.thy ===== *)
theory Lock_Settle
  imports Lock_Props
begin

text \<open>
  The caching lock protocol settles: between two requests of the threads it can only take a
  bounded number of steps of its own, and when it takes no more, every lock a thread waits for
  is held by a thread. The measure gives each client and lock the number of steps that may
  still come from its configuration.
\<close>

section \<open>The steps a client may still take\<close>

definition own_weight :: "standing \<Rightarrow> cc_message \<Rightarrow> nat" where
  "own_weight r msg = (if r = R_own False then 2 else if msg = EMPTY then 1 else 0)"

definition parked_weight :: "standing \<Rightarrow> cc_message \<Rightarrow> nat" where
  "parked_weight r msg = (if r = R_wait then 7 else if msg = EMPTY then 6 else 5)"

text \<open>
  From the top: a lock that is kept free and may be revoked, being given back, given back, then
  asked for again, refused, parked, asked for a second time, granted, and held.
\<close>

fun weight :: "standing \<Rightarrow> cc_status \<Rightarrow> cc_message \<Rightarrow> (thread \<times> pc \<times> bool) option \<Rightarrow> event multiset \<Rightarrow> nat" where
  "weight r CC_NONE msg f N = (if f = None then 0 else 12)"
| "weight r FREE msg f N = (if r = R_own False then 16 else 15)"
| "weight r RELEASING msg f N = (if r = R_own True then 14 else 13)"
| "weight r CC_LOCKED msg f N =
     (case f of Some (t, Holding, g) \<Rightarrow> own_weight r msg | _ \<Rightarrow> Suc (own_weight r msg))"
| "weight r ACQUIRING msg f N =
     (case f of
        Some (t, Calling, g) \<Rightarrow>
          if Acq_req t \<in># N then (if r = R_ret then 4 else 11)
          else if Acq_rep t L_OK \<in># N then Suc (own_weight r msg) else 3 + parked_weight r msg
      | _ \<Rightarrow> parked_weight r msg)"

definition client_weight :: "standing \<Rightarrow> cc_lock option \<Rightarrow> (thread \<Rightarrow> pc) \<Rightarrow> thread set \<Rightarrow> event multiset \<Rightarrow> nat" where
  "client_weight r L P G N =
     (case L of None \<Rightarrow> 0 | Some ls \<Rightarrow> weight r (cc_state ls) (cc_message ls) (front_of ls P G) N)"

definition known :: "lk_sys \<Rightarrow> (client \<times> lockid_t) set" where
  "known y = {(c, lid). cl y c lid \<noteq> None}"

definition weight_at :: "lk_sys \<Rightarrow> client \<times> lockid_t \<Rightarrow> nat" where
  "weight_at y k = (case k of (c, lid) \<Rightarrow>
     client_weight (standing_of (srv y lid) c) (cl y c lid) (pcs y c lid) (sigs y c lid) (net y c lid))"

definition lk_weight :: "lk_sys \<Rightarrow> nat" where
  "lk_weight y = (\<Sum>k \<in> known y. weight_at y k)"

lemmas weight_defs = own_weight_def parked_weight_def client_weight_def

lemma weight_bound: "weight r st msg f N \<le> 16"
  by (cases st) (auto simp: weight_defs split: option.splits pc.splits)

lemma weight_at_bound: "weight_at y k \<le> 16"
  by (auto simp: weight_at_def client_weight_def weight_bound split: prod.splits option.splits)

section \<open>Local steps\<close>

lemma resume_weight:
  assumes "client_ok r (M lid) P G N" "t \<in> G" "P t = Sleeping p"
    and "at_lock (cc_resume p) lid M = Inr (s, m)"
  shows "client_weight r (m lid) (P(t := pc_of s)) (G - {t}) (N + asks t s) < client_weight r (M lid) P G N"
proof -
  obtain ls where ls: "M lid = Some ls" "queue_ok (cc_threads ls) P G"
    "config r (cc_state ls) (cc_message ls) (front_of ls P G) N"
    using assms by (metis client_okE pc.distinct(3))
  from ls(2) assms(2) obtain us where T: "cc_threads ls = t # us"
    by (cases "cc_threads ls") (auto simp: queue_ok_def)
  then have f: "front_of ls P G = Some (t, Sleeping p, True)" using assms by simp
  show ?thesis
    using ls(3,1,2) assms(4) T f
    by (elim configE) (auto simp: local_defs weight_defs res_simps elim!: ownedE parkedE)
qed

lemma event_weight:
  assumes ok: "client_ok r (M lid) P G N"
  shows "Acq_rep t st \<in># N \<Longrightarrow> at_lock (cc_wait_reply st) lid M = Inr (s, m) \<Longrightarrow>
      client_weight r (m lid) (P(t := pc_of s)) G (N - {#Acq_rep t st#} + asks t s) < client_weight r (M lid) P G N"
    "Rel_rep (Some t) \<in># N \<Longrightarrow> at_lock cc_release_reply lid M = Inr (sig, m) \<Longrightarrow>
      client_weight r (m lid) (P(t := Idle)) (signal sig P G) (N - {#Rel_rep (Some t)#}) < client_weight r (M lid) P G N"
    "Revoke_ev \<in># N \<Longrightarrow> cc_revoke_handler lid M = Inr (s, m) \<Longrightarrow>
      client_weight r (m lid) P G (N - {#Revoke_ev#} + gives None s) < client_weight r (M lid) P G N"
    "Rel_rep None \<in># N \<Longrightarrow> at_lock cc_revoke_reply lid M = Inr (sig, m) \<Longrightarrow>
      client_weight r (m lid) P (signal sig P G) (N - {#Rel_rep None#}) < client_weight r (M lid) P G N"
    "Retry_ev \<in># N \<Longrightarrow> cc_retry_handler lid M = Inr (sig, m) \<Longrightarrow>
      client_weight r (m lid) P (signal sig P G) (N - {#Retry_ev#}) < client_weight r (M lid) P G N"
proof -
  consider "N = {#}" | ls where "M lid = Some ls" "queue_ok (cc_threads ls) P G"
    "config r (cc_state ls) (cc_message ls) (front_of ls P G) N"
    using ok by (cases "M lid") (auto simp: client_ok_def)
  note cases = this
  show "Acq_rep t st \<in># N \<Longrightarrow> at_lock (cc_wait_reply st) lid M = Inr (s, m) \<Longrightarrow>
      client_weight r (m lid) (P(t := pc_of s)) G (N - {#Acq_rep t st#} + asks t s) < client_weight r (M lid) P G N"
    "Rel_rep (Some t) \<in># N \<Longrightarrow> at_lock cc_release_reply lid M = Inr (sig, m) \<Longrightarrow>
      client_weight r (m lid) (P(t := Idle)) (signal sig P G) (N - {#Rel_rep (Some t)#}) < client_weight r (M lid) P G N"
    "Revoke_ev \<in># N \<Longrightarrow> cc_revoke_handler lid M = Inr (s, m) \<Longrightarrow>
      client_weight r (m lid) P G (N - {#Revoke_ev#} + gives None s) < client_weight r (M lid) P G N"
    "Rel_rep None \<in># N \<Longrightarrow> at_lock cc_revoke_reply lid M = Inr (sig, m) \<Longrightarrow>
      client_weight r (m lid) P (signal sig P G) (N - {#Rel_rep None#}) < client_weight r (M lid) P G N"
    "Retry_ev \<in># N \<Longrightarrow> cc_retry_handler lid M = Inr (sig, m) \<Longrightarrow>
      client_weight r (m lid) P (signal sig P G) (N - {#Retry_ev#}) < client_weight r (M lid) P G N"
    by (rule cases; auto simp: local_defs weight_defs res_simps split: list.splits
        elim!: configE ownedE parkedE)+
qed

section \<open>Server steps\<close>

lemma asked_weight:
  assumes "client_ok r L P G N" "Acq_req t \<in># N"
  shows "client_weight r L P G N = (if r = R_ret then 4 else 11)"
    "client_weight (R_own False) L P G (N - {#Acq_req t#} + {#Acq_rep t L_OK#}) = 3"
    "client_weight (R_own True) L P G (add_mset Revoke_ev (N - {#Acq_req t#} + {#Acq_rep t L_OK#})) \<le> 3"
    "client_weight R_wait L P G (N - {#Acq_req t#} + {#Acq_rep t L_RETRY#}) = 10"
proof -
  from assms obtain ls where L: "L = Some ls" "config r (cc_state ls) (cc_message ls) (front_of ls P G) N"
    by (cases L) (auto simp: client_ok_def)
  from config_asked [OF L(2) assms(2)] L(1)
  show "client_weight r L P G N = (if r = R_ret then 4 else 11)"
    "client_weight (R_own False) L P G (N - {#Acq_req t#} + {#Acq_rep t L_OK#}) = 3"
    "client_weight (R_own True) L P G (add_mset Revoke_ev (N - {#Acq_req t#} + {#Acq_rep t L_OK#})) \<le> 3"
    "client_weight R_wait L P G (N - {#Acq_req t#} + {#Acq_rep t L_RETRY#}) = 10"
    by (auto simp: weight_defs front_of_def)
qed

lemma left_weight:
  assumes "client_ok r L P G N" "Rel_req w \<in># N"
  shows "client_weight R_none L P G (N - {#Rel_req w#} + {#Rel_rep w#}) < client_weight r L P G N"
proof -
  from assms obtain ls where L: "L = Some ls" "config r (cc_state ls) (cc_message ls) (front_of ls P G) N"
    by (cases L) (auto simp: client_ok_def)
  from L(2) assms(2) have "r = R_own True" "cc_state ls = RELEASING"
    by (auto elim!: configE ownedE parkedE)
  then show ?thesis using L(1) by (simp add: client_weight_def)
qed

text \<open>A client that is called back has no more steps to come than before.\<close>

lemma called_weight:
  "client_ok (R_own False) L P G N \<Longrightarrow> client_weight (R_own True) L P G (add_mset Revoke_ev N) \<le> client_weight (R_own False) L P G N"
  "client_ok R_wait L P G N \<Longrightarrow> client_weight R_ret L P G (add_mset Retry_ev N) \<le> client_weight R_wait L P G N"
  by (auto simp: client_ok_def weight_defs split: option.splits elim!: configE ownedE parkedE)

section \<open>All steps\<close>

lemma local_step_known:
  "m lid \<noteq> None \<longleftrightarrow> cl y c lid \<noteq> None \<Longrightarrow> (\<And>l. l \<noteq> lid \<Longrightarrow> m l = cl y c l) \<Longrightarrow>
     known (local_step c lid m p g n y) = known y"
  unfolding known_def local_step_def by (auto split: if_splits) (metis option.distinct(1))+

lemma event_known:
  assumes "\<And>l. lk_ok y l" "ev \<in># net y c lid"
  shows "(c, lid) \<in> known y"
  using lk_okD(2) [OF assms(1), of lid c] assms(2)
  by (cases "cl y c lid") (auto simp: known_def client_ok_def)

lemma lk_weight_less:
  assumes "finite (known y)" "known z = known y" "k \<in> known y" "weight_at z k < weight_at y k"
    and "\<And>j. j \<noteq> k \<Longrightarrow> weight_at z j \<le> weight_at y j"
  shows "lk_weight z < lk_weight y"
  unfolding lk_weight_def assms(2)
  using assms by (intro sum_strict_mono_ex1) (auto, metis less_imp_le)

lemma local_step_weight:
  assumes "finite (known y)" "at_lock f lid (cl y c) = Inr (x, m)"
    and "client_weight (standing_of (srv y lid) c) (m lid) (p (pcs y c lid)) (g (sigs y c lid)) (n (net y c lid))
      < client_weight (standing_of (srv y lid) c) (cl y c lid) (pcs y c lid) (sigs y c lid) (net y c lid)"
  shows "lk_weight (local_step c lid m p g n y) < lk_weight y \<and> known (local_step c lid m p g n y) = known y"
proof -
  have dom: "m lid \<noteq> None" "cl y c lid \<noteq> None" using assms(2) by (auto simp: res_simps)
  note other = at_lock_other [OF assms(2)]
  have k: "known (local_step c lid m p g n y) = known y"
    using dom other by (intro local_step_known) auto
  have "lk_weight (local_step c lid m p g n y) < lk_weight y"
  proof (rule lk_weight_less [OF assms(1) k, of "(c, lid)"])
    show "(c, lid) \<in> known y" using dom by (simp add: known_def)
    show "weight_at (local_step c lid m p g n y) (c, lid) < weight_at y (c, lid)"
      using assms(3) by (simp add: weight_at_def local_step_def)
    show "weight_at (local_step c lid m p g n y) j \<le> weight_at y j" if "j \<noteq> (c, lid)" for j
    proof (cases j)
      case (Pair d l)
      with that other [of l] show ?thesis by (cases "d = c") (auto simp: weight_at_def local_step_def)
    qed
  qed
  with k show ?thesis by blast
qed

lemma srv_step_weight:
  assumes "finite (known y)" "(c, lid) \<in> known y"
    and "\<And>d l. l \<noteq> lid \<Longrightarrow> m l = srv y l \<and> n d l = net y d l"
    and "client_weight (standing_of (m lid) c) (cl y c lid) (pcs y c lid) (sigs y c lid) (n c lid)
      < client_weight (standing_of (srv y lid) c) (cl y c lid) (pcs y c lid) (sigs y c lid) (net y c lid)"
    and "\<And>d. d \<noteq> c \<Longrightarrow> client_weight (standing_of (m lid) d) (cl y d lid) (pcs y d lid) (sigs y d lid) (n d lid)
      \<le> client_weight (standing_of (srv y lid) d) (cl y d lid) (pcs y d lid) (sigs y d lid) (net y d lid)"
  shows "lk_weight (y\<lparr>srv := m, net := n\<rparr>) < lk_weight y \<and> known (y\<lparr>srv := m, net := n\<rparr>) = known y"
proof -
  have k: "known (y\<lparr>srv := m, net := n\<rparr>) = known y" by (simp add: known_def)
  have "lk_weight (y\<lparr>srv := m, net := n\<rparr>) < lk_weight y"
  proof (rule lk_weight_less [OF assms(1) k assms(2)])
    show "weight_at (y\<lparr>srv := m, net := n\<rparr>) (c, lid) < weight_at y (c, lid)"
      using assms(4) by (simp add: weight_at_def)
    show "weight_at (y\<lparr>srv := m, net := n\<rparr>) j \<le> weight_at y j" if "j \<noteq> (c, lid)" for j
    proof (cases j)
      case (Pair d l)
      with that assms(3) [of l d] assms(5) [of d] show ?thesis
        by (cases "l = lid") (auto simp: weight_at_def)
    qed
  qed
  with k show ?thesis by blast
qed

lemma srv_acquire_weight:
  assumes ok: "\<And>l. lk_ok y l" and fin: "finite (known y)" and req: "Acq_req t \<in># net y c lid"
    and run: "sc_acquire lid c (srv y) = Inr ((call, st), m)"
  shows "lk_weight (y\<lparr>srv := m, net := make_call lid call
      (upd2 c lid (\<lambda>N. N - {#Acq_req t#} + {#Acq_rep t st#}) (net y))\<rparr>) < lk_weight y \<and>
    known (y\<lparr>srv := m, net := make_call lid call
      (upd2 c lid (\<lambda>N. N - {#Acq_req t#} + {#Acq_rep t st#}) (net y))\<rparr>) = known y"
proof (rule srv_step_weight [OF fin, of c lid])
  note here = lk_okD(2) [OF ok]
  have r: "standing_of (srv y lid) c \<in> {R_none, R_ret}" using request_standing(1) [OF here req] .
  obtain m' where m': "\<And>l. l \<noteq> lid \<Longrightarrow> m' l = srv y l" "acquired (srv y lid) c call st (m' lid)" "m' = m"
    using sc_acquire_cases [where m = "srv y", OF lk_okD(1) [OF ok] r] run by (metis Inr_inject prod.inject)
  note alt = m'(2) [unfolded m'(3)]
  show "(c, lid) \<in> known y" using event_known [OF ok req] .
  show "m l = srv y l \<and> make_call lid call (upd2 c lid (\<lambda>N. N - {#Acq_req t#} + {#Acq_rep t st#}) (net y)) d l = net y d l"
    if "l \<noteq> lid" for d l
    using that m'(1,3) by (auto simp: make_call_def split: option.splits)
  note w = asked_weight [OF here req]
  show "client_weight (standing_of (m lid) c) (cl y c lid) (pcs y c lid) (sigs y c lid)
      (make_call lid call (upd2 c lid (\<lambda>N. N - {#Acq_req t#} + {#Acq_rep t st#}) (net y)) c lid)
    < client_weight (standing_of (srv y lid) c) (cl y c lid) (pcs y c lid) (sigs y c lid) (net y c lid)"
    using alt w by (auto simp: acquired_def make_call_def)
  show "client_weight (standing_of (m lid) d) (cl y d lid) (pcs y d lid) (sigs y d lid)
      (make_call lid call (upd2 c lid (\<lambda>N. N - {#Acq_req t#} + {#Acq_rep t st#}) (net y)) d lid)
    \<le> client_weight (standing_of (srv y lid) d) (cl y d lid) (pcs y d lid) (sigs y d lid) (net y d lid)"
    if "d \<noteq> c" for d
    using alt that called_weight(1) here [of lid d] by (auto simp: acquired_def make_call_def upd2_def)
qed

lemma srv_release_weight:
  assumes ok: "\<And>l. lk_ok y l" and fin: "finite (known y)" and req: "Rel_req w \<in># net y c lid"
    and run: "sc_release lid c (srv y) = Inr ((call, st), m)"
  shows "lk_weight (y\<lparr>srv := m, net := make_call lid call
      (upd2 c lid (\<lambda>N. N - {#Rel_req w#} + {#Rel_rep w#}) (net y))\<rparr>) < lk_weight y \<and>
    known (y\<lparr>srv := m, net := make_call lid call
      (upd2 c lid (\<lambda>N. N - {#Rel_req w#} + {#Rel_rep w#}) (net y))\<rparr>) = known y"
proof (rule srv_step_weight [OF fin, of c lid])
  note here = lk_okD(2) [OF ok]
  have own: "standing_of (srv y lid) c = R_own True" using request_standing(2) [OF here req] .
  obtain n where n: "call = Some (n, RPC_retry)" "\<And>l. l \<noteq> lid \<Longrightarrow> m l = srv y l" "n \<noteq> c"
    "standing_of (srv y lid) n = R_wait" "standing_of (m lid) n = R_ret" "standing_of (m lid) c = R_none"
    "\<And>d. d \<noteq> c \<Longrightarrow> d \<noteq> n \<Longrightarrow> standing_of (m lid) d = standing_of (srv y lid) d"
    by (rule sc_release_cases [where m = "srv y", OF lk_okD(1) [OF ok] own]) (use run that in auto)
  show "(c, lid) \<in> known y" using event_known [OF ok req] .
  show "m l = srv y l \<and> make_call lid call (upd2 c lid (\<lambda>N. N - {#Rel_req w#} + {#Rel_rep w#}) (net y)) d l = net y d l"
    if "l \<noteq> lid" for d l
    using that n(1,2) by (auto simp: make_call_def)
  show "client_weight (standing_of (m lid) c) (cl y c lid) (pcs y c lid) (sigs y c lid)
      (make_call lid call (upd2 c lid (\<lambda>N. N - {#Rel_req w#} + {#Rel_rep w#}) (net y)) c lid)
    < client_weight (standing_of (srv y lid) c) (cl y c lid) (pcs y c lid) (sigs y c lid) (net y c lid)"
    using n(1,3,6) left_weight [OF here req] by (simp add: make_call_def)
  show "client_weight (standing_of (m lid) d) (cl y d lid) (pcs y d lid) (sigs y d lid)
      (make_call lid call (upd2 c lid (\<lambda>N. N - {#Rel_req w#} + {#Rel_rep w#}) (net y)) d lid)
    \<le> client_weight (standing_of (srv y lid) d) (cl y d lid) (pcs y d lid) (sigs y d lid) (net y d lid)"
    if "d \<noteq> c" for d
    using n that called_weight(2) here [of lid n] by (cases "d = n") (auto simp: make_call_def)
qed

lemma internal_weight:
  assumes "lk_step y Internal z" and ok: "\<And>l. lk_ok y l" and fin: "finite (known y)"
  shows "lk_weight z < lk_weight y \<and> known z = known y"
proof -
  note here = lk_okD(2) [OF ok]
  from assms(1) show ?thesis
  proof cases
    case (resume t c lid p s m)
    show ?thesis unfolding resume(1)
      by (rule local_step_weight [OF fin resume(4)]) (rule resume_weight [OF here resume(2,3,4)])
  next
    case (reply t st c lid s m)
    show ?thesis unfolding reply(1)
      by (rule local_step_weight [OF fin reply(3)]) (use event_weight(1) [OF here reply(2,3)] in simp)
  next
    case (release_reply t c lid sig m)
    show ?thesis unfolding release_reply(1)
      by (rule local_step_weight [OF fin release_reply(3)]) (rule event_weight(2) [OF here release_reply(2,3)])
  next
    case (revoke c lid s m)
    show ?thesis unfolding revoke(1) id_apply
      by (rule local_step_weight [OF fin revoke(3) [unfolded cc_revoke_handler_def]])
        (use event_weight(3) [OF here revoke(2,3)] in simp)
  next
    case (revoke_reply c lid sig m)
    show ?thesis unfolding revoke_reply(1)
      by (rule local_step_weight [OF fin revoke_reply(3)])
        (use event_weight(4) [OF here revoke_reply(2,3)] in simp)
  next
    case (retry c lid sig m)
    show ?thesis unfolding retry(1)
      by (rule local_step_weight [OF fin retry(3) [unfolded cc_retry_handler_def]])
        (use event_weight(5) [OF here retry(2,3)] in simp)
  next
    case (srv_acquire t c lid call st m)
    show ?thesis unfolding srv_acquire(1) by (rule srv_acquire_weight [OF ok fin srv_acquire(2,3)])
  next
    case (srv_release w c lid call st m)
    show ?thesis unfolding srv_release(1) by (rule srv_release_weight [OF ok fin srv_release(2,3)])
  qed
qed

text \<open>Only finitely many locks are known to finitely many clients.\<close>

lemma known_acquire: "known (local_step c lid m p g n y) \<subseteq> insert (c, lid) (known y)"
  if "cc_acquire lid t (cl y c) = Inr (s, m)"
  using cc_acquire_other [OF that] by (auto simp: known_def local_step_def split: if_splits)

lemma lk_step_known:
  assumes "lk_step y a z" and ok: "\<And>l. lk_ok y l" and fin: "finite (known y)"
  shows "finite (known z)"
  using assms(1)
proof cases
  case (acquire c lid t s m)
  then show ?thesis using known_acquire [OF acquire(4)] fin by (metis finite_insert finite_subset)
next
  case (release c lid t s sig m)
  have "known (local_step c lid m p g n y) = known y" for p g n
    using release(4) by (intro local_step_known) (auto simp: cc_release_def res_simps)
  with release fin show ?thesis by simp
qed (use internal_weight [OF _ ok fin] assms(1) fin in auto)

lemma lk_reachable_finite: "lk_reachable y \<Longrightarrow> finite (known y)"
proof (induction rule: lk_reachable.induct)
  case start
  then show ?case by (simp add: known_def lk_start_def)
next
  case (step y a z)
  then show ?case using lk_step_known lk_reachable_ok by blast
qed

section \<open>Settling\<close>

abbreviation internal :: "lk_sys \<Rightarrow> lk_sys \<Rightarrow> bool" where
  "internal y z \<equiv> lk_step y Internal z"

lemma internal_run:
  assumes "lk_reachable y" "(internal ^^ n) y z"
  shows "lk_reachable z \<and> n + lk_weight z \<le> lk_weight y"
  using assms(2)
proof (induction n arbitrary: z)
  case 0
  with assms(1) show ?case by simp
next
  case (Suc n)
  then obtain x where x: "(internal ^^ n) y x" "internal x z" by auto
  have r: "lk_reachable x" "n + lk_weight x \<le> lk_weight y" using Suc.IH [OF x(1)] by blast+
  have "lk_weight z < lk_weight x"
    using internal_weight [OF x(2) lk_reachable_ok [OF r(1)] lk_reachable_finite [OF r(1)]] by blast
  with r x(2) show ?case using lk_reachable.step by auto
qed

text \<open>
  C9. The caching lock service settles. From any reachable state, with any delay and order of
  the calls in transit, the server and the clients take at most sixteen steps per client and
  lock by themselves; and when they take no more, every lock that some thread has asked for
  or is giving back is held by a thread. No sequence of refusals, retries and revocations goes
  round for ever.
\<close>

theorem lk_settles:
  assumes "lk_reachable y" and "(internal ^^ n) y z"
  shows "n \<le> 16 * card (known y) \<and>
    ((\<exists>x. internal z x) \<or>
     (\<forall>c lid t. pcs z c lid t = Idle \<or> (\<exists>d u. pcs z d lid u = Holding)))"
proof -
  have z: "lk_reachable z" "n \<le> lk_weight y" using internal_run [OF assms] by auto
  have "lk_weight y \<le> card (known y) * 16"
    unfolding lk_weight_def using sum_bounded_above [of "known y" "weight_at y" 16] weight_at_bound by simp
  then have "n \<le> 16 * card (known y)" using z(2) by simp
  then show ?thesis using lk_ok_progress [OF lk_reachable_ok [OF z(1)]] by blast
qed

theorem lk_settles_witness:
  "\<exists>z. (internal ^^ 2) lk_asked z \<and> pcs z ''a'' 7 1 = Holding \<and> 2 \<le> 16 * card (known lk_asked)"
proof -
  have "(internal ^^ 2) lk_asked lk_held" using lk_held_steps by (auto simp: numeral_2_eq_2)
  moreover from lk_settles [OF lk_held_steps(3) this] have "2 \<le> 16 * card (known lk_asked)" by blast
  moreover have "pcs lk_held ''a'' 7 1 = Holding" by (simp add: lk_run)
  ultimately show ?thesis by blast
qed

end
