(* ===== verification/Extent_Service.thy ===== *)
theory Extent_Service
  imports Inode_Correct
begin

text \<open>
  The interface between \<open>yfs_client.cc\<close> and the extent layer: the five operations of class
  \<open>extent_client\<close> as a record of functions on the state behind them, and the laws a file
  system built on them relies on.
\<close>

record 'w ext_ops =
  x_create :: "env \<Rightarrow> u32 \<Rightarrow> 'w \<Rightarrow> ((int \<times> extentid_t) \<times> 'w) res"
  x_get :: "env \<Rightarrow> extentid_t \<Rightarrow> 'w \<Rightarrow> ((int \<times> byte list) \<times> 'w) res"
  x_getattr :: "env \<Rightarrow> extentid_t \<Rightarrow> attr \<Rightarrow> 'w \<Rightarrow> ((int \<times> attr) \<times> 'w) res"
  x_put :: "env \<Rightarrow> extentid_t \<Rightarrow> byte list \<Rightarrow> 'w \<Rightarrow> (int \<times> 'w) res"
  x_remove :: "env \<Rightarrow> extentid_t \<Rightarrow> 'w \<Rightarrow> (int \<times> 'w) res"

text \<open>
  \<open>fs\<close> is the map of types and contents that the service stands for. An access to an extent
  succeeds when it is \<open>ready\<close>, and afterwards the extent is \<open>mine\<close>, which later accesses to
  any extent keep so; an access to an extent that was \<open>mine\<close> before leaves the others ready.
  An extent is removed when its owner, if any, can be reached. \<open>room\<close> is
  what a creation needs.
\<close>

locale extent_service =
  fixes x :: "'w ext_ops"
    and inv :: "'w \<Rightarrow> bool"
    and fs :: "'w \<Rightarrow> extentid_t \<rightharpoonup> (u16 \<times> byte list)"
    and ready :: "'w \<Rightarrow> extentid_t \<Rightarrow> bool"
    and mine :: "'w \<Rightarrow> extentid_t \<Rightarrow> bool"
    and reach :: "'w \<Rightarrow> extentid_t \<Rightarrow> bool"
    and room :: "'w \<Rightarrow> bool"
  assumes mine_ready: "inv w \<Longrightarrow> mine w i \<Longrightarrow> ready w i"
    and get_law: "inv w \<Longrightarrow> fs w i = Some (t, d) \<Longrightarrow> ready w i \<Longrightarrow>
      \<exists>w'. x_get x e i w = Inr ((0, d), w') \<and> inv w' \<and> fs w' = fs w \<and> mine w' i \<and>
        (\<forall>j. mine w j \<longrightarrow> mine w' j) \<and> (\<forall>j. reach w j \<longrightarrow> reach w' j) \<and> (room w \<longrightarrow> room w') \<and>
        (mine w i \<longrightarrow> (\<forall>j. ready w j \<longrightarrow> fs w j \<noteq> None \<longrightarrow> ready w' j))"
    and getattr_law: "inv w \<Longrightarrow> fs w i = Some (t, d) \<Longrightarrow> ready w i \<Longrightarrow>
      \<exists>a w'. x_getattr x e i a0 w = Inr ((0, a), w') \<and> a_type a = scast t \<and> inv w' \<and> fs w' = fs w \<and>
        (\<forall>j. ready w j \<longrightarrow> ready w' j) \<and> (\<forall>j. mine w j \<longrightarrow> mine w' j) \<and> (\<forall>j. reach w j \<longrightarrow> reach w' j) \<and> (room w \<longrightarrow> room w')"
    and put_law: "inv w \<Longrightarrow> fs w i = Some (t, d) \<Longrightarrow> ready w i \<Longrightarrow>
      \<exists>w'. x_put x e i buf w = Inr (0, w') \<and> inv w' \<and> fs w' = (fs w)(i \<mapsto> (t, buf)) \<and> mine w' i \<and>
        (\<forall>j. mine w j \<longrightarrow> mine w' j) \<and> (room w \<longrightarrow> room w') \<and>
        (mine w i \<longrightarrow> (\<forall>j. ready w j \<longrightarrow> fs w j \<noteq> None \<longrightarrow> ready w' j))"
    and create_law: "inv w \<Longrightarrow> room w \<Longrightarrow> heap_clean e \<Longrightarrow> (ucast type :: u16) \<noteq> 0 \<Longrightarrow>
      \<exists>i w'. x_create x e type w = Inr ((0, i), w') \<and> fs w i = None \<and> inv w' \<and>
        fs w' = (fs w)(i \<mapsto> (ucast type, [])) \<and> ready w' i \<and> (\<forall>j. mine w j \<longrightarrow> mine w' j)"
    and remove_law: "inv w \<Longrightarrow> fs w i = Some (t, d) \<Longrightarrow> reach w i \<Longrightarrow>
      \<exists>w'. x_remove x e i w = Inr (0, w') \<and> inv w' \<and> fs w' = (fs w)(i := None) \<and>
        (\<forall>j. mine w j \<longrightarrow> mine w' j)"
begin

text \<open>What is written is read back, and nothing else changes.\<close>

lemma put_get:
  assumes "inv w" "fs w i = Some (t, d)" "ready w i"
  shows "\<exists>w1 w2. x_put x e i buf w = Inr (0, w1) \<and> x_get x e' i w1 = Inr ((0, buf), w2) \<and>
    inv w2 \<and> fs w2 = (fs w)(i \<mapsto> (t, buf))"
proof -
  obtain w1 where w1: "x_put x e i buf w = Inr (0, w1)" "inv w1" "fs w1 = (fs w)(i \<mapsto> (t, buf))" "mine w1 i"
    using put_law [OF assms, of e buf] by blast
  have "fs w1 i = Some (t, buf)" using w1(3) by simp
  from get_law [OF w1(2) this mine_ready [OF w1(2,4)], of e'] w1 show ?thesis by auto
qed

end

end
