(* ===== verification/Yfs_Client.thy ===== *)
theory Yfs_Client
  imports Extent_Service
begin

text \<open>
  The file system operations of \<open>yfs_client.cc\<close>, on top of the operations of an extent client
  (\<open>x\<close>) and of a lock client. A \<open>lc->acquire(inum)\<close> of a lock that an earlier call has not
  given back never returns: the model notes the locks held and makes such a call \<open>Blocked\<close>.
  The state is the set of locks held and the state behind the extent client.
\<close>

section \<open>State and status codes\<close>

type_synonym inum = u64

record 'w yfs =
  held :: "inum set"
  ext :: 'w

definition Y_OK :: int where [simp]: "Y_OK = 0"
definition Y_RPCERR :: int where [simp]: "Y_RPCERR = 1"
definition Y_NOENT :: int where [simp]: "Y_NOENT = 2"
definition Y_IOERR :: int where [simp]: "Y_IOERR = 3"
definition Y_EXIST :: int where [simp]: "Y_EXIST = 4"

record fileinfo =
  fi_size :: u64
  fi_atime :: u64
  fi_mtime :: u64
  fi_ctime :: u64

record dirinfo =
  di_atime :: u64
  di_mtime :: u64
  di_ctime :: u64

definition lc_acquire :: "inum \<Rightarrow> 'w yfs \<Rightarrow> 'w yfs res" where
  "lc_acquire i s = guard Blocked (i \<notin> held s) (Inr (s\<lparr>held := insert i (held s)\<rparr>))"

definition lc_release :: "inum \<Rightarrow> 'w yfs \<Rightarrow> 'w yfs" where
  "lc_release i s = s\<lparr>held := held s - {i}\<rparr>"

text \<open>A call of the extent client.\<close>

definition ec_call :: "('w \<Rightarrow> ('r \<times> 'w) res) \<Rightarrow> 'w yfs \<Rightarrow> ('r \<times> 'w yfs) res" where
  "ec_call f s = and_then (f (ext s)) (\<lambda>(r, w). Inr (r, s\<lparr>ext := w\<rparr>))"

text \<open>An \<open>extent_protocol::attr\<close> on the stack, not yet written to.\<close>

definition stack_attr :: "env \<Rightarrow> attr" where
  "stack_attr e =
     (let b = local_buf e 20
      in \<lparr>a_type = get_u32 0 b, a_atime = get_u32 4 b, a_mtime = get_u32 8 b,
          a_ctime = get_u32 12 b, a_size = get_u32 16 b\<rparr>)"

section \<open>Directory entries\<close>

definition MAX_LENGTH :: nat where [simp]: "MAX_LENGTH = 64"

text \<open>
  \<open>entry_t\<close> in memory: \<open>inum\<close> at 0, \<open>name[MAX_LENGTH]\<close> at 8, \<open>name_length\<close> at 72, padding to
  80 bytes.
\<close>

definition ENTRY_BYTES :: nat where [simp]: "ENTRY_BYTES = 80"

record entry =
  en_inum :: u64
  en_name :: "byte list"
  en_name_length :: u32

definition load_entry :: "byte list \<Rightarrow> entry" where
  "load_entry b =
     \<lparr>en_inum = word_of_nat (le_dec (bytes_at 0 8 b)), en_name = bytes_at 8 MAX_LENGTH b,
      en_name_length = get_u32 72 b\<rparr>"

text \<open>
  An \<open>entry_t\<close> on the stack with its three fields set, as a string of \<open>sizeof(entry_t)\<close>
  bytes: the rest of the name and the padding are what the stack held.
\<close>

definition make_entry :: "env \<Rightarrow> inum \<Rightarrow> byte list \<Rightarrow> byte list res" where
  "make_entry e i name =
     guard Out_of_bounds (length name \<le> MAX_LENGTH)
       (Inr (memcpy 8 name
          (put_u32 72 (word_of_nat (length name))
             (memcpy 0 (le_enc 8 (unat i)) (local_buf e ENTRY_BYTES)))))"

text \<open>\<open>_name.assign(it->name, it->name_length)\<close>.\<close>

definition entry_name :: "entry \<Rightarrow> byte list res" where
  "entry_name it =
     guard Out_of_bounds (unat (en_name_length it) \<le> MAX_LENGTH)
       (Inr (take (unat (en_name_length it)) (en_name it)))"

definition parse_dir :: "byte list \<Rightarrow> entry list" where
  "parse_dir buf =
     map (\<lambda>i. load_entry (bytes_at (i * ENTRY_BYTES) ENTRY_BYTES buf)) [0..<length buf div ENTRY_BYTES]"

section \<open>Attributes\<close>

text \<open>The common shape of \<open>isfile\<close>, \<open>isdir\<close> and \<open>issymlink\<close>: an error returns at once, with
  the lock held.\<close>

definition yfs_is :: "'w ext_ops \<Rightarrow> env \<Rightarrow> u32 \<Rightarrow> inum \<Rightarrow> 'w yfs \<Rightarrow> (bool \<times> 'w yfs) res" where
  "yfs_is x e type i s =
     and_then (lc_acquire i s) (\<lambda>s.
     and_then (ec_call (x_getattr x e i (stack_attr e)) s) (\<lambda>((r, a), s).
       if r \<noteq> 0 then Inr (False, s)
       else Inr (a_type a = type, lc_release i s)))"

definition isfile :: "'w ext_ops \<Rightarrow> env \<Rightarrow> inum \<Rightarrow> 'w yfs \<Rightarrow> (bool \<times> 'w yfs) res" where
  "isfile x e i s = yfs_is x e T_FILE i s"

definition issymlink :: "'w ext_ops \<Rightarrow> env \<Rightarrow> inum \<Rightarrow> 'w yfs \<Rightarrow> (bool \<times> 'w yfs) res" where
  "issymlink x e i s = yfs_is x e T_SYMLINK i s"

definition isdir :: "'w ext_ops \<Rightarrow> env \<Rightarrow> inum \<Rightarrow> 'w yfs \<Rightarrow> (bool \<times> 'w yfs) res" where
  "isdir x e i s = yfs_is x e T_DIR i s"

definition getfile ::
    "'w ext_ops \<Rightarrow> env \<Rightarrow> inum \<Rightarrow> fileinfo \<Rightarrow> 'w yfs \<Rightarrow> ((int \<times> fileinfo) \<times> 'w yfs) res" where
  "getfile x e i fin s =
     and_then (lc_acquire i s) (\<lambda>s.
     and_then (ec_call (x_getattr x e i (stack_attr e)) s) (\<lambda>((r, a), s).
       if r \<noteq> 0 then Inr ((Y_IOERR, fin), s)
       else Inr ((Y_OK, \<lparr>fi_size = ucast (a_size a), fi_atime = ucast (a_atime a),
                         fi_mtime = ucast (a_mtime a), fi_ctime = ucast (a_ctime a)\<rparr>),
                 lc_release i s)))"

definition getdir ::
    "'w ext_ops \<Rightarrow> env \<Rightarrow> inum \<Rightarrow> dirinfo \<Rightarrow> 'w yfs \<Rightarrow> ((int \<times> dirinfo) \<times> 'w yfs) res" where
  "getdir x e i din s =
     and_then (lc_acquire i s) (\<lambda>s.
     and_then (ec_call (x_getattr x e i (stack_attr e)) s) (\<lambda>((r, a), s).
       if r \<noteq> 0 then Inr ((Y_IOERR, din), s)
       else Inr ((Y_OK, \<lparr>di_atime = ucast (a_atime a), di_mtime = ucast (a_mtime a),
                         di_ctime = ucast (a_ctime a)\<rparr>),
                 lc_release i s)))"

text \<open>\<open>std::string::resize\<close>, which throws beyond \<open>max_size()\<close>.\<close>

definition str_resize :: "u64 \<Rightarrow> byte list \<Rightarrow> byte list res" where
  "str_resize n buf =
     guard Thrown (n < 2 ^ 63) (Inr (take (unat n) (buf @ replicate (unat n - length buf) 0)))"

text \<open>\<open>std::string::replace(pos, len, str)\<close>.\<close>

definition str_replace :: "u64 \<Rightarrow> u64 \<Rightarrow> byte list \<Rightarrow> byte list \<Rightarrow> byte list res" where
  "str_replace pos len str buf =
     guard Thrown (unat pos \<le> length buf)
       (Inr (take (unat pos) buf @ str @ drop (unat pos + unat len) buf))"

definition setattr :: "'w ext_ops \<Rightarrow> env \<Rightarrow> inum \<Rightarrow> u64 \<Rightarrow> 'w yfs \<Rightarrow> (int \<times> 'w yfs) res" where
  "setattr x e i sz s =
     and_then (lc_acquire i s) (\<lambda>s.
     and_then (ec_call (x_get x e i) s) (\<lambda>((r, buf), s).
       if r \<noteq> 0 then Inr (r, s)
       else and_then (str_resize sz buf) (\<lambda>buf.
            and_then (ec_call (x_put x (later e) i buf) s) (\<lambda>(r, s).
              Inr (r, lc_release i s)))))"

section \<open>Directories\<close>

definition readdir0 ::
    "'w ext_ops \<Rightarrow> env \<Rightarrow> inum \<Rightarrow> 'w yfs \<Rightarrow> ((int \<times> entry list) \<times> 'w yfs) res" where
  "readdir0 x e dir s =
     and_then (ec_call (x_get x e dir) s) (\<lambda>((r, buf), s).
       if r \<noteq> 0 then Inl Exit
       else and_then (ec_call (x_getattr x (later e) dir (stack_attr e)) s) (\<lambda>((r, a), s).
         if a_type a \<noteq> T_DIR then Inl Exit
         else Inr ((Y_OK, parse_dir buf), s)))"

fun find_entry :: "byte list \<Rightarrow> entry list \<Rightarrow> inum option res" where
  "find_entry name [] = Inr None"
| "find_entry name (it # its) =
     and_then (entry_name it) (\<lambda>n. if n = name then Inr (Some (en_inum it)) else find_entry name its)"

text \<open>\<open>found\<close> and \<open>ino_out\<close> of the code as one option.\<close>

definition lookup0 ::
    "'w ext_ops \<Rightarrow> env \<Rightarrow> inum \<Rightarrow> byte list \<Rightarrow> 'w yfs \<Rightarrow> ((int \<times> inum option) \<times> 'w yfs) res" where
  "lookup0 x e parent name s =
     and_then (readdir0 x e parent s) (\<lambda>((r, es), s).
     and_then (find_entry name es) (\<lambda>found.
       Inr ((if found = None then Y_OK else Y_EXIST, found), s)))"

definition lookup ::
    "'w ext_ops \<Rightarrow> env \<Rightarrow> inum \<Rightarrow> byte list \<Rightarrow> 'w yfs \<Rightarrow> ((int \<times> inum option) \<times> 'w yfs) res" where
  "lookup x e parent name s =
     and_then (lc_acquire parent s) (\<lambda>s.
     and_then (lookup0 x e parent name s) (\<lambda>(r, s). Inr (r, lc_release parent s)))"

fun dirents :: "entry list \<Rightarrow> (byte list \<times> inum) list res" where
  "dirents [] = Inr []"
| "dirents (it # its) =
     and_then (entry_name it) (\<lambda>n. and_then (dirents its) (\<lambda>ds. Inr ((n, en_inum it) # ds)))"

definition readdir ::
    "'w ext_ops \<Rightarrow> env \<Rightarrow> inum \<Rightarrow> 'w yfs \<Rightarrow> ((int \<times> (byte list \<times> inum) list) \<times> 'w yfs) res" where
  "readdir x e dir s =
     and_then (lc_acquire dir s) (\<lambda>s.
     and_then (readdir0 x e dir s) (\<lambda>((r, es), s).
     and_then (dirents es) (\<lambda>ds. Inr ((r, ds), lc_release dir s))))"

text \<open>
  \<open>create\<close> and \<open>mkdir\<close> are the same code but for the type of the new extent. The status of
  \<open>ec->create\<close> and of \<open>ec->put\<close> is not looked at.
\<close>

definition create_node ::
    "'w ext_ops \<Rightarrow> env \<Rightarrow> u32 \<Rightarrow> inum \<Rightarrow> byte list \<Rightarrow> inum \<Rightarrow> 'w yfs \<Rightarrow> ((int \<times> inum) \<times> 'w yfs) res" where
  "create_node x e type parent name ino_out s =
     and_then (lc_acquire parent s) (\<lambda>s.
     and_then (lookup0 x e parent name s) (\<lambda>((r, found), s).
       if found \<noteq> None then Inr ((Y_EXIST, ino_out), lc_release parent s)
       else and_then (ec_call (x_create x (later e) type) s) (\<lambda>((r, ino_out), s).
            and_then (ec_call (x_get x (later (later e)) parent) s) (\<lambda>((r, buf), s).
              if r \<noteq> 0 then Inl Exit
              else and_then (make_entry e ino_out name) (\<lambda>str.
                   and_then (ec_call (x_put x (later (later (later e))) parent (buf @ str)) s) (\<lambda>(r, s).
                     Inr ((Y_OK, ino_out), lc_release parent s)))))))"

definition create ::
    "'w ext_ops \<Rightarrow> env \<Rightarrow> inum \<Rightarrow> byte list \<Rightarrow> inum \<Rightarrow> 'w yfs \<Rightarrow> ((int \<times> inum) \<times> 'w yfs) res" where
  "create x e parent name ino_out s = create_node x e T_FILE parent name ino_out s"

definition mkdir ::
    "'w ext_ops \<Rightarrow> env \<Rightarrow> inum \<Rightarrow> byte list \<Rightarrow> inum \<Rightarrow> 'w yfs \<Rightarrow> ((int \<times> inum) \<times> 'w yfs) res" where
  "mkdir x e parent name ino_out s = create_node x e T_DIR parent name ino_out s"

text \<open>The search of \<open>unlink\<close>: the entries before the one found, that one, and the rest.\<close>

fun split_entry :: "byte list \<Rightarrow> entry list \<Rightarrow> (entry list \<times> entry \<times> entry list) option res" where
  "split_entry name [] = Inr None"
| "split_entry name (it # its) =
     and_then (entry_name it) (\<lambda>n.
       if n = name then Inr (Some ([], it, its))
       else and_then (split_entry name its) (\<lambda>r.
         Inr (map_option (\<lambda>(pre, m, post). (it # pre, m, post)) r)))"

text \<open>Each remaining entry is copied into a fresh \<open>entry_t\<close>.\<close>

fun rebuild :: "env \<Rightarrow> entry list \<Rightarrow> byte list res" where
  "rebuild e [] = Inr []"
| "rebuild e (it # its) =
     and_then (entry_name it) (\<lambda>n.
     and_then (make_entry e (en_inum it) n) (\<lambda>b.
     and_then (rebuild e its) (\<lambda>bs. Inr (b @ bs))))"

definition unlink :: "'w ext_ops \<Rightarrow> env \<Rightarrow> inum \<Rightarrow> byte list \<Rightarrow> 'w yfs \<Rightarrow> (int \<times> 'w yfs) res" where
  "unlink x e parent name s =
     and_then (lc_acquire parent s) (\<lambda>s.
     and_then (readdir0 x e parent s) (\<lambda>((r, file_list), s).
     and_then (split_entry name file_list) (\<lambda>found.
       case found of
         None \<Rightarrow> Inr (Y_NOENT, lc_release parent s)
       | Some (pre, it, post) \<Rightarrow>
           and_then (ec_call (x_remove x (later (later e)) (en_inum it)) s) (\<lambda>(r, s).
           and_then (rebuild e (pre @ post)) (\<lambda>buf.
           and_then (ec_call (x_put x (later (later (later e))) parent buf) s) (\<lambda>(r, s).
             Inr (Y_OK, lc_release parent s)))))))"

definition symlink ::
    "'w ext_ops \<Rightarrow> env \<Rightarrow> inum \<Rightarrow> byte list \<Rightarrow> byte list \<Rightarrow> inum \<Rightarrow> 'w yfs \<Rightarrow> ((int \<times> inum) \<times> 'w yfs) res" where
  "symlink x e parent name link ino_out s =
     and_then (lc_acquire parent s) (\<lambda>s.
     and_then (ec_call (x_get x e parent) s) (\<lambda>((r, buf), s).
     and_then (lookup0 x (later e) parent name s) (\<lambda>((r, found), s).
       if found \<noteq> None then Inr ((Y_EXIST, ino_out), lc_release parent s)
       else and_then (ec_call (x_create x (later (later e)) T_SYMLINK) s) (\<lambda>((r, ino_out), s).
            and_then (ec_call (x_put x (later (later (later e))) ino_out link) s) (\<lambda>(r, s).
            and_then (make_entry e ino_out name) (\<lambda>str.
            and_then (ec_call (x_put x (later (later (later (later e)))) parent (buf @ str)) s) (\<lambda>(r', s).
              Inr ((r, ino_out), lc_release parent s))))))))"

section \<open>File contents\<close>

text \<open>The result parameter \<open>data\<close> keeps its old value where the code does not set it.\<close>

definition read ::
    "'w ext_ops \<Rightarrow> env \<Rightarrow> inum \<Rightarrow> u64 \<Rightarrow> u64 \<Rightarrow> byte list \<Rightarrow> 'w yfs \<Rightarrow>
     ((int \<times> byte list) \<times> 'w yfs) res" where
  "read x e i sz off data s =
     and_then (lc_acquire i s) (\<lambda>s.
     and_then (ec_call (x_get x e i) s) (\<lambda>((r, buf), s).
       if r \<noteq> 0 then Inr ((r, data), s)
       else if length buf \<le> unat (ucast off :: u32) then Inr ((r, []), s)
       else guard Thrown (unat off \<le> length buf)
              (Inr ((r, take (unat sz) (drop (unat off) buf)), lc_release i s))))"

definition yfs_write ::
    "'w ext_ops \<Rightarrow> env \<Rightarrow> inum \<Rightarrow> u64 \<Rightarrow> u64 \<Rightarrow> byte list \<Rightarrow> 'w yfs \<Rightarrow> ((int \<times> u64) \<times> 'w yfs) res" where
  "yfs_write x e i sz off data s =
     and_then (lc_acquire i s) (\<lambda>s.
     and_then (ec_call (x_get x e i) s) (\<lambda>((r, buf), s).
     guard Out_of_bounds (unat sz \<le> length data)
      (let str = take (unat sz) data
       in and_then
         (if unat (ucast off :: u32) \<le> length buf
          then and_then (str_replace off sz str buf) (\<lambda>buf. Inr (buf, sz))
          else and_then (str_resize (sz + off) buf) (\<lambda>buf'.
               and_then (str_replace off sz str buf') (\<lambda>buf''.
                 Inr (buf'', sz + off - word_of_nat (length buf)))))
         (\<lambda>(buf, bytes_written).
            and_then (ec_call (x_put x (later e) i buf) s) (\<lambda>(r, s).
              Inr ((Y_OK, bytes_written), lc_release i s))))))"

definition readlink ::
    "'w ext_ops \<Rightarrow> env \<Rightarrow> inum \<Rightarrow> 'w yfs \<Rightarrow> ((int \<times> byte list) \<times> 'w yfs) res" where
  "readlink x e i s =
     and_then (lc_acquire i s) (\<lambda>s.
     and_then (ec_call (x_get x e i) s) (\<lambda>((r, buf), s). Inr ((r, buf), lc_release i s)))"

text \<open>The constructor empties the root directory, whatever it holds.\<close>

definition yfs_new :: "'w ext_ops \<Rightarrow> env \<Rightarrow> 'w \<Rightarrow> 'w yfs res" where
  "yfs_new x e w =
     and_then (lc_acquire 1 \<lparr>held = {}, ext = w\<rparr>) (\<lambda>s.
     and_then (ec_call (x_put x e 1 []) s) (\<lambda>(r, s). Inr (lc_release 1 s)))"

end
