(* ===== verification/Names.thy ===== *)
theory Names
  imports Yfs_Client Lock_Client_Cache
begin

text \<open>
  Numbers as text: the decimal input and output of the standard library as far as the program
  uses it, \<open>n2i\<close> and \<open>filename\<close> of \<open>yfs_client.cc\<close>, and how a lock client and an extent client
  choose the port they listen on and the name under which the servers know them.
\<close>

unbundle bit_operations_syntax

section \<open>Decimal text\<close>

definition digit :: "nat \<Rightarrow> char" where
  "digit d = char_of (48 + d)"

definition digit_value :: "char \<Rightarrow> nat" where
  "digit_value c = of_char c - 48"

definition is_digit :: "char \<Rightarrow> bool" where
  "is_digit c \<longleftrightarrow> 48 \<le> (of_char c :: nat) \<and> of_char c \<le> (57 :: nat)"

definition is_space :: "char \<Rightarrow> bool" where
  "is_space c \<longleftrightarrow> of_char c \<in> {9, 10, 11, 12, 13, 32 :: nat}"

text \<open>\<open>ost << n\<close> for an unsigned number.\<close>

fun print_nat :: "nat \<Rightarrow> string" where
  "print_nat n = (if n < 10 then [digit n] else print_nat (n div 10) @ [digit (n mod 10)])"

declare print_nat.simps [simp del]

definition read_digits :: "string \<Rightarrow> nat" where
  "read_digits s = fold (\<lambda>c n. 10 * n + digit_value c) (takeWhile is_digit s) 0"

definition read_sign :: "string \<Rightarrow> bool \<times> string" where
  "read_sign s = (case s of c # cs \<Rightarrow>
     if c = CHR ''-'' then (True, cs) else if c = CHR ''+'' then (False, cs) else (False, s) | [] \<Rightarrow> (False, []))"

text \<open>
  \<open>ist >> x\<close> for an \<open>unsigned long long\<close>: white space and a sign are skipped, the value of a
  number out of range is the greatest one, a text without a number gives 0. At the end of the
  stream the variable keeps what it held, which is \<open>x0\<close>.
\<close>

definition scan_u64 :: "u64 \<Rightarrow> string \<Rightarrow> u64" where
  "scan_u64 x0 s =
     (let s = dropWhile is_space s; (neg, t) = read_sign s; n = read_digits t
      in if s = [] then x0
         else if n \<ge> 2 ^ 64 then - 1
         else if neg then - word_of_nat n else word_of_nat n)"

text \<open>\<open>atoi\<close>, for numbers in the range of an \<open>int\<close>.\<close>

definition atoi :: "string \<Rightarrow> int" where
  "atoi s = (let (neg, t) = read_sign (dropWhile is_space s); n = int (read_digits t) in if neg then - n else n)"

section \<open>Inode numbers as names\<close>

text \<open>\<open>finum\<close> is not initialised: \<open>junk\<close> is what it holds.\<close>

definition n2i :: "u64 \<Rightarrow> string \<Rightarrow> inum" where
  "n2i junk n = scan_u64 junk n"

definition filename :: "inum \<Rightarrow> string" where
  "filename i = print_nat (unat i)"

section \<open>The address of a client\<close>

text \<open>
  \<open>crand seed\<close> is the first \<open>rand()\<close> after \<open>srand(seed)\<close>; \<open>last_port\<close> is a static variable of the
  class, 666 for extent clients and 0 for lock clients when the process starts.
\<close>

record address =
  a_port :: nat
  a_id :: string

definition host_port :: "nat \<Rightarrow> string" where
  "host_port port = ''127.0.0.1'' @ '':'' @ print_nat port"

definition rextent_port :: "nat \<Rightarrow> nat" where
  "rextent_port r = (r mod 32000) OR push_bit 10 1"

definition extent_client_new :: "(u32 \<Rightarrow> nat) \<Rightarrow> u32 \<Rightarrow> nat \<Rightarrow> (address \<times> nat)" where
  "extent_client_new crand now last_port =
     (let port = rextent_port (crand (now XOR word_of_nat last_port))
      in (\<lparr>a_port = port, a_id = host_port port\<rparr>, port))"

definition lock_client_cache_new ::
    "(u32 \<Rightarrow> nat) \<Rightarrow> u32 \<Rightarrow> nat \<Rightarrow> ((address \<times> lock_client_cache \<times> rlock_rpc list) \<times> nat)" where
  "lock_client_cache_new crand now last_port =
     (let port = rlock_port (crand (now XOR word_of_nat last_port))
      in ((\<lparr>a_port = port, a_id = host_port port\<rparr>, Map.empty, [RPC_revoke, RPC_retry]), port))"

section \<open>Printing and reading\<close>

lemma of_char_digit: "d < 10 \<Longrightarrow> of_char (digit d) = 48 + d"
  by (simp add: digit_def)

lemma digit_facts [simp]:
  "d < 10 \<Longrightarrow> is_digit (digit d)" "d < 10 \<Longrightarrow> digit_value (digit d) = d" "d < 10 \<Longrightarrow> \<not> is_space (digit d)"
  by (simp_all add: is_digit_def digit_value_def is_space_def of_char_digit)

lemma digit_no_sign [simp]:
  assumes "d < 10"
  shows "digit d \<noteq> CHR ''-''" "digit d \<noteq> CHR ''+''"
proof -
  have "of_char (digit d) \<noteq> (of_char (CHR ''-'') :: nat)" "of_char (digit d) \<noteq> (of_char (CHR ''+'') :: nat)"
    by (simp_all add: of_char_digit [OF assms])
  then show "digit d \<noteq> CHR ''-''" "digit d \<noteq> CHR ''+''" by metis+
qed

lemma print_nat_digits: "\<forall>c \<in> set (print_nat n). is_digit c"
  by (induction n rule: print_nat.induct) (subst print_nat.simps, auto)

lemma print_nat_Cons: "\<exists>d cs. d < 10 \<and> print_nat n = digit d # cs"
proof (induction n rule: print_nat.induct)
  case (1 n)
  show ?case
  proof (cases "n < 10")
    case False
    from 1 [OF False] show ?thesis by (subst print_nat.simps) (auto simp: False)
  qed (subst print_nat.simps, auto)
qed

lemma read_print_nat: "read_digits (print_nat n) = n"
proof -
  have "fold (\<lambda>c k. 10 * k + digit_value c) (print_nat n) 0 = n"
    by (induction n rule: print_nat.induct) (subst print_nat.simps, auto)
  moreover have "takeWhile is_digit (print_nat n) = print_nat n"
    using print_nat_digits takeWhile_eq_all_conv by blast
  ultimately show ?thesis by (simp only: read_digits_def)
qed

lemma print_nat_inj [simp]: "print_nat m = print_nat n \<longleftrightarrow> m = n"
  using read_print_nat by metis

lemma read_sign_print [simp]: "read_sign (print_nat n) = (False, print_nat n)"
  "print_nat n \<noteq> []" "dropWhile is_space (print_nat n) = print_nat n"
  using print_nat_Cons [of n] by (auto simp: read_sign_def)

lemma atoi_print: "atoi (print_nat n) = int n"
  by (simp add: atoi_def read_print_nat)

text \<open>
  Inode numbers survive as text: reading with \<open>n2i\<close> what \<open>filename\<close> printed gives the number
  back, for every 64-bit number, and different numbers have different names. A text with no
  number in it is not rejected: for the empty one \<open>n2i\<close> returns a variable it never set.
\<close>

theorem n2i_filename:
  "n2i junk (filename i) = i \<and> (filename i = filename j \<longleftrightarrow> i = j) \<and> n2i junk [] = junk"
proof -
  have "unat i < 2 ^ 64" using unsigned_less [of i] by simp
  then show ?thesis
    by (simp add: n2i_def filename_def scan_u64_def Let_def read_print_nat unsigned_word_eqI)
      (metis word_unat_eq_iff)
qed

section \<open>Ports\<close>

lemma port_bounds:
  "1024 \<le> (r mod 32000) OR push_bit 10 (1 :: nat)" "(r mod 32000) OR push_bit 10 (1 :: nat) < 32768"
proof -
  have i: "int ((r mod 32000) OR push_bit 10 1) = 1024 OR int (r mod 32000)"
    by (simp add: of_nat_or_eq or.commute push_bit_eq_mult)
  have "1024 \<le> 1024 OR int (r mod 32000)" by (rule or_greater_eq) simp
  moreover have "1024 OR int (r mod 32000) < 32768" using OR_upper [of 1024 15 "int (r mod 32000)"] by simp
  ultimately show "1024 \<le> (r mod 32000) OR push_bit 10 (1 :: nat)" "(r mod 32000) OR push_bit 10 (1 :: nat) < 32768"
    using i by linarith+
qed

lemma host_port_inj [simp]: "host_port p = host_port q \<longleftrightarrow> p = q"
  by (simp add: host_port_def)

text \<open>
  The address of a client: the port that a lock client or an extent client picks is never
  a privileged one and fits a port number; the name it gives the server is that of the port, so
  two clients have the same name exactly if they have picked the same port. The next client of
  the process starts from this port.
\<close>

theorem client_address:
  "\<exists>p q. lock_client_cache_new crand now prev =
      ((\<lparr>a_port = p, a_id = host_port p\<rparr>, Map.empty, [RPC_revoke, RPC_retry]), p) \<and>
    extent_client_new crand now prev = (\<lparr>a_port = q, a_id = host_port q\<rparr>, q) \<and>
    1024 \<le> p \<and> p < 32768 \<and> 1024 \<le> q \<and> q < 32768 \<and> (host_port p = host_port q \<longleftrightarrow> p = q)"
  using port_bounds
  by (simp add: lock_client_cache_new_def extent_client_new_def rlock_port_def rextent_port_def Let_def)

end
