(* ===== verification/Lock_Tester.thy ===== *)
theory Lock_Tester
  imports Lock_Settle Names
begin

text \<open>
  The tester of the lock service, \<open>lock_tester.cc\<close>: five tests in which threads acquire and
  release locks through caching lock clients, count the grants of each lock in \<open>ct\<close>, and stop
  the program when a lock is granted twice or released without having been granted. A thread is
  the list of the calls it still makes; threads run against the lock service of \<open>Lock_System\<close>
  in any order.
\<close>

unbundle bit_operations_syntax

section \<open>The checks\<close>

definition nt :: nat where "nt = 6"
definition lt_a :: lockid_t where "lt_a = 1"
definition lt_b :: lockid_t where "lt_b = 2"

definition ct_index :: "lockid_t \<Rightarrow> nat" where
  "ct_index lid = unat (lid AND 0xff)"

definition check_grant :: "lockid_t \<Rightarrow> int list \<Rightarrow> int list res" where
  "check_grant lid ct =
     (let x = ct_index lid in if ct ! x \<noteq> 0 then Inl Exit else Inr (ct[x := ct ! x + 1]))"

definition check_release :: "lockid_t \<Rightarrow> int list \<Rightarrow> int list res" where
  "check_release lid ct =
     (let x = ct_index lid in if ct ! x \<noteq> 1 then Inl Exit else Inr (ct[x := ct ! x - 1]))"

section \<open>The tests\<close>

text \<open>
  The calls of a test; the first argument is the index into \<open>lc\<close>. \<open>Acquiring\<close> and \<open>Releasing\<close>
  are calls that have begun and not returned.
\<close>

datatype lt_call =
  Acquire nat lockid_t | Acquiring nat lockid_t | Check_grant lockid_t
| Release nat lockid_t | Releasing nat lockid_t | Check_release lockid_t

definition test1 :: "lt_call list" where
  "test1 =
     [Acquire 0 lt_a, Check_grant lt_a, Release 0 lt_a, Check_release lt_a,
      Acquire 0 lt_a, Check_grant lt_a, Release 0 lt_a, Check_release lt_a,
      Acquire 0 lt_a, Check_grant lt_a, Acquire 0 lt_b, Check_grant lt_b,
      Release 0 lt_b, Check_release lt_b, Release 0 lt_a, Check_release lt_a]"

definition test2 :: "nat \<Rightarrow> lt_call list" where
  "test2 i = [Acquire i lt_a, Check_grant lt_a, Check_release lt_a, Release i lt_a]"

definition test3 :: "nat \<Rightarrow> lt_call list" where
  "test3 i = concat (map (\<lambda>j. [Acquire i lt_a, Check_grant lt_a, Check_release lt_a, Release i lt_a]) [0..<10])"

definition test4 :: "nat \<Rightarrow> lt_call list" where
  "test4 i = concat (map (\<lambda>j. [Acquire 0 lt_a, Check_grant lt_a, Check_release lt_a, Release 0 lt_a]) [0..<10])"

definition test5 :: "nat \<Rightarrow> lt_call list" where
  "test5 i = concat (map (\<lambda>j.
     [if i < 5 then Acquire 0 lt_a else Acquire 1 lt_a, Check_grant lt_a, Check_release lt_a,
      if i < 5 then Release 0 lt_a else Release 1 lt_a]) [0..<10])"

text \<open>The number of the test to run, 0 for all of them.\<close>

definition lt_args :: "string list \<Rightarrow> int res" where
  "lt_args argv =
     (if length argv < 2 then Inl Exit
      else if length argv > 2
      then let test = atoi (argv ! 2) in if test < 1 \<or> test > 5 then Inl Exit else Inr test
      else Inr 0)"

text \<open>
  \<open>main\<close>: the tests one after the other, each with the threads it starts and then joins. The
  first one runs in the main thread.
\<close>

definition lt_main :: "int \<Rightarrow> lt_call list list list" where
  "lt_main test =
     (if test = 0 \<or> test = 1 then [[test1]] else []) @
     (if test = 0 \<or> test = 2 then [map test2 [0..<nt]] else []) @
     (if test = 0 \<or> test = 3 then [map test3 [0..<nt]] else []) @
     (if test = 0 \<or> test = 4 then [map test4 [0..<2]] else []) @
     (if test = 0 \<or> test = 5 then [map test5 [0..<nt]] else [])"

section \<open>Runs\<close>

text \<open>
  \<open>todo\<close> are the running threads, \<open>phases\<close> the tests to come, \<open>exited\<close> tells that a check has
  called \<open>exit(1)\<close>.
\<close>

record lt_sys =
  lk :: lk_sys
  ct :: "int list"
  todo :: "lt_call list list"
  phases :: "lt_call list list list"
  exited :: bool

definition lt_start :: "int \<Rightarrow> lt_sys" where
  "lt_start test =
     \<lparr>lk = lk_start, ct = replicate 256 0, todo = [], phases = lt_main test, exited = False\<rparr>"

definition lt_checked :: "int list res \<Rightarrow> lt_sys \<Rightarrow> lt_sys" where
  "lt_checked r s = (case r of Inl f \<Rightarrow> s\<lparr>exited := True\<rparr> | Inr c \<Rightarrow> s\<lparr>ct := c\<rparr>)"

text \<open>
  A step of the tester: the lock service goes on by itself; thread \<open>t\<close> begins a call, the call
  returns, or it makes a check; or all threads have ended and the next test starts. \<open>lc\<close> gives
  the name of each client.
\<close>

inductive lt_step :: "(nat \<Rightarrow> client) \<Rightarrow> lt_sys \<Rightarrow> lt_sys \<Rightarrow> bool" for lc where
  lt_internal: "\<not> exited s \<Longrightarrow> internal (lk s) z \<Longrightarrow> lt_step lc s (s\<lparr>lk := z\<rparr>)"
| lt_acquire: "\<not> exited s \<Longrightarrow> t < length (todo s) \<Longrightarrow> todo s ! t = Acquire k lid # rest \<Longrightarrow>
    pcs (lk s) (lc k) lid t = Idle \<Longrightarrow> cc_acquire lid t (cl (lk s) (lc k)) = Inr (u, m) \<Longrightarrow>
    lt_step lc s (s\<lparr>lk := local_step (lc k) lid m (\<lambda>P. P(t := pc_of u)) id (\<lambda>N. N + asks t u) (lk s),
      todo := (todo s)[t := Acquiring k lid # rest]\<rparr>)"
| lt_acquired: "\<not> exited s \<Longrightarrow> t < length (todo s) \<Longrightarrow> todo s ! t = Acquiring k lid # rest \<Longrightarrow>
    pcs (lk s) (lc k) lid t = Holding \<Longrightarrow> lt_step lc s (s\<lparr>todo := (todo s)[t := rest]\<rparr>)"
| lt_grant: "\<not> exited s \<Longrightarrow> t < length (todo s) \<Longrightarrow> todo s ! t = Check_grant lid # rest \<Longrightarrow>
    lt_step lc s (lt_checked (check_grant lid (ct s)) (s\<lparr>todo := (todo s)[t := rest]\<rparr>))"
| lt_ungrant: "\<not> exited s \<Longrightarrow> t < length (todo s) \<Longrightarrow> todo s ! t = Check_release lid # rest \<Longrightarrow>
    lt_step lc s (lt_checked (check_release lid (ct s)) (s\<lparr>todo := (todo s)[t := rest]\<rparr>))"
| lt_release: "\<not> exited s \<Longrightarrow> t < length (todo s) \<Longrightarrow> todo s ! t = Release k lid # rest \<Longrightarrow>
    pcs (lk s) (lc k) lid t = Holding \<Longrightarrow> cc_release lid (cl (lk s) (lc k)) = Inr ((u, sig), m) \<Longrightarrow>
    lt_step lc s (s\<lparr>lk := local_step (lc k) lid m (\<lambda>P. P(t := if u = Call_release then Leaving else Idle))
        (signal sig (pcs (lk s) (lc k) lid)) (\<lambda>N. N + gives (Some t) u) (lk s),
      todo := (todo s)[t := Releasing k lid # rest]\<rparr>)"
| lt_released: "\<not> exited s \<Longrightarrow> t < length (todo s) \<Longrightarrow> todo s ! t = Releasing k lid # rest \<Longrightarrow>
    pcs (lk s) (lc k) lid t = Idle \<Longrightarrow> lt_step lc s (s\<lparr>todo := (todo s)[t := rest]\<rparr>)"
| lt_join: "\<not> exited s \<Longrightarrow> (\<forall>p \<in> set (todo s). p = []) \<Longrightarrow> phases s = p # ps \<Longrightarrow>
    lt_step lc s (s\<lparr>todo := p, phases := ps\<rparr>)"

definition lt_passed :: "lt_sys \<Rightarrow> bool" where
  "lt_passed s \<longleftrightarrow> \<not> exited s \<and> (\<forall>p \<in> set (todo s). p = []) \<and> phases s = []"


section \<open>What the threads hold and count\<close>

text \<open>
  \<open>calls_ok lc multi H C p\<close>: from a state in which the thread holds the locks \<open>H\<close> and counts the
  indices \<open>C\<close>, the calls \<open>p\<close> acquire what they release, count what they hold, and end with
  nothing. With other threads around (\<open>multi\<close>) a thread holds one lock at a time and counts it
  only while it holds it.
\<close>

fun calls_ok :: "(nat \<Rightarrow> client) \<Rightarrow> bool \<Rightarrow> (client \<times> lockid_t) set \<Rightarrow> nat set \<Rightarrow> lt_call list \<Rightarrow> bool" where
  "calls_ok lc multi H C [] \<longleftrightarrow> H = {} \<and> C = {}"
| "calls_ok lc multi H C (Acquire k l # p) \<longleftrightarrow>
     l \<in> {lt_a, lt_b} \<and> l \<notin> snd ` H \<and> (multi \<longrightarrow> H = {}) \<and> calls_ok lc multi (insert (lc k, l) H) C p"
| "calls_ok lc multi H C (Acquiring k l # p) \<longleftrightarrow>
     l \<in> {lt_a, lt_b} \<and> l \<notin> snd ` H \<and> (multi \<longrightarrow> H = {}) \<and> calls_ok lc multi (insert (lc k, l) H) C p"
| "calls_ok lc multi H C (Check_grant l # p) \<longleftrightarrow>
     ct_index l \<notin> C \<and> l \<in> {lt_a, lt_b} \<and> (multi \<longrightarrow> l \<in> snd ` H) \<and> calls_ok lc multi H (insert (ct_index l) C) p"
| "calls_ok lc multi H C (Check_release l # p) \<longleftrightarrow>
     ct_index l \<in> C \<and> calls_ok lc multi H (C - {ct_index l}) p"
| "calls_ok lc multi H C (Release k l # p) \<longleftrightarrow>
     (lc k, l) \<in> H \<and> l \<notin> snd ` (H - {(lc k, l)}) \<and> (multi \<longrightarrow> C = {} \<and> H = {(lc k, l)}) \<and>
       calls_ok lc multi (H - {(lc k, l)}) C p"
| "calls_ok lc multi H C (Releasing k l # p) \<longleftrightarrow> l \<notin> snd ` H \<and> (multi \<longrightarrow> H = {}) \<and> calls_ok lc multi H C p"

text \<open>Only the first call of a thread can have begun.\<close>

fun begun :: "lt_call \<Rightarrow> bool" where
  "begun (Acquiring k l) = True"
| "begun (Releasing k l) = True"
| "begun x = False"

definition phase_ok :: "(nat \<Rightarrow> client) \<Rightarrow> lt_call list list \<Rightarrow> bool" where
  "phase_ok lc ps \<longleftrightarrow> (\<forall>p \<in> set ps. calls_ok lc (length ps > 1) {} {} p \<and> (\<forall>x \<in> set p. \<not> begun x))"

definition waiting_pc :: "pc \<Rightarrow> bool" where
  "waiting_pc p \<longleftrightarrow> p = Calling \<or> (\<exists>w. p = Sleeping w)"

text \<open>Where a thread with the calls \<open>p\<close> that holds \<open>H\<close> stands in the lock service.\<close>

definition pc_ok :: "(nat \<Rightarrow> client) \<Rightarrow> (client \<times> lockid_t) set \<Rightarrow> lt_call list \<Rightarrow> client \<Rightarrow> lockid_t \<Rightarrow> pc \<Rightarrow> bool" where
  "pc_ok lc H p c l q \<longleftrightarrow>
     (if (c, l) \<in> H then q = Holding
      else case p of
        Acquiring k l' # _ \<Rightarrow> if c = lc k \<and> l = l' then waiting_pc q \<or> q = Holding else q = Idle
      | Releasing k l' # _ \<Rightarrow> if c = lc k \<and> l = l' then q = Leaving \<or> q = Idle else q = Idle
      | _ \<Rightarrow> q = Idle)"

text \<open>The invariant of a run: \<open>H t\<close> and \<open>C t\<close> are what thread \<open>t\<close> holds and counts.\<close>

definition threads_ok :: "(nat \<Rightarrow> client) \<Rightarrow> lt_sys \<Rightarrow> (nat \<Rightarrow> (client \<times> lockid_t) set) \<Rightarrow> (nat \<Rightarrow> nat set) \<Rightarrow> bool" where
  "threads_ok lc s H C \<longleftrightarrow>
     (\<forall>t < length (todo s).
        calls_ok lc (length (todo s) > 1) (H t) (C t) (todo s ! t) \<and> (\<forall>x \<in> set (tl (todo s ! t)). \<not> begun x) \<and>
        snd ` H t \<subseteq> {lt_a, lt_b} \<and> (length (todo s) > 1 \<longrightarrow> C t \<subseteq> ct_index ` snd ` H t) \<and>
        (\<forall>c l. pc_ok lc (H t) (todo s ! t) c l (pcs (lk s) c l t))) \<and>
     (\<forall>t \<ge> length (todo s). \<forall>c l. pcs (lk s) c l t = Idle) \<and>
     (\<forall>x < 256. ct s ! x = of_bool (\<exists>t < length (todo s). x \<in> C t))"

definition lt_inv :: "(nat \<Rightarrow> client) \<Rightarrow> lt_sys \<Rightarrow> bool" where
  "lt_inv lc s \<longleftrightarrow> \<not> exited s \<and> lk_reachable (lk s) \<and> length (ct s) = 256 \<and>
     (\<forall>p \<in> set (phases s). phase_ok lc p) \<and> (\<exists>H C. threads_ok lc s H C)"

lemma ct_index_simps [simp]: "ct_index lid < 256" "ct_index lt_a = 1" "ct_index lt_b = 2"
proof -
  have "lid AND 0xff \<le> 0xff" by (rule word_and_le1)
  then show "ct_index lid < 256" by (simp add: ct_index_def word_le_nat_alt)
qed (simp_all add: ct_index_def lt_a_def lt_b_def)

lemma lt_a_b [simp]: "lt_a \<noteq> lt_b" "lt_b \<noteq> lt_a"
  by (simp_all add: lt_a_def lt_b_def)

lemma ct_index_inj: "l \<in> {lt_a, lt_b} \<Longrightarrow> l' \<in> {lt_a, lt_b} \<Longrightarrow> ct_index l = ct_index l' \<Longrightarrow> l = l'"
  by auto

section \<open>The steps of the lock service\<close>

lemma waiting_pc_simps [simp]:
  "waiting_pc Calling" "waiting_pc (Sleeping w)" "\<not> waiting_pc Idle" "\<not> waiting_pc Holding" "\<not> waiting_pc Leaving"
  by (simp_all add: waiting_pc_def)

definition pc_moves :: "pc \<Rightarrow> pc \<Rightarrow> bool" where
  "pc_moves p q \<longleftrightarrow> q = p \<or> waiting_pc p \<and> (waiting_pc q \<or> q = Holding) \<or> p = Leaving \<and> q = Idle"

lemma acquiring_pc:
  "cc_resume w ls = Inr (s, m) \<Longrightarrow> waiting_pc (pc_of s) \<or> pc_of s = Holding"
  "cc_wait_reply st ls = Inr (s, m) \<Longrightarrow> waiting_pc (pc_of s) \<or> pc_of s = Holding"
  "cc_acquire lid t M = Inr (s, M') \<Longrightarrow> waiting_pc (pc_of s) \<or> pc_of s = Holding"
  by (cases w; auto simp: cc_defs cc_acquire_def at_lock_def split: if_splits cc_status.splits option.splits)+

lemma internal_pcs:
  assumes "internal y z" "\<And>l. lk_ok y l"
  shows "pc_moves (pcs y c l t) (pcs z c l t)"
  using assms(1)
proof cases
  case (resume u d lid p s m)
  then show ?thesis
    using acquiring_pc(1) by (cases "c = d \<and> l = lid") (auto simp: local_step_def pc_moves_def res_simps)
next
  case (reply u st d lid s m)
  have "client_ok (standing_of (srv y lid) d) (cl y d lid) (pcs y d lid) (sigs y d lid) (net y d lid)"
    using assms(2) lk_okD(2) by blast
  then have "pcs y d lid u = Calling"
    using reply(2) by (cases "cl y d lid") (auto simp: client_ok_def elim!: configE ownedE parkedE)
  with reply show ?thesis
    using acquiring_pc(2) by (cases "c = d \<and> l = lid") (auto simp: local_step_def pc_moves_def res_simps)
next
  case (release_reply u d lid sig m)
  have "client_ok (standing_of (srv y lid) d) (cl y d lid) (pcs y d lid) (sigs y d lid) (net y d lid)"
    using assms(2) lk_okD(2) by blast
  then have "pcs y d lid u = Leaving"
    using release_reply(2) by (cases "cl y d lid") (auto simp: client_ok_def elim!: configE ownedE parkedE)
  with release_reply show ?thesis
    by (cases "c = d \<and> l = lid") (auto simp: local_step_def pc_moves_def)
qed (cases "c = fst (c, l)"; auto simp: local_step_def pc_moves_def upd2_def)+

lemma pc_ok_moves: "pc_ok lc H p c l q \<Longrightarrow> pc_moves q q' \<Longrightarrow> pc_ok lc H p c l q'"
  by (auto simp: pc_ok_def pc_moves_def split: list.splits lt_call.splits if_splits)

section \<open>The invariant\<close>

lemma threads_okD:
  assumes "threads_ok lc s H C" "t < length (todo s)"
  shows "calls_ok lc (length (todo s) > 1) (H t) (C t) (todo s ! t)" "snd ` H t \<subseteq> {lt_a, lt_b}"
    "length (todo s) > 1 \<Longrightarrow> C t \<subseteq> ct_index ` snd ` H t"
    "pc_ok lc (H t) (todo s ! t) c l (pcs (lk s) c l t)" "\<forall>x \<in> set (tl (todo s ! t)). \<not> begun x"
  using assms unfolding threads_ok_def by blast+

lemma held_pc:
  assumes "threads_ok lc s H C" "t < length (todo s)" "(c, l) \<in> H t"
  shows "pcs (lk s) c l t = Holding"
  using threads_okD(4) [OF assms(1,2), of c l] assms(3) by (simp add: pc_ok_def)

lemma counted_once:
  assumes ok: "threads_ok lc s H C" and lk: "\<And>l. lk_ok (lk s) l"
    and t: "t < length (todo s)" "x \<in> C t" and u: "u < length (todo s)" "x \<in> C u"
  shows "t = u"
proof (cases "length (todo s) > 1")
  case True
  obtain c l where l: "(c, l) \<in> H t" "x = ct_index l" using threads_okD(3) [OF ok t(1) True] t(2) by auto
  obtain d k where k: "(d, k) \<in> H u" "x = ct_index k" using threads_okD(3) [OF ok u(1) True] u(2) by auto
  have "l \<in> {lt_a, lt_b}" "k \<in> {lt_a, lt_b}"
    using threads_okD(2) [OF ok t(1)] threads_okD(2) [OF ok u(1)] l(1) k(1) by force+
  then have "l = k" using ct_index_inj l(2) k(2) by metis
  then show ?thesis
    using lk_ok_exclusion [OF lk held_pc [OF ok t(1) l(1)]] held_pc [OF ok u(1) k(1)] by blast
qed (use t u in auto)

text \<open>One thread moves on: the others are as before.\<close>

lemma threads_ok_upd:
  assumes ok: "threads_ok lc s H C" and t: "t < length (todo s)"
    and here: "calls_ok lc (length (todo s) > 1) H' C' p" "snd ` H' \<subseteq> {lt_a, lt_b}"
      "length (todo s) > 1 \<Longrightarrow> C' \<subseteq> ct_index ` snd ` H'" "\<And>c l. pc_ok lc H' p c l (pcs y c l t)"
      "\<forall>x \<in> set (tl p). \<not> begun x"
    and others: "\<And>u c l. u \<noteq> t \<Longrightarrow> pcs y c l u = pcs (lk s) c l u"
    and count: "\<And>x. x < 256 \<Longrightarrow> ct' ! x = of_bool (\<exists>u < length (todo s). x \<in> (C(t := C')) u)"
  shows "threads_ok lc (s\<lparr>lk := y, ct := ct', todo := (todo s)[t := p]\<rparr>) (H(t := H')) (C(t := C'))"
proof -
  have "calls_ok lc (length (todo s) > 1) ((H(t := H')) u) ((C(t := C')) u) ((todo s)[t := p] ! u) \<and>
      (\<forall>x \<in> set (tl ((todo s)[t := p] ! u)). \<not> begun x) \<and> snd ` (H(t := H')) u \<subseteq> {lt_a, lt_b} \<and>
      (length (todo s) > 1 \<longrightarrow> (C(t := C')) u \<subseteq> ct_index ` snd ` (H(t := H')) u) \<and>
      (\<forall>c l. pc_ok lc ((H(t := H')) u) ((todo s)[t := p] ! u) c l (pcs y c l u))"
    if "u < length (todo s)" for u
    using that here others [of u] threads_okD [OF ok that] t by (cases "u = t") auto
  moreover have "pcs y c l u = Idle" if "u \<ge> length (todo s)" for u c l
    using that t others [of u c l] ok by (auto simp: threads_ok_def)
  ultimately show ?thesis using count unfolding threads_ok_def by simp
qed

lemma same_count:
  "threads_ok lc s H C \<Longrightarrow> x < 256 \<Longrightarrow> ct s ! x = of_bool (\<exists>u < length (todo s). x \<in> (C(t := C t)) u)"
  by (simp add: threads_ok_def)

lemma local_step_others:
  "u \<noteq> t \<Longrightarrow> pcs (local_step d lid m (\<lambda>P. P(t := q)) g n y) c l u = pcs y c l u"
  by (cases "c = d \<and> l = lid") (auto simp: local_step_def)

lemma local_step_here:
  "pcs (local_step d lid m (\<lambda>P. P(t := q)) g n y) c l t = (if c = d \<and> l = lid then q else pcs y c l t)"
  by (auto simp: local_step_def upd2_def)

lemma pc_ok_idle:
  "(p = [] \<or> \<not> begun (hd p)) \<Longrightarrow> pc_ok lc H p c l q \<longleftrightarrow> q = (if (c, l) \<in> H then Holding else Idle)"
  by (cases p; cases "hd p") (auto simp: pc_ok_def)

lemma begun_rest:
  "\<forall>x \<in> set (tl (x0 # p)). \<not> begun x \<Longrightarrow> (p = [] \<or> \<not> begun (hd p)) \<and> (\<forall>x \<in> set (tl p). \<not> begun x)"
  by (cases p) auto

lemma internal_threads:
  assumes "threads_ok lc s H C" "internal (lk s) z" "\<And>l. lk_ok (lk s) l"
  shows "threads_ok lc (s\<lparr>lk := z\<rparr>) H C"
proof -
  note moves = internal_pcs [OF assms(2,3)]
  have "pc_ok lc (H t) (todo s ! t) c l (pcs z c l t)" if "t < length (todo s)" for t c l
    using pc_ok_moves [OF threads_okD(4) [OF assms(1) that] moves] .
  moreover have "pcs z c l t = Idle" if "t \<ge> length (todo s)" for t c l
    using moves [of c l t] assms(1) that by (auto simp: threads_ok_def pc_moves_def)
  ultimately show ?thesis using assms(1) unfolding threads_ok_def by simp
qed

lemma pc_ok_begun:
  "pc_ok lc H (Acquiring k l' # p) c l q \<longleftrightarrow>
     (if (c, l) \<in> H then q = Holding else if c = lc k \<and> l = l' then waiting_pc q \<or> q = Holding else q = Idle)"
  "pc_ok lc H (Releasing k l' # p) c l q \<longleftrightarrow>
     (if (c, l) \<in> H then q = Holding else if c = lc k \<and> l = l' then q = Leaving \<or> q = Idle else q = Idle)"
  by (simp_all add: pc_ok_def)

text \<open>The calls and checks of thread \<open>t\<close>, whose calls are \<open>x # p\<close>.\<close>

lemma begins_acquire:
  assumes ok: "threads_ok lc s H C" and t: "t < length (todo s)" "todo s ! t = Acquire k lid # p"
    and run: "cc_acquire lid t (cl (lk s) (lc k)) = Inr (u, m)"
  shows "threads_ok lc (s\<lparr>lk := local_step (lc k) lid m (\<lambda>P. P(t := pc_of u)) g n (lk s),
    ct := ct s, todo := (todo s)[t := Acquiring k lid # p]\<rparr>) (H(t := H t)) (C(t := C t))"
proof -
  note d = threads_okD [OF ok t(1), unfolded t(2)]
  have pc: "pcs (lk s) c l t = (if (c, l) \<in> H t then Holding else Idle)" for c l
    using d(4) [of c l] by (simp add: pc_ok_idle)
  have "(lc k, lid) \<notin> H t" using d(1) by force
  then show ?thesis
    using d(1,2,3,5) acquiring_pc(3) [OF run]
    by (intro threads_ok_upd [OF ok t(1) _ _ _ _ _ _ same_count [OF ok]])
      (auto simp: local_step_others local_step_here pc_ok_begun pc)
qed

lemma ends_acquire:
  assumes ok: "threads_ok lc s H C" and t: "t < length (todo s)" "todo s ! t = Acquiring k lid # p"
    and h: "pcs (lk s) (lc k) lid t = Holding"
  shows "threads_ok lc (s\<lparr>lk := lk s, ct := ct s, todo := (todo s)[t := p]\<rparr>)
    (H(t := insert (lc k, lid) (H t))) (C(t := C t))"
proof -
  note d = threads_okD [OF ok t(1), unfolded t(2)]
  note rest = begun_rest [OF d(5)]
  have "pcs (lk s) c l t = (if (c, l) \<in> insert (lc k, lid) (H t) then Holding else Idle)" for c l
    using d(4) [of c l] h by (auto simp: pc_ok_begun split: if_splits)
  then show ?thesis
    using d(1,2,3) rest by (intro threads_ok_upd [OF ok t(1) _ _ _ _ _ _ same_count [OF ok]]) (auto simp: pc_ok_idle)
qed

lemma begins_release:
  assumes ok: "threads_ok lc s H C" and t: "t < length (todo s)" "todo s ! t = Release k lid # p"
  shows "threads_ok lc (s\<lparr>lk := local_step (lc k) lid m (\<lambda>P. P(t := if b then Leaving else Idle)) g n (lk s),
    ct := ct s, todo := (todo s)[t := Releasing k lid # p]\<rparr>) (H(t := H t - {(lc k, lid)})) (C(t := C t))"
proof -
  note d = threads_okD [OF ok t(1), unfolded t(2)]
  have pc: "pcs (lk s) c l t = (if (c, l) \<in> H t then Holding else Idle)" for c l
    using d(4) [of c l] by (simp add: pc_ok_idle)
  show ?thesis
    using d(1,2,3,5)
    by (intro threads_ok_upd [OF ok t(1) _ _ _ _ _ _ same_count [OF ok]])
      (auto simp: local_step_others local_step_here pc_ok_begun pc)
qed

lemma ends_release:
  assumes ok: "threads_ok lc s H C" and t: "t < length (todo s)" "todo s ! t = Releasing k lid # p"
    and h: "pcs (lk s) (lc k) lid t = Idle"
  shows "threads_ok lc (s\<lparr>lk := lk s, ct := ct s, todo := (todo s)[t := p]\<rparr>) (H(t := H t)) (C(t := C t))"
proof -
  note d = threads_okD [OF ok t(1), unfolded t(2)]
  note rest = begun_rest [OF d(5)]
  have "pcs (lk s) c l t = (if (c, l) \<in> H t then Holding else Idle)" for c l
    using d(4) [of c l] h by (auto simp: pc_ok_begun split: if_splits)
  then show ?thesis
    using d(1,2,3) rest by (intro threads_ok_upd [OF ok t(1) _ _ _ _ _ _ same_count [OF ok]]) (auto simp: pc_ok_idle)
qed

lemma grants:
  assumes ok: "threads_ok lc s H C" and lk: "\<And>l. lk_ok (lk s) l" and len: "length (ct s) = 256"
    and t: "t < length (todo s)" "todo s ! t = Check_grant lid # p"
  shows "\<exists>ct'. check_grant lid (ct s) = Inr ct' \<and> length ct' = 256 \<and>
    threads_ok lc (s\<lparr>lk := lk s, ct := ct', todo := (todo s)[t := p]\<rparr>)
      (H(t := H t)) (C(t := insert (ct_index lid) (C t)))"
proof -
  note d = threads_okD [OF ok t(1), unfolded t(2)]
  note rest = begun_rest [OF d(5)]
  let ?x = "ct_index lid"
  have pc: "pcs (lk s) c l t = (if (c, l) \<in> H t then Holding else Idle)" for c l
    using d(4) [of c l] by (simp add: pc_ok_idle)
  have none: "?x \<notin> C u" if u: "u < length (todo s)" for u
  proof
    assume x: "?x \<in> C u"
    with d(1) have ut: "u \<noteq> t" by auto
    then have multi: "length (todo s) > 1" using u t(1) by linarith
    then obtain c where c: "(c, lid) \<in> H t" using d(1) by auto
    obtain c' l where l: "(c', l) \<in> H u" "?x = ct_index l" using threads_okD(3) [OF ok u multi] x by auto
    then have "l = lid" using ct_index_inj [of lid l] threads_okD(2) [OF ok u] d(1) by force
    then show False
      using lk_ok_exclusion [OF lk held_pc [OF ok t(1) c]] held_pc [OF ok u l(1)] ut by blast
  qed
  have ct: "ct s ! x = of_bool (\<exists>u < length (todo s). x \<in> C u)" if "x < 256" for x
    using ok that by (simp add: threads_ok_def)
  then have "check_grant lid (ct s) = Inr ((ct s)[?x := 1])"
    using none by (auto simp: check_grant_def Let_def)
  moreover have "(ct s)[?x := 1] ! x = of_bool (\<exists>u < length (todo s). x \<in> (C(t := insert ?x (C t))) u)"
    if "x < 256" for x
  proof -
    have "x \<in> (C(t := insert ?x (C t))) u \<longleftrightarrow> x = ?x \<and> u = t \<or> x \<in> C u" for u by auto
    then show ?thesis using that ct len t(1) by (cases "x = ?x") (auto simp: nth_list_update)
  qed
  then have "threads_ok lc (s\<lparr>lk := lk s, ct := (ct s)[?x := 1], todo := (todo s)[t := p]\<rparr>)
      (H(t := H t)) (C(t := insert ?x (C t)))"
    using d(1,2,3) rest pc by (intro threads_ok_upd [OF ok t(1)]) (auto simp: pc_ok_idle)
  ultimately show ?thesis using len by simp
qed

lemma ungrants:
  assumes ok: "threads_ok lc s H C" and lk: "\<And>l. lk_ok (lk s) l" and len: "length (ct s) = 256"
    and t: "t < length (todo s)" "todo s ! t = Check_release lid # p"
  shows "\<exists>ct'. check_release lid (ct s) = Inr ct' \<and> length ct' = 256 \<and>
    threads_ok lc (s\<lparr>lk := lk s, ct := ct', todo := (todo s)[t := p]\<rparr>)
      (H(t := H t)) (C(t := C t - {ct_index lid}))"
proof -
  note d = threads_okD [OF ok t(1), unfolded t(2)]
  note rest = begun_rest [OF d(5)]
  let ?x = "ct_index lid"
  have pc: "pcs (lk s) c l t = (if (c, l) \<in> H t then Holding else Idle)" for c l
    using d(4) [of c l] by (simp add: pc_ok_idle)
  have mine: "?x \<in> C t" using d(1) by simp
  have ct: "ct s ! x = of_bool (\<exists>u < length (todo s). x \<in> C u)" if "x < 256" for x
    using ok that by (simp add: threads_ok_def)
  then have "check_release lid (ct s) = Inr ((ct s)[?x := 0])"
    using mine t(1) by (auto simp: check_release_def Let_def)
  moreover have "(ct s)[?x := 0] ! x = of_bool (\<exists>u < length (todo s). x \<in> (C(t := C t - {?x})) u)"
    if "x < 256" for x
  proof -
    have "x \<in> (C(t := C t - {?x})) u \<longleftrightarrow> x \<noteq> ?x \<and> x \<in> C u" if "u < length (todo s)" for u
      using counted_once [OF ok lk t(1) mine that] by auto
    then have "(\<exists>u < length (todo s). x \<in> (C(t := C t - {?x})) u) \<longleftrightarrow> x \<noteq> ?x \<and> (\<exists>u < length (todo s). x \<in> C u)"
      by blast
    moreover have "(ct s)[?x := 0] ! x = (if x = ?x then 0 else ct s ! x)"
      using that len by (auto simp: nth_list_update)
    ultimately show ?thesis using ct [OF that] by (simp only: of_bool_def) auto
  qed
  then have "threads_ok lc (s\<lparr>lk := lk s, ct := (ct s)[?x := 0], todo := (todo s)[t := p]\<rparr>)
      (H(t := H t)) (C(t := C t - {?x}))"
    using d(1,2,3) rest pc by (intro threads_ok_upd [OF ok t(1)]) (auto simp: pc_ok_idle)
  ultimately show ?thesis using len by simp
qed

lemma joins:
  assumes ok: "threads_ok lc s H C" and ended: "\<forall>q \<in> set (todo s). q = []" and p: "phase_ok lc p"
  shows "threads_ok lc (s\<lparr>todo := p, phases := ps\<rparr>) (\<lambda>_. {}) (\<lambda>_. {})"
proof -
  have n: "todo s ! t = []" if "t < length (todo s)" for t using ended that nth_mem by blast
  have e: "H t = {} \<and> C t = {}" and pc: "pcs (lk s) c l t = Idle" if "t < length (todo s)" for t c l
    using threads_okD(1,4) [OF ok that] n [OF that] by (auto simp: pc_ok_idle)
  have idle: "pcs (lk s) c l t = Idle" for t c l
    using pc [of t c l] ok by (cases "t < length (todo s)") (auto simp: threads_ok_def)
  have "p ! t = [] \<or> \<not> begun (hd (p ! t))" "\<forall>x \<in> set (tl (p ! t)). \<not> begun x"
    "calls_ok lc (length p > 1) {} {} (p ! t)" if "t < length p" for t
    using p nth_mem [OF that] by (cases "p ! t"; force simp: phase_ok_def)+
  moreover have "\<forall>x < 256. ct s ! x = 0" using ok e by (auto simp: threads_ok_def)
  ultimately show ?thesis using idle by (simp add: threads_ok_def pc_ok_idle)
qed

lemma lt_checked_Inr: "lt_checked (Inr c) (s\<lparr>todo := p\<rparr>) = s\<lparr>ct := c, todo := p\<rparr>"
  by (simp add: lt_checked_def)

lemma lt_step_inv:
  assumes "lt_step lc s s'" "lt_inv lc s"
  shows "lt_inv lc s'"
proof -
  from assms(2) obtain H C where ok: "threads_ok lc s H C" and r: "lk_reachable (lk s)" and len: "length (ct s) = 256"
    and ph: "\<forall>p \<in> set (phases s). phase_ok lc p" and ex: "\<not> exited s" by (auto simp: lt_inv_def)
  note lk = lk_reachable_ok [OF r]
  from assms(1) show ?thesis
  proof cases
    case (lt_internal z)
    with internal_threads [OF ok lt_internal(3) lk] r len ph show ?thesis
      by (auto simp: lt_inv_def intro: lk_reachable.step)
  next
    case (lt_acquire t k lid p u m)
    have "lk_reachable (lk s')" unfolding lt_acquire(1)
      using lk_reachable.step [OF r lk_step.acquire [OF lt_acquire(5,6)]] by simp
    with begins_acquire [OF ok lt_acquire(3,4,6)] lt_acquire(1) ex len ph show ?thesis
      unfolding lt_inv_def lt_acquire(1) by simp blast
  next
    case (lt_acquired t k lid p)
    with ends_acquire [OF ok lt_acquired(3,4,5)] r len ph show ?thesis
      unfolding lt_inv_def lt_acquired(1) by simp blast
  next
    case (lt_grant t lid p)
    from grants [OF ok lk len lt_grant(3,4)] r ph ex show ?thesis
      unfolding lt_inv_def lt_grant(1) by (auto simp: lt_checked_Inr) blast
  next
    case (lt_ungrant t lid p)
    from ungrants [OF ok lk len lt_ungrant(3,4)] r ph ex show ?thesis
      unfolding lt_inv_def lt_ungrant(1) by (auto simp: lt_checked_Inr) blast
  next
    case (lt_release t k lid p u sig m)
    have "lk_reachable (lk s')" unfolding lt_release(1)
      using lk_reachable.step [OF r lk_step.release [OF lt_release(5,6)]] by simp
    moreover have "threads_ok lc s' (H(t := H t - {(lc k, lid)})) (C(t := C t))" unfolding lt_release(1)
      using begins_release [OF ok lt_release(3,4), where b = "u = Call_release"] by (simp split del: if_split)
    ultimately show ?thesis using ex len ph unfolding lt_inv_def lt_release(1) by (auto split del: if_split)
  next
    case (lt_released t k lid p)
    with ends_release [OF ok lt_released(3,4,5)] r len ph show ?thesis
      unfolding lt_inv_def lt_released(1) by simp blast
  next
    case (lt_join p ps)
    have "phase_ok lc p" using ph lt_join(4) by simp
    from joins [OF ok lt_join(3) this] r len ph ex lt_join(4) show ?thesis
      unfolding lt_inv_def lt_join(1) by (auto intro!: exI)
  qed
qed

lemma lt_start_inv: "lt_inv lc (lt_start test)"
proof -
  have "phase_ok lc [test1]"
    by (simp add: phase_ok_def test1_def)
  moreover have "phase_ok lc (map test2 [0..<nt])" "phase_ok lc (map test3 [0..<nt])"
    "phase_ok lc (map test4 [0..<2])" "phase_ok lc (map test5 [0..<nt])"
    by (simp_all add: phase_ok_def nt_def test2_def test3_def test4_def test5_def upt_rec)
  ultimately have "\<forall>p \<in> set (lt_main test). phase_ok lc p" by (auto simp: lt_main_def)
  moreover have "threads_ok lc (lt_start test) (\<lambda>_. {}) (\<lambda>_. {})"
    by (simp add: threads_ok_def lt_start_def lk_start_def)
  ultimately show ?thesis
    unfolding lt_inv_def by (intro conjI exI) (simp_all add: lt_start_def lk_reachable.start)
qed

section \<open>The tester ends\<close>

fun call_weight :: "lt_call \<Rightarrow> nat" where
  "call_weight (Acquire k l) = 2"
| "call_weight (Release k l) = 2"
| "call_weight x = 1"

definition calls_weight :: "lt_call list list \<Rightarrow> nat" where
  "calls_weight ps = sum_list (map (\<lambda>p. sum_list (map call_weight p)) ps)"

definition lt_weight :: "lt_sys \<Rightarrow> nat" where
  "lt_weight s = 17 * (calls_weight (todo s) + sum_list (map calls_weight (phases s))) + length (phases s) + lk_weight (lk s)"

lemma calls_weight_upd:
  assumes "t < length ps" "ps ! t = x # p"
  shows "calls_weight (ps[t := q]) + (call_weight x + sum_list (map call_weight p)) = calls_weight ps + sum_list (map call_weight q)"
proof -
  have "(\<Sum>p\<leftarrow>ps. sum_list (map call_weight p)) \<ge> sum_list (map call_weight (x # p))"
    using assms by (metis elem_le_sum_list length_map nth_map)
  then show ?thesis using assms by (simp add: calls_weight_def map_update sum_list_update)
qed

lemma local_step_weight_add:
  assumes "finite (known y)" "\<And>l. l \<noteq> lid \<Longrightarrow> m l = cl y c l"
  shows "lk_weight (local_step c lid m p g n y) \<le> lk_weight y + 16" (is "lk_weight ?z \<le> _")
proof -
  have sub: "known ?z \<subseteq> insert (c, lid) (known y)"
    using assms(2) by (auto simp: known_def local_step_def split: if_splits)
  have same: "weight_at ?z j = weight_at y j" if "j \<noteq> (c, lid)" for j
    using that assms(2) by (cases j; cases "fst j = c") (auto simp: weight_at_def local_step_def)
  have "lk_weight ?z \<le> (\<Sum>j \<in> insert (c, lid) (known y). weight_at ?z j)"
    unfolding lk_weight_def using assms(1) sub by (intro sum_mono2) auto
  also have "\<dots> = weight_at ?z (c, lid) + (\<Sum>j \<in> known y - {(c, lid)}. weight_at y j)"
    using assms(1) same by (simp add: sum.insert_remove)
  also have "\<dots> \<le> 16 + lk_weight y"
    unfolding lk_weight_def using assms(1) weight_at_bound by (intro add_mono sum_mono2) auto
  finally show ?thesis by simp
qed

lemma lt_step_weight:
  assumes "lt_step lc s s'" "lt_inv lc s"
  shows "lt_weight s' < lt_weight s"
proof -
  have r: "lk_reachable (lk s)" using assms(2) by (simp add: lt_inv_def)
  note lk = lk_reachable_ok [OF r] and fin = lk_reachable_finite [OF r]
  from assms(1) show ?thesis
  proof cases
    case (lt_internal z)
    with internal_weight [OF lt_internal(3) lk fin] show ?thesis by (simp add: lt_weight_def)
  next
    case (lt_acquire t k lid p u m)
    have "lk_weight (lk s') \<le> lk_weight (lk s) + 16"
      unfolding lt_acquire(1) using local_step_weight_add [OF fin cc_acquire_other [OF lt_acquire(6)]] by simp
    moreover have "calls_weight (todo s') + 1 = calls_weight (todo s)" "phases s' = phases s"
      using calls_weight_upd [OF lt_acquire(3,4), of "Acquiring k lid # p"] unfolding lt_acquire(1) by simp_all
    ultimately show ?thesis by (simp add: lt_weight_def)
  next
    case (lt_acquired t k lid p)
    from calls_weight_upd [OF lt_acquired(3,4), of p] show ?thesis
      unfolding lt_acquired(1) lt_weight_def by simp
  next
    case (lt_grant t lid p)
    from calls_weight_upd [OF lt_grant(3,4), of p] show ?thesis
      unfolding lt_grant(1) lt_weight_def by (auto simp: lt_checked_def split: sum.splits)
  next
    case (lt_ungrant t lid p)
    from calls_weight_upd [OF lt_ungrant(3,4), of p] show ?thesis
      unfolding lt_ungrant(1) lt_weight_def by (auto simp: lt_checked_def split: sum.splits)
  next
    case (lt_release t k lid p u sig m)
    have "lk_weight (lk s') \<le> lk_weight (lk s) + 16" unfolding lt_release(1)
      using local_step_weight_add [OF fin at_lock_other [OF lt_release(6) [unfolded cc_release_def]]] by simp
    moreover have "calls_weight (todo s') + 1 = calls_weight (todo s)" "phases s' = phases s"
      using calls_weight_upd [OF lt_release(3,4), of "Releasing k lid # p"] unfolding lt_release(1) by simp_all
    ultimately show ?thesis by (simp add: lt_weight_def)
  next
    case (lt_released t k lid p)
    from calls_weight_upd [OF lt_released(3,4), of p] show ?thesis
      unfolding lt_released(1) lt_weight_def by simp
  next
    case (lt_join p ps)
    then show ?thesis by (simp add: lt_weight_def)
  qed
qed

section \<open>The tester is never stuck\<close>

text \<open>A thread that cannot move waits for a call it has begun.\<close>

lemma thread_waits:
  assumes inv: "lt_inv lc s" and ok: "threads_ok lc s H C" and t: "t < length (todo s)" "todo s ! t = x # p"
    and stuck: "\<nexists>s'. lt_step lc s s'"
  shows "\<exists>k l. (x = Acquiring k l \<or> x = Releasing k l) \<and> pcs (lk s) (lc k) l t \<noteq> Idle \<and> pcs (lk s) (lc k) l t \<noteq> Holding"
proof -
  have r: "lk_reachable (lk s)" and ex: "\<not> exited s" using inv by (simp_all add: lt_inv_def)
  note here = lk_okD(2) [OF lk_reachable_ok [OF r]]
  note d = threads_okD [OF ok t(1), unfolded t(2)]
  show ?thesis
  proof (cases x)
    case (Acquire k l)
    have i: "pcs (lk s) (lc k) l t = Idle"
      using d(1) d(4) [of "lc k" l] Acquire by (force simp: pc_ok_idle split: if_splits)
    obtain u m where "cc_acquire l t (cl (lk s) (lc k)) = Inr (u, m)"
      using acquire_ok [where M = "cl (lk s) (lc k)" and lid = l and t = t, OF here i] by blast
    with stuck lt_step.lt_acquire [where lc = lc, OF ex t(1) t(2) [unfolded Acquire] i] show ?thesis by blast
  next
    case (Release k l)
    have h: "pcs (lk s) (lc k) l t = Holding" using d(1) d(4) [of "lc k" l] Release by (auto simp: pc_ok_idle)
    obtain u sig m where "cc_release l (cl (lk s) (lc k)) = Inr ((u, sig), m)"
      using release_ok [where M = "cl (lk s) (lc k)" and lid = l and t = t, OF here h] by blast
    with stuck lt_step.lt_release [where lc = lc, OF ex t(1) t(2) [unfolded Release] h] show ?thesis by blast
  next
    case (Acquiring k l)
    have "pcs (lk s) (lc k) l t \<noteq> Holding"
      using stuck lt_step.lt_acquired [where lc = lc, OF ex t(1) t(2) [unfolded Acquiring]] by blast
    moreover have "(lc k, l) \<notin> H t" using d(1) Acquiring by force
    ultimately show ?thesis using Acquiring d(4) [of "lc k" l] by (auto simp: pc_ok_begun)
  next
    case (Releasing k l)
    have "pcs (lk s) (lc k) l t \<noteq> Idle"
      using stuck lt_step.lt_released [where lc = lc, OF ex t(1) t(2) [unfolded Releasing]] by blast
    moreover have "(lc k, l) \<notin> H t" using d(1) Releasing by force
    ultimately show ?thesis using Releasing d(4) [of "lc k" l] by (auto simp: pc_ok_begun)
  next
    case (Check_grant l)
    with stuck lt_step.lt_grant [OF ex t(1) t(2) [unfolded Check_grant]] show ?thesis by blast
  next
    case (Check_release l)
    with stuck lt_step.lt_ungrant [OF ex t(1) t(2) [unfolded Check_release]] show ?thesis by blast
  qed
qed

lemma lt_progress:
  assumes inv: "lt_inv lc s"
  shows "(\<exists>s'. lt_step lc s s') \<or> lt_passed s"
proof (rule ccontr)
  assume "\<not> ?thesis"
  then have stuck: "\<nexists>s'. lt_step lc s s'" and np: "\<not> lt_passed s" by blast+
  obtain H C where ok: "threads_ok lc s H C" and r: "lk_reachable (lk s)" and ex: "\<not> exited s"
    using inv by (auto simp: lt_inv_def)
  have no_int: "\<nexists>z. internal (lk s) z" using stuck lt_step.lt_internal [OF ex] by blast
  have "\<exists>q \<in> set (todo s). q \<noteq> []"
    using stuck np lt_step.lt_join [OF ex] ex unfolding lt_passed_def by (cases "phases s") blast+
  then obtain t x p where t: "t < length (todo s)" "todo s ! t = x # p"
    by (metis in_set_conv_nth neq_Nil_conv)
  note d = threads_okD [OF ok t(1), unfolded t(2)]
  obtain k l where x: "x = Acquiring k l \<or> x = Releasing k l" "pcs (lk s) (lc k) l t \<noteq> Idle"
    using thread_waits [OF inv ok t stuck] by blast
  obtain e u where u: "pcs (lk s) e l u = Holding"
    using lk_ok_progress [OF lk_reachable_ok [OF r] x(2)] no_int by blast
  then have ul: "u < length (todo s)" using ok by (metis threads_ok_def not_le pc.distinct(5))
  show False
  proof (cases "todo s ! u")
    case Nil
    with threads_okD(1,4) [OF ok ul] u show False by (auto simp: pc_ok_idle split: if_splits)
  next
    case (Cons z q)
    note du = threads_okD [OF ok ul, unfolded Cons]
    obtain j i where z: "z = Acquiring j i \<or> z = Releasing j i" "pcs (lk s) (lc j) i u \<noteq> Holding"
      using thread_waits [OF inv ok ul Cons stuck] by blast
    then have eu: "(e, l) \<in> H u" using du(4) [of e l] u by (auto simp: pc_ok_begun split: if_splits)
    then have "\<not> length (todo s) > 1" using du(1) z(1) by auto
    then have "u = t" using ul t(1) by linarith
    with eu d(1) x(1) show False by force
  qed
qed

text \<open>
  C10. \<open>lock_tester\<close> ends and passes: every run of the tester over the caching lock service, with
  any interleaving of its threads and any delay of the calls between clients and server, takes
  at most 15305 steps; no check of it ever fails; and as long as the tests have not all passed,
  a step is possible. So every run that goes on while it can ends with all tests passed.
\<close>

theorem lock_tester_passes:
  assumes "(lt_step lc ^^ n) (lt_start test) s"
  shows "n \<le> 15305 \<and> \<not> exited s \<and> ((\<exists>s'. lt_step lc s s') \<or> lt_passed s)"
proof -
  have "lt_inv lc s \<and> n + lt_weight s \<le> lt_weight (lt_start test)"
    using assms
  proof (induction n arbitrary: s)
    case 0
    then show ?case using lt_start_inv [of lc test] by simp
  next
    case (Suc n)
    then obtain r where r: "(lt_step lc ^^ n) (lt_start test) r" "lt_step lc r s" by auto
    with Suc.IH [OF r(1)] lt_step_inv lt_step_weight [OF r(2)] show ?case by fastforce
  qed
  moreover have "lt_weight (lt_start test) \<le> 15305"
    by (simp add: lt_weight_def lt_start_def lt_main_def calls_weight_def lk_weight_def known_def lk_start_def
        test1_def test2_def test3_def test4_def test5_def nt_def upt_rec)
  ultimately show ?thesis using lt_progress by (auto simp: lt_inv_def)
qed

theorem lock_tester_passes_witness:
  "\<exists>s. (lt_step (\<lambda>i. host_port i) ^^ 2) (lt_start 2) s \<and> length (todo s) = 6 \<and>
    pcs (lk s) (host_port 5) 1 5 = Calling \<and> \<not> exited s \<and> (\<exists>s'. lt_step (\<lambda>i. host_port i) s s')"
proof -
  let ?lc = "\<lambda>i. host_port i" and ?s1 = "(lt_start 2)\<lparr>todo := map test2 [0..<nt], phases := []\<rparr>"
  have 1: "lt_step ?lc (lt_start 2) ?s1"
    by (rule lt_join) (simp_all add: lt_start_def lt_main_def)
  have a: "cc_acquire 1 5 Map.empty = Inr (Call_acquire, [1 \<mapsto> \<lparr>cc_state = ACQUIRING, cc_message = EMPTY, cc_threads = [5]\<rparr>])"
    by (simp add: cc_acquire_def at_lock_def cc_defs cc_lock_new_def)
  obtain s where 2: "lt_step ?lc ?s1 s" "length (todo s) = 6" "pcs (lk s) (host_port 5) 1 5 = Calling" "todo s \<noteq> []"
    "\<exists>q \<in> set (todo s). q \<noteq> []"
    using lt_acquire [of ?s1 5 5 1 "tl (test2 5)" ?lc Call_acquire
        "[1 \<mapsto> \<lparr>cc_state = ACQUIRING, cc_message = EMPTY, cc_threads = [5]\<rparr>]"] a
    by (auto simp: lt_start_def lk_start_def nt_def test2_def lt_a_def local_step_def upt_rec intro!: that)
  have "(lt_step ?lc ^^ 2) (lt_start 2) s" using 1 2(1) by (auto simp: numeral_2_eq_2)
  moreover from lock_tester_passes [OF this] 2(5) have "\<not> exited s" "\<exists>s'. lt_step ?lc s s'"
    by (auto simp: lt_passed_def)
  ultimately show ?thesis using 2(2,3) by blast
qed

end
