(* ===== verification/Rpc_Marshall.thy ===== *)
theory Rpc_Marshall
  imports Extent_Protocol
begin

text \<open>
  The parts of \<open>rpc/marshall.h\<close> that are source: the buffers requests and replies are built in,
  their headers, and the operators for vectors, maps and extent attributes. The operators for
  the basic types, \<open>pack\<close>, \<open>unpack\<close> and \<open>okdone\<close> are in the RPC library, of which only the
  binary is here: they are parameters (\<open>put\<close>, \<open>get\<close>, \<open>pack\<close>, \<open>unpack\<close>).
\<close>

section \<open>Headers and buffers\<close>

record req_header =
  h_xid :: int
  h_proc :: int
  h_clt_nonce :: u32
  h_srv_nonce :: u32
  h_xid_rep :: int

record reply_header =
  rh_xid :: int
  rh_ret :: int

definition DEFAULT_RPC_SZ :: nat where "DEFAULT_RPC_SZ = 1024"

text \<open>\<open>RPC_CHECKSUMMING\<close> is not set: the larger header, 20 bytes, and the 4 bytes of the size.\<close>

definition RPC_HEADER_SZ :: nat where [simp]: "RPC_HEADER_SZ = max 20 8 + 4"

record marshall =
  m_buf :: "byte list"
  m_capa :: nat
  m_ind :: nat

definition marshall_new :: "env \<Rightarrow> marshall" where
  "marshall_new e = \<lparr>m_buf = malloc e DEFAULT_RPC_SZ, m_capa = DEFAULT_RPC_SZ, m_ind = RPC_HEADER_SZ\<rparr>"

definition get_content :: "marshall \<Rightarrow> byte list" where
  "get_content m = bytes_at RPC_HEADER_SZ (m_ind m - RPC_HEADER_SZ) (m_buf m)"

definition m_take_buf :: "marshall \<Rightarrow> (byte list \<times> nat) \<times> marshall" where
  "m_take_buf m = ((m_buf m, m_ind m), m\<lparr>m_buf := [], m_ind := 0\<rparr>)"

definition pack_req_header :: "(int \<Rightarrow> marshall \<Rightarrow> marshall) \<Rightarrow> req_header \<Rightarrow> marshall \<Rightarrow> marshall" where
  "pack_req_header pack h m =
     (let saved_sz = m_ind m;
          m = m\<lparr>m_ind := 4\<rparr>;
          m = pack (h_xid h) m;
          m = pack (h_proc h) m;
          m = pack (sint (h_clt_nonce h)) m;
          m = pack (sint (h_srv_nonce h)) m;
          m = pack (h_xid_rep h) m
      in m\<lparr>m_ind := saved_sz\<rparr>)"

definition pack_reply_header :: "(int \<Rightarrow> marshall \<Rightarrow> marshall) \<Rightarrow> reply_header \<Rightarrow> marshall \<Rightarrow> marshall" where
  "pack_reply_header pack h m =
     (let saved_sz = m_ind m;
          m = m\<lparr>m_ind := 4\<rparr>;
          m = pack (rh_xid h) m;
          m = pack (rh_ret h) m
      in m\<lparr>m_ind := saved_sz\<rparr>)"

record unmarshall =
  u_buf :: "byte list"
  u_sz :: nat
  u_ind :: nat
  u_ok :: bool

definition unmarshall_new :: unmarshall where
  "unmarshall_new = \<lparr>u_buf = [], u_sz = 0, u_ind = 0, u_ok = False\<rparr>"

text \<open>The constructor from a buffer takes all of it, header included.\<close>

definition unmarshall_buf :: "byte list \<Rightarrow> nat \<Rightarrow> unmarshall" where
  "unmarshall_buf b n = \<lparr>u_buf = b, u_sz = n, u_ind = 0, u_ok = True\<rparr>"

definition take_content :: "env \<Rightarrow> byte list \<Rightarrow> unmarshall" where
  "take_content e s =
     (let n = length s + RPC_HEADER_SZ
      in \<lparr>u_buf = memcpy RPC_HEADER_SZ s (malloc e n), u_sz = n, u_ind = RPC_HEADER_SZ, u_ok = True\<rparr>)"

definition u_take_buf :: "unmarshall \<Rightarrow> (byte list \<times> nat) \<times> unmarshall" where
  "u_take_buf u = ((u_buf u, u_sz u), u\<lparr>u_sz := 0, u_ind := 0, u_buf := []\<rparr>)"

definition unpack_req_header :: "(unmarshall \<Rightarrow> int \<times> unmarshall) \<Rightarrow> unmarshall \<Rightarrow> req_header \<times> unmarshall" where
  "unpack_req_header unpack u =
     (let u = u\<lparr>u_ind := 4\<rparr>;
          (x, u) = unpack u;
          (p, u) = unpack u;
          (c, u) = unpack u;
          (s, u) = unpack u;
          (xr, u) = unpack u
      in (\<lparr>h_xid = x, h_proc = p, h_clt_nonce = word_of_int c, h_srv_nonce = word_of_int s, h_xid_rep = xr\<rparr>,
          u\<lparr>u_ind := RPC_HEADER_SZ\<rparr>))"

definition unpack_reply_header :: "(unmarshall \<Rightarrow> int \<times> unmarshall) \<Rightarrow> unmarshall \<Rightarrow> reply_header \<times> unmarshall" where
  "unpack_reply_header unpack u =
     (let u = u\<lparr>u_ind := 4\<rparr>;
          (x, u) = unpack u;
          (r, u) = unpack u
      in (\<lparr>rh_xid = x, rh_ret = r\<rparr>, u\<lparr>u_ind := RPC_HEADER_SZ\<rparr>))"

section \<open>Containers and attributes\<close>

type_synonym 'a put = "'a \<Rightarrow> marshall \<Rightarrow> marshall"
type_synonym 'a get = "unmarshall \<Rightarrow> 'a \<times> unmarshall"

definition put_vector :: "u32 put \<Rightarrow> 'c put \<Rightarrow> 'c list put" where
  "put_vector put_uint put v m = fold put v (put_uint (word_of_nat (length v)) m)"

fun get_items :: "'c get \<Rightarrow> nat \<Rightarrow> 'c list \<Rightarrow> unmarshall \<Rightarrow> 'c list \<times> unmarshall" where
  "get_items get 0 v u = (v, u)"
| "get_items get (Suc n) v u = (let (z, u) = get u in get_items get n (v @ [z]) u)"

definition get_vector :: "u32 get \<Rightarrow> 'c get \<Rightarrow> 'c list \<Rightarrow> 'c list get" where
  "get_vector get_uint get v u = (let (n, u) = get_uint u in get_items get (unat n) v u)"

text \<open>A \<open>std::map\<close> as the list of its pairs in the order of its keys.\<close>

definition put_map :: "u32 put \<Rightarrow> 'a put \<Rightarrow> 'b put \<Rightarrow> ('a \<times> 'b) list put" where
  "put_map put_uint put_a put_b d m =
     fold (\<lambda>(a, b) m. put_b b (put_a a m)) d (put_uint (word_of_nat (length d)) m)"

fun get_pairs :: "'a get \<Rightarrow> 'b get \<Rightarrow> nat \<Rightarrow> ('a \<rightharpoonup> 'b) \<Rightarrow> unmarshall \<Rightarrow> ('a \<rightharpoonup> 'b) \<times> unmarshall" where
  "get_pairs get_a get_b 0 d u = (d, u)"
| "get_pairs get_a get_b (Suc n) d u =
     (let (a, u) = get_a u; (b, u) = get_b u in get_pairs get_a get_b n (d(a \<mapsto> b)) u)"

definition get_map :: "u32 get \<Rightarrow> 'a get \<Rightarrow> 'b get \<Rightarrow> ('a \<rightharpoonup> 'b) get" where
  "get_map get_uint get_a get_b u =
     (let (n, u) = get_uint u in get_pairs get_a get_b (unat n) Map.empty u)"

definition put_attr :: "u32 put \<Rightarrow> attr put" where
  "put_attr put_uint a m =
     put_uint (a_size a) (put_uint (a_ctime a) (put_uint (a_mtime a)
       (put_uint (a_atime a) (put_uint (a_type a) m))))"

definition get_attr :: "u32 get \<Rightarrow> attr get" where
  "get_attr get_uint u =
     (let (t, u) = get_uint u; (at, u) = get_uint u; (mt, u) = get_uint u;
          (ct, u) = get_uint u; (sz, u) = get_uint u
      in (\<lparr>a_type = t, a_atime = at, a_mtime = mt, a_ctime = ct, a_size = sz\<rparr>, u))"

section \<open>Codecs\<close>

text \<open>
  What the operators for a type promise: \<open>put\<close> appends the encoding of a value to the content,
  and \<open>get\<close>, where the encoding of a value comes next, returns the value and moves past it.
\<close>

definition u_rest :: "unmarshall \<Rightarrow> byte list" where
  "u_rest u = bytes_at (u_ind u) (u_sz u - u_ind u) (u_buf u)"

definition puts :: "('a \<Rightarrow> byte list) \<Rightarrow> 'a put \<Rightarrow> bool" where
  "puts enc put \<longleftrightarrow> (\<forall>a m. get_content (put a m) = get_content m @ enc a)"

definition gets :: "('a \<Rightarrow> byte list) \<Rightarrow> 'a get \<Rightarrow> bool" where
  "gets enc get \<longleftrightarrow> (\<forall>a u bs. u_ok u \<longrightarrow> u_rest u = enc a @ bs \<longrightarrow>
     (\<exists>u'. get u = (a, u') \<and> u_ok u' \<and> u_rest u' = bs))"

lemma putsD: "puts enc put \<Longrightarrow> get_content (put a m) = get_content m @ enc a"
  by (simp add: puts_def)

lemma getsD:
  assumes "gets enc get" "u_ok u" "u_rest u = enc a @ bs"
  obtains u' where "get u = (a, u')" "u_ok u'" "u_rest u' = bs"
  using assms unfolding gets_def by blast

lemma take_content_rest [simp]: "u_ok (take_content e s)" "u_rest (take_content e s) = s"
  by (simp_all add: take_content_def u_rest_def Let_def memcpy_def bytes_at_def malloc_def)

lemma marshall_new_content [simp]: "get_content (marshall_new e) = []"
  by (simp add: get_content_def marshall_new_def bytes_at_def)

lemma puts_fold:
  assumes "puts enc put"
  shows "get_content (fold put v m) = get_content m @ concat (map enc v)"
  by (induction v arbitrary: m) (simp_all add: putsD [OF assms])

lemma get_items_ok:
  assumes "gets enc get" "u_ok u" "u_rest u = concat (map enc v) @ bs"
  shows "\<exists>u'. get_items get (length v) acc u = (acc @ v, u') \<and> u_ok u' \<and> u_rest u' = bs"
  using assms(2,3)
proof (induction v arbitrary: acc u)
  case (Cons z v)
  then obtain u1 where "get u = (z, u1)" "u_ok u1" "u_rest u1 = concat (map enc v) @ bs"
    using getsD [OF assms(1), of u z "concat (map enc v) @ bs"] by auto
  with Cons.IH [of u1 "acc @ [z]"] show ?case by simp
qed simp

lemma vector_puts:
  assumes "puts enc_n put_uint" "puts enc put"
  shows "puts (\<lambda>v. enc_n (word_of_nat (length v)) @ concat (map enc v)) (put_vector put_uint put)"
  by (simp add: puts_def put_vector_def puts_fold [OF assms(2)] putsD [OF assms(1)])

lemma vector_gets:
  assumes "gets enc_n get_uint" "gets enc get" "u_ok u" "length v < 2 ^ 32"
    and "u_rest u = enc_n (word_of_nat (length v)) @ concat (map enc v) @ bs"
  shows "\<exists>u'. get_vector get_uint get [] u = (v, u') \<and> u_ok u' \<and> u_rest u' = bs"
proof -
  obtain u1 where u1: "get_uint u = (word_of_nat (length v), u1)" "u_ok u1" "u_rest u1 = concat (map enc v) @ bs"
    by (rule getsD [OF assms(1,3,5)])
  have "unat (word_of_nat (length v) :: u32) = length v" using assms(4) by (simp add: unat_of_nat)
  with u1 get_items_ok [OF assms(2) u1(2,3), of "[]"] show ?thesis by (simp add: get_vector_def)
qed

lemma map_puts:
  assumes "puts enc_n put_uint" "puts enc_a put_a" "puts enc_b put_b"
  shows "get_content (put_map put_uint put_a put_b d m) =
    get_content m @ enc_n (word_of_nat (length d)) @ concat (map (\<lambda>(a, b). enc_a a @ enc_b b) d)"
proof -
  have "puts (\<lambda>(a, b). enc_a a @ enc_b b) (\<lambda>(a, b) m. put_b b (put_a a m))"
    by (auto simp: puts_def putsD [OF assms(2)] putsD [OF assms(3)])
  from puts_fold [OF this] show ?thesis by (simp add: put_map_def putsD [OF assms(1)])
qed

lemma get_pairs_ok:
  assumes "gets enc_a get_a" "gets enc_b get_b" "u_ok u"
    and "u_rest u = concat (map (\<lambda>(a, b). enc_a a @ enc_b b) d) @ bs"
  shows "\<exists>u'. get_pairs get_a get_b (length d) acc u = (acc ++ map_of (rev d), u') \<and> u_ok u' \<and> u_rest u' = bs"
  using assms(3,4)
proof (induction d arbitrary: acc u)
  case (Cons p d)
  obtain a b where p: "p = (a, b)" by (cases p)
  let ?r = "concat (map (\<lambda>(a, b). enc_a a @ enc_b b) d) @ bs"
  have "u_rest u = enc_a a @ enc_b b @ ?r" using Cons.prems(2) p by simp
  then obtain u1 where u1: "get_a u = (a, u1)" "u_ok u1" "u_rest u1 = enc_b b @ ?r"
    by (rule getsD [OF assms(1) Cons.prems(1)])
  obtain u2 where u2: "get_b u1 = (b, u2)" "u_ok u2" "u_rest u2 = ?r"
    by (rule getsD [OF assms(2) u1(2,3)])
  have "\<exists>u'. get_pairs get_a get_b (length d) (acc(a \<mapsto> b)) u2 =
      (acc(a \<mapsto> b) ++ map_of (rev d), u') \<and> u_ok u' \<and> u_rest u' = bs"
    by (rule Cons.IH [OF u2(2,3)])
  with u1(1) u2(1) p show ?case by simp
qed simp

lemma map_gets:
  assumes "gets enc_n get_uint" "gets enc_a get_a" "gets enc_b get_b" "u_ok u"
    and "length d < 2 ^ 32" "distinct (map fst d)"
    and "u_rest u = enc_n (word_of_nat (length d)) @ concat (map (\<lambda>(a, b). enc_a a @ enc_b b) d) @ bs"
  shows "\<exists>u'. get_map get_uint get_a get_b u = (map_of d, u') \<and> u_ok u' \<and> u_rest u' = bs"
proof -
  obtain u1 where u1: "get_uint u = (word_of_nat (length d), u1)" "u_ok u1"
    "u_rest u1 = concat (map (\<lambda>(a, b). enc_a a @ enc_b b) d) @ bs" by (rule getsD [OF assms(1,4,7)])
  have "unat (word_of_nat (length d) :: u32) = length d" using assms(5) by (simp add: unat_of_nat)
  moreover have "map_of (rev d) = map_of d"
    using assms(6) by (metis distinct_rev map_of_inject_set rev_map set_rev)
  ultimately show ?thesis
    using u1 get_pairs_ok [OF assms(2,3) u1(2,3), of Map.empty] by (simp add: get_map_def)
qed

definition enc_attr :: "(u32 \<Rightarrow> byte list) \<Rightarrow> attr \<Rightarrow> byte list" where
  "enc_attr enc a = enc (a_type a) @ enc (a_atime a) @ enc (a_mtime a) @ enc (a_ctime a) @ enc (a_size a)"

lemma attr_puts: "puts enc put_uint \<Longrightarrow> puts (enc_attr enc) (put_attr put_uint)"
  by (simp add: puts_def put_attr_def enc_attr_def)

lemma attr_gets:
  assumes "gets enc get_uint"
  shows "gets (enc_attr enc) (get_attr get_uint)"
  unfolding gets_def
proof (intro allI impI)
  fix a u bs assume ok: "u_ok u" and r: "u_rest u = enc_attr enc a @ bs"
  have "u_rest u = enc (a_type a) @ enc (a_atime a) @ enc (a_mtime a) @ enc (a_ctime a) @ enc (a_size a) @ bs"
    using r by (simp add: enc_attr_def)
  then obtain u1 where u1: "get_uint u = (a_type a, u1)" "u_ok u1"
    "u_rest u1 = enc (a_atime a) @ enc (a_mtime a) @ enc (a_ctime a) @ enc (a_size a) @ bs"
    by (rule getsD [OF assms ok])
  obtain u2 where u2: "get_uint u1 = (a_atime a, u2)" "u_ok u2"
    "u_rest u2 = enc (a_mtime a) @ enc (a_ctime a) @ enc (a_size a) @ bs" by (rule getsD [OF assms u1(2,3)])
  obtain u3 where u3: "get_uint u2 = (a_mtime a, u3)" "u_ok u3" "u_rest u3 = enc (a_ctime a) @ enc (a_size a) @ bs"
    by (rule getsD [OF assms u2(2,3)])
  obtain u4 where u4: "get_uint u3 = (a_ctime a, u4)" "u_ok u4" "u_rest u4 = enc (a_size a) @ bs"
    by (rule getsD [OF assms u3(2,3)])
  obtain u5 where u5: "get_uint u4 = (a_size a, u5)" "u_ok u5" "u_rest u5 = bs"
    by (rule getsD [OF assms u4(2,3)])
  show "\<exists>u'. get_attr get_uint u = (a, u') \<and> u_ok u' \<and> u_rest u' = bs"
    using u1(1) u2(1) u3(1) u4(1) u5 by (simp add: get_attr_def)
qed

section \<open>Headers\<close>

text \<open>
  What the library promises of \<open>pack\<close> and \<open>unpack\<close>: four bytes at the position of the head,
  which moves past them, and \<open>unpack\<close> inverts \<open>pack\<close> on the values of an \<open>int\<close>.
\<close>

definition packs :: "(int \<Rightarrow> byte list) \<Rightarrow> (int \<Rightarrow> marshall \<Rightarrow> marshall) \<Rightarrow> bool" where
  "packs enc pack \<longleftrightarrow> (\<forall>i. length (enc i) = 4) \<and>
     (\<forall>i m. m_ind m + 4 \<le> length (m_buf m) \<longrightarrow>
        pack i m = m\<lparr>m_buf := memcpy (m_ind m) (enc i) (m_buf m), m_ind := m_ind m + 4\<rparr>)"

definition unpacks :: "(int \<Rightarrow> byte list) \<Rightarrow> (unmarshall \<Rightarrow> int \<times> unmarshall) \<Rightarrow> bool" where
  "unpacks enc unpack \<longleftrightarrow>
     (\<forall>i u. - (2 ^ 31) \<le> i \<longrightarrow> i < 2 ^ 31 \<longrightarrow> bytes_at (u_ind u) 4 (u_buf u) = enc i \<longrightarrow>
        unpack u = (i, u\<lparr>u_ind := u_ind u + 4\<rparr>))"

lemma memcpy_memcpy:
  "off + length a + length b \<le> length buf \<Longrightarrow>
   memcpy (off + length a) b (memcpy off a buf) = memcpy off (a @ b) buf"
  by (simp add: memcpy_def algebra_simps)

lemma bytes_at_memcpy_in:
  "off + length s \<le> length buf \<Longrightarrow> k + n \<le> length s \<Longrightarrow> bytes_at (off + k) n (memcpy off s buf) = bytes_at k n s"
  by (simp add: memcpy_def bytes_at_def)

lemma pack_req_header_eq:
  assumes "packs enc pack" "24 \<le> length (m_buf m)"
  shows "pack_req_header pack h m = m\<lparr>m_buf := memcpy 4 (enc (h_xid h) @ enc (h_proc h) @
    enc (sint (h_clt_nonce h)) @ enc (sint (h_srv_nonce h)) @ enc (h_xid_rep h)) (m_buf m)\<rparr>"
proof -
  have len: "length (enc i) = 4" for i using assms(1) by (simp add: packs_def)
  define at where "at s = m\<lparr>m_buf := memcpy 4 s (m_buf m), m_ind := 4 + length s\<rparr>" for s
  have step: "pack i (at s) = at (s @ enc i)" if "length s \<le> 16" for i s
  proof -
    have "m_ind (at s) + 4 \<le> length (m_buf (at s))"
      using that assms(2) by (simp add: memcpy_def at_def)
    then have "pack i (at s) = (at s)\<lparr>m_buf := memcpy (m_ind (at s)) (enc i) (m_buf (at s)), m_ind := m_ind (at s) + 4\<rparr>"
      using assms(1) by (simp add: packs_def)
    then show ?thesis using assms that memcpy_memcpy [of 4 s "enc i" "m_buf m"] len by (simp add: at_def)
  qed
  have nil: "m\<lparr>m_ind := 4\<rparr> = at []" using assms(2) by (simp add: memcpy_def at_def)
  have "pack (h_xid_rep h) (pack (sint (h_srv_nonce h)) (pack (sint (h_clt_nonce h))
      (pack (h_proc h) (pack (h_xid h) (m\<lparr>m_ind := 4\<rparr>))))) =
    at (enc (h_xid h) @ enc (h_proc h) @ enc (sint (h_clt_nonce h)) @ enc (sint (h_srv_nonce h)) @ enc (h_xid_rep h))"
    unfolding nil by (simp add: step len)
  then show ?thesis by (simp add: pack_req_header_def Let_def at_def)
qed

text \<open>A request header written into a request buffer is read back from it.\<close>

lemma req_header_back:
  assumes "packs enc pack" "unpacks enc unpack" "24 \<le> length (m_buf m)"
    and "- (2 ^ 31) \<le> h_xid h" "h_xid h < 2 ^ 31" "- (2 ^ 31) \<le> h_proc h" "h_proc h < 2 ^ 31"
    and "- (2 ^ 31) \<le> h_xid_rep h" "h_xid_rep h < 2 ^ 31"
    and "u_buf u = m_buf (pack_req_header pack h m)"
  shows "unpack_req_header unpack u = (h, u\<lparr>u_ind := RPC_HEADER_SZ\<rparr>)"
proof -
  have len: "length (enc i) = 4" for i using assms(1) by (simp add: packs_def)
  let ?s = "enc (h_xid h) @ enc (h_proc h) @ enc (sint (h_clt_nonce h)) @ enc (sint (h_srv_nonce h)) @ enc (h_xid_rep h)"
  have buf: "u_buf u = memcpy 4 ?s (m_buf m)" using assms(10) pack_req_header_eq [OF assms(1,3), of h] by simp
  have get: "unpack (u\<lparr>u_ind := 4 + k\<rparr>) = (i, u\<lparr>u_ind := 4 + k + 4\<rparr>)"
    if "bytes_at k 4 ?s = enc i" "- (2 ^ 31) \<le> i" "i < 2 ^ 31" "k \<le> 16" for k i
  proof -
    have "bytes_at (4 + k) 4 (u_buf u) = enc i"
      using bytes_at_memcpy_in [of 4 ?s "m_buf m" k 4] that(1,4) assms(3) len buf by simp
    then show ?thesis using assms(2) that(2,3) by (simp add: unpacks_def)
  qed
  have sint: "- (2 ^ 31) \<le> sint (x :: u32)" "sint x < 2 ^ 31" for x :: u32
    using sint_greater_eq [of x] sint_less [of x] by simp_all
  have g: "unpack (u\<lparr>u_ind := 4\<rparr>) = (h_xid h, u\<lparr>u_ind := 8\<rparr>)"
    "unpack (u\<lparr>u_ind := 8\<rparr>) = (h_proc h, u\<lparr>u_ind := 12\<rparr>)"
    "unpack (u\<lparr>u_ind := 12\<rparr>) = (sint (h_clt_nonce h), u\<lparr>u_ind := 16\<rparr>)"
    "unpack (u\<lparr>u_ind := 16\<rparr>) = (sint (h_srv_nonce h), u\<lparr>u_ind := 20\<rparr>)"
    "unpack (u\<lparr>u_ind := 20\<rparr>) = (h_xid_rep h, u\<lparr>u_ind := 24\<rparr>)"
    using get [of 0 "h_xid h"] get [of 4 "h_proc h"] get [of 8 "sint (h_clt_nonce h)"]
      get [of 12 "sint (h_srv_nonce h)"] get [of 16 "h_xid_rep h"] assms(4-9) sint len
    by (simp_all add: bytes_at_def)
  show ?thesis by (cases h) (use g in \<open>simp add: unpack_req_header_def\<close>)
qed

end
