(* ===== verification/Extent.thy ===== *)
theory Extent
  imports Inode_Correct
begin

text \<open>
  The extent server (\<open>extent_server.cc\<close>) and the caching extent clients
  (\<open>extent_client.cc\<close>). A call between them is executed at once, the nested calls the server
  makes back to a client (\<open>flush\<close>, \<open>clear\<close>, \<open>sync_meta\<close>) included, so every operation is a
  function of the state of the server and of all clients. Calls that reach their server
  succeed; \<open>up d\<close> tells whether \<open>handle(d).safebind()\<close> yields a connection, and no caller
  tests for the null pointer it returns otherwise.
\<close>

unbundle bit_operations_syntax

section \<open>State\<close>

type_synonym cid = string

datatype ec_status = NONE | OWN

record data_cache =
  dc_stat :: ec_status
  dc_data :: "byte list"

record metadata_cache =
  mc_stat :: ec_status
  mc_metadata :: attr

record extent_client =
  data_map :: "extentid_t \<rightharpoonup> data_cache"
  metadata_map :: "extentid_t \<rightharpoonup> metadata_cache"

record extent_world =
  im :: inode_manager
  owner_map :: "extentid_t \<rightharpoonup> cid"
  clients :: "cid \<Rightarrow> extent_client"

definition data_cache_new :: data_cache where
  "data_cache_new = \<lparr>dc_stat = NONE, dc_data = []\<rparr>"

text \<open>\<open>new metadata_cache_t()\<close> leaves \<open>metadata\<close> as it finds it on the heap.\<close>

definition metadata_cache_new :: "env \<Rightarrow> metadata_cache" where
  "metadata_cache_new e =
     (let b = malloc e 24
      in \<lparr>mc_stat = NONE,
          mc_metadata = \<lparr>a_type = get_u32 4 b, a_atime = get_u32 8 b, a_mtime = get_u32 12 b,
                         a_ctime = get_u32 16 b, a_size = get_u32 20 b\<rparr>\<rparr>)"

definition on_client :: "cid \<Rightarrow> (extent_client \<Rightarrow> extent_client) \<Rightarrow> extent_world \<Rightarrow> extent_world" where
  "on_client c f w = w\<lparr>clients := (clients w)(c := f (clients w c))\<rparr>"

text \<open>\<open>id &= 0x7fffffff\<close>, and the conversion of the result to \<open>uint32_t\<close>.\<close>

definition es_id :: "extentid_t \<Rightarrow> extentid_t" where
  "es_id eid = eid AND 0x7fffffff"

definition es_inum :: "extentid_t \<Rightarrow> u32" where
  "es_inum eid = ucast (es_id eid)"

section \<open>Server operations that make no call back\<close>

definition es_new :: "env \<Rightarrow> u32 \<Rightarrow> extent_world res" where
  "es_new e nblocks0 =
     and_then (im_new e nblocks0)
       (\<lambda>i. Inr \<lparr>im = i, owner_map = Map.empty,
                 clients = (\<lambda>_. \<lparr>data_map = Map.empty, metadata_map = Map.empty\<rparr>)\<rparr>)"

definition es_create ::
    "env \<Rightarrow> cid \<Rightarrow> u32 \<Rightarrow> extent_world \<Rightarrow> ((int \<times> extentid_t) \<times> extent_world) res" where
  "es_create e c type w =
     and_then (alloc_inode e type (im w)) (\<lambda>(i, im'). Inr ((0, ucast i), w\<lparr>im := im'\<rparr>))"

definition es_put ::
    "env \<Rightarrow> cid \<Rightarrow> extentid_t \<Rightarrow> byte list \<Rightarrow> extent_world \<Rightarrow> (int \<times> extent_world) res" where
  "es_put e c eid buf w =
     and_then (write_file e (es_inum eid) buf (int (length buf)) (im w))
       (\<lambda>im'. Inr (0, w\<lparr>im := im'\<rparr>))"

section \<open>The handlers a client runs for the server\<close>

definition ec_flush :: "env \<Rightarrow> cid \<Rightarrow> extentid_t \<Rightarrow> extent_world \<Rightarrow> (int \<times> extent_world) res" where
  "ec_flush e c eid w =
     (case data_map (clients w c) eid of
        None \<Rightarrow> Inl Null_deref
      | Some cache \<Rightarrow>
          if dc_stat cache \<noteq> OWN then Inl Exit else es_put e c eid (dc_data cache) w)"

definition ec_clear_handler :: "cid \<Rightarrow> extentid_t \<Rightarrow> extent_world \<Rightarrow> (int \<times> extent_world) res" where
  "ec_clear_handler c eid w =
     (case (data_map (clients w c) eid, metadata_map (clients w c) eid) of
        (Some d, Some m) \<Rightarrow>
          Inr (0, on_client c (\<lambda>k. k\<lparr>data_map := (data_map k)(eid \<mapsto> d\<lparr>dc_stat := NONE\<rparr>),
                                     metadata_map := (metadata_map k)(eid \<mapsto> m\<lparr>mc_stat := NONE\<rparr>)\<rparr>) w)
      | _ \<Rightarrow> Inl Null_deref)"

definition ec_flush_handler :: "env \<Rightarrow> cid \<Rightarrow> extentid_t \<Rightarrow> extent_world \<Rightarrow> (int \<times> extent_world) res" where
  "ec_flush_handler e c eid w =
     and_then (ec_flush e c eid w) (\<lambda>(ret, w). ec_clear_handler c eid w)"

definition ec_sync_meta_handler :: "cid \<Rightarrow> extentid_t \<Rightarrow> extent_world \<Rightarrow> (int \<times> attr) res" where
  "ec_sync_meta_handler c eid w =
     (case metadata_map (clients w c) eid of
        None \<Rightarrow> Inl Null_deref | Some m \<Rightarrow> Inr (0, mc_metadata m))"

section \<open>Server operations that call the owner back\<close>

definition es_get ::
    "(cid \<Rightarrow> bool) \<Rightarrow> env \<Rightarrow> cid \<Rightarrow> extentid_t \<Rightarrow> extent_world \<Rightarrow>
     ((int \<times> byte list) \<times> extent_world) res" where
  "es_get up e c eid w =
     (let i = es_id eid
      in and_then
        (case owner_map w i of
           None \<Rightarrow> Inr w
         | Some d \<Rightarrow> guard Null_deref (up d)
             (and_then (ec_flush_handler (later e) d i w) (\<lambda>(r, w). Inr w)))
        (\<lambda>w. and_then (read_file e (ucast i) (im w))
          (\<lambda>((cbuf, sz), im').
            guard Thrown (unat sz < 2 ^ 31)
              (Inr ((0, if sz = 0 then [] else take (unat sz) cbuf),
                    w\<lparr>im := im', owner_map := (owner_map w)(i \<mapsto> c)\<rparr>)))))"

definition es_getattr ::
    "(cid \<Rightarrow> bool) \<Rightarrow> env \<Rightarrow> cid \<Rightarrow> extentid_t \<Rightarrow> extent_world \<Rightarrow> (int \<times> attr) res" where
  "es_getattr up e c eid w =
     (let i = es_id eid
      in case owner_map w i of
           Some d \<Rightarrow> guard Null_deref (up d)
             (and_then (ec_sync_meta_handler d i w) (\<lambda>(r, a). Inr (0, a)))
         | None \<Rightarrow> and_then (im_getattr e (ucast i) attr_zero (im w)) (\<lambda>a. Inr (0, a)))"

definition es_remove ::
    "(cid \<Rightarrow> bool) \<Rightarrow> env \<Rightarrow> cid \<Rightarrow> extentid_t \<Rightarrow> extent_world \<Rightarrow> (int \<times> extent_world) res" where
  "es_remove up e c eid w =
     (let i = es_id eid
      in and_then
        (case owner_map w i of
           None \<Rightarrow> Inr w
         | Some d \<Rightarrow> guard Null_deref (up d)
             (and_then (ec_clear_handler d i w) (\<lambda>(r, w). Inr w)))
        (\<lambda>w. and_then (remove_file e (ucast i) (im w)) (\<lambda>im'. Inr (0, w\<lparr>im := im'\<rparr>))))"

section \<open>Client operations\<close>

definition ec_create ::
    "env \<Rightarrow> cid \<Rightarrow> u32 \<Rightarrow> extent_world \<Rightarrow> ((int \<times> extentid_t) \<times> extent_world) res" where
  "ec_create e c type w = es_create e c type w"

text \<open>The attributes are written through a reference; \<open>a\<close> is what it held before.\<close>

definition ec_getattr ::
    "(cid \<Rightarrow> bool) \<Rightarrow> env \<Rightarrow> cid \<Rightarrow> extentid_t \<Rightarrow> attr \<Rightarrow> extent_world \<Rightarrow>
     ((int \<times> attr) \<times> extent_world) res" where
  "ec_getattr up e c eid a w =
     (let w = (if metadata_map (clients w c) eid = None
               then on_client c (\<lambda>k. k\<lparr>metadata_map := (metadata_map k)(eid \<mapsto> metadata_cache_new e)\<rparr>) w
               else w)
      in case metadata_map (clients w c) eid of
           None \<Rightarrow> Inl Null_deref
         | Some cache \<Rightarrow>
             if mc_stat cache \<noteq> OWN
             then and_then (es_getattr up e c eid w)
               (\<lambda>(ret, attr). Inr ((ret, attr),
                  on_client c (\<lambda>k. k\<lparr>metadata_map := (metadata_map k)
                     (eid \<mapsto> \<lparr>mc_stat = OWN, mc_metadata = attr\<rparr>)\<rparr>) w))
             else Inr ((0, mc_metadata cache), w))"

definition ec_get ::
    "(cid \<Rightarrow> bool) \<Rightarrow> env \<Rightarrow> cid \<Rightarrow> extentid_t \<Rightarrow> extent_world \<Rightarrow>
     ((int \<times> byte list) \<times> extent_world) res" where
  "ec_get up e c eid w =
     (let w = (if data_map (clients w c) eid = None
               then on_client c (\<lambda>k. k\<lparr>data_map := (data_map k)(eid \<mapsto> data_cache_new)\<rparr>) w
               else w)
      in case data_map (clients w c) eid of
           None \<Rightarrow> Inl Null_deref
         | Some cache \<Rightarrow>
             if dc_stat cache = OWN
             then and_then
               (if eid \<noteq> 1
                then (case metadata_map (clients w c) eid of
                        None \<Rightarrow> Inl Assert_fail
                      | Some meta \<Rightarrow>
                          Inr (on_client c (\<lambda>k. k\<lparr>metadata_map := (metadata_map k)
                            (eid \<mapsto> meta\<lparr>mc_metadata := (mc_metadata meta)\<lparr>a_atime := clock e 0\<rparr>\<rparr>)\<rparr>) w))
                else Inr w)
               (\<lambda>w. Inr ((0, dc_data cache), w))
             else and_then
               (case metadata_map (clients w c) eid of
                  Some meta \<Rightarrow>
                    if mc_stat meta = NONE
                    then and_then (ec_getattr up e c eid (mc_metadata meta) w)
                      (\<lambda>((ret, a), w). Inr (ret, w))
                    else Inr (0, w)
                | None \<Rightarrow>
                    and_then (ec_getattr up e c eid (mc_metadata (metadata_cache_new e)) w)
                      (\<lambda>((ret, a), w). Inr (ret, w)))
               (\<lambda>(ret, w).
                 and_then (es_get up (later e) c eid w)
                   (\<lambda>((ret', buf), w). Inr ((ret' OR ret, buf),
                      on_client c (\<lambda>k. k\<lparr>data_map := (data_map k)
                         (eid \<mapsto> \<lparr>dc_stat = OWN, dc_data = buf\<rparr>)\<rparr>) w))))"

definition ec_put ::
    "(cid \<Rightarrow> bool) \<Rightarrow> env \<Rightarrow> cid \<Rightarrow> extentid_t \<Rightarrow> byte list \<Rightarrow> extent_world \<Rightarrow>
     (int \<times> extent_world) res" where
  "ec_put up e c eid buf w =
     (let w = (if data_map (clients w c) eid = None
               then on_client c (\<lambda>k. k\<lparr>data_map := (data_map k)(eid \<mapsto> data_cache_new)\<rparr>) w
               else w)
      in and_then
        (case data_map (clients w c) eid of
           None \<Rightarrow> Inl Null_deref
         | Some cache \<Rightarrow>
             if dc_stat cache \<noteq> OWN
             then and_then (ec_get up (later e) c eid w) (\<lambda>((r, b), w). Inr w)
             else Inr w)
        (\<lambda>w. let w = (if metadata_map (clients w c) eid = None
                      then on_client c (\<lambda>k. k\<lparr>metadata_map := (metadata_map k)(eid \<mapsto> metadata_cache_new e)\<rparr>) w
                      else w)
             in case (data_map (clients w c) eid, metadata_map (clients w c) eid) of
                  (Some cache, Some meta) \<Rightarrow>
                    Inr (0, on_client c (\<lambda>k. k\<lparr>
                        metadata_map := (metadata_map k)(eid \<mapsto> meta\<lparr>mc_metadata := (mc_metadata meta)
                          \<lparr>a_size := word_of_nat (length buf), a_atime := clock e 0,
                           a_ctime := clock e 1, a_mtime := clock e 2\<rparr>\<rparr>),
                        data_map := (data_map k)(eid \<mapsto> cache\<lparr>dc_data := buf\<rparr>)\<rparr>) w)
                | _ \<Rightarrow> Inl Null_deref))"

definition ec_remove ::
    "(cid \<Rightarrow> bool) \<Rightarrow> env \<Rightarrow> cid \<Rightarrow> extentid_t \<Rightarrow> extent_world \<Rightarrow> (int \<times> extent_world) res" where
  "ec_remove up e c eid w = es_remove up e c eid w"

end
