(* ===== verification/Rpc.thy ===== *)
theory Rpc
  imports Rpc_Marshall Extent
begin

text \<open>
  The stubs of \<open>rpc/rpc.h\<close>: \<open>rpcc::call\<close> for up to seven arguments, which marshalls a request
  and unmarshalls the reply, and the handler objects \<open>rpcs::reg\<close> makes for methods of up to
  seven arguments. What moves a request to its handler (\<open>call1\<close>, \<open>dispatch\<close>) and \<open>okdone\<close> are
  in the RPC library and are parameters.
\<close>

section \<open>The client side\<close>

definition unmarshal_args_failure :: int where [simp]: "unmarshal_args_failure = -2"
definition unmarshal_reply_failure :: int where [simp]: "unmarshal_reply_failure = -3"

text \<open>The operators \<open><<\<close> and \<open>>>\<close> of a type.\<close>

record 'a codec =
  cput :: "'a put"
  cget :: "'a get"

text \<open>The library: \<open>call1\<close> on a state that stands for everything at the other end.\<close>

record 's rpc_lib =
  l_call1 :: "u32 \<Rightarrow> marshall \<Rightarrow> int \<Rightarrow> 's \<Rightarrow> ((int \<times> unmarshall) \<times> 's) res"
  l_okdone :: "unmarshall \<Rightarrow> bool"

definition call_m ::
    "'s rpc_lib \<Rightarrow> 'r codec \<Rightarrow> u32 \<Rightarrow> marshall \<Rightarrow> 'r \<Rightarrow> int \<Rightarrow> 's \<Rightarrow> ((int \<times> 'r) \<times> 's) res" where
  "call_m lib cr proc req r to s =
     and_then (l_call1 lib proc req to s) (\<lambda>((intret, u), s).
       if intret < 0 then Inr ((intret, r), s)
       else let (r, u) = cget cr u
            in guard Assert_fail (l_okdone lib u) (Inr ((intret, r), s)))"

definition rpc_call0 ::
    "env \<Rightarrow> 's rpc_lib \<Rightarrow> 'r codec \<Rightarrow> u32 \<Rightarrow>
     'r \<Rightarrow> int \<Rightarrow> 's \<Rightarrow> ((int \<times> 'r) \<times> 's) res" where
  "rpc_call0 e lib cr proc r to s =
     (let m = marshall_new e
      in call_m lib cr proc m r to s)"

definition rpc_call1 ::
    "env \<Rightarrow> 's rpc_lib \<Rightarrow> 'a1 codec \<Rightarrow> 'r codec \<Rightarrow> u32 \<Rightarrow>
     'a1 \<Rightarrow> 'r \<Rightarrow> int \<Rightarrow> 's \<Rightarrow> ((int \<times> 'r) \<times> 's) res" where
  "rpc_call1 e lib c1 cr proc a1 r to s =
     (let m = marshall_new e;
          m = cput c1 a1 m
      in call_m lib cr proc m r to s)"

definition rpc_call2 ::
    "env \<Rightarrow> 's rpc_lib \<Rightarrow> 'a1 codec \<Rightarrow> 'a2 codec \<Rightarrow> 'r codec \<Rightarrow> u32 \<Rightarrow>
     'a1 \<Rightarrow> 'a2 \<Rightarrow> 'r \<Rightarrow> int \<Rightarrow> 's \<Rightarrow> ((int \<times> 'r) \<times> 's) res" where
  "rpc_call2 e lib c1 c2 cr proc a1 a2 r to s =
     (let m = marshall_new e;
          m = cput c1 a1 m;
          m = cput c2 a2 m
      in call_m lib cr proc m r to s)"

definition rpc_call3 ::
    "env \<Rightarrow> 's rpc_lib \<Rightarrow> 'a1 codec \<Rightarrow> 'a2 codec \<Rightarrow> 'a3 codec \<Rightarrow> 'r codec \<Rightarrow> u32 \<Rightarrow>
     'a1 \<Rightarrow> 'a2 \<Rightarrow> 'a3 \<Rightarrow> 'r \<Rightarrow> int \<Rightarrow> 's \<Rightarrow> ((int \<times> 'r) \<times> 's) res" where
  "rpc_call3 e lib c1 c2 c3 cr proc a1 a2 a3 r to s =
     (let m = marshall_new e;
          m = cput c1 a1 m;
          m = cput c2 a2 m;
          m = cput c3 a3 m
      in call_m lib cr proc m r to s)"

definition rpc_call4 ::
    "env \<Rightarrow> 's rpc_lib \<Rightarrow> 'a1 codec \<Rightarrow> 'a2 codec \<Rightarrow> 'a3 codec \<Rightarrow> 'a4 codec \<Rightarrow> 'r codec \<Rightarrow> u32 \<Rightarrow>
     'a1 \<Rightarrow> 'a2 \<Rightarrow> 'a3 \<Rightarrow> 'a4 \<Rightarrow> 'r \<Rightarrow> int \<Rightarrow> 's \<Rightarrow> ((int \<times> 'r) \<times> 's) res" where
  "rpc_call4 e lib c1 c2 c3 c4 cr proc a1 a2 a3 a4 r to s =
     (let m = marshall_new e;
          m = cput c1 a1 m;
          m = cput c2 a2 m;
          m = cput c3 a3 m;
          m = cput c4 a4 m
      in call_m lib cr proc m r to s)"

definition rpc_call5 ::
    "env \<Rightarrow> 's rpc_lib \<Rightarrow> 'a1 codec \<Rightarrow> 'a2 codec \<Rightarrow> 'a3 codec \<Rightarrow> 'a4 codec \<Rightarrow> 'a5 codec \<Rightarrow> 'r codec \<Rightarrow> u32 \<Rightarrow>
     'a1 \<Rightarrow> 'a2 \<Rightarrow> 'a3 \<Rightarrow> 'a4 \<Rightarrow> 'a5 \<Rightarrow> 'r \<Rightarrow> int \<Rightarrow> 's \<Rightarrow> ((int \<times> 'r) \<times> 's) res" where
  "rpc_call5 e lib c1 c2 c3 c4 c5 cr proc a1 a2 a3 a4 a5 r to s =
     (let m = marshall_new e;
          m = cput c1 a1 m;
          m = cput c2 a2 m;
          m = cput c3 a3 m;
          m = cput c4 a4 m;
          m = cput c5 a5 m
      in call_m lib cr proc m r to s)"

definition rpc_call6 ::
    "env \<Rightarrow> 's rpc_lib \<Rightarrow> 'a1 codec \<Rightarrow> 'a2 codec \<Rightarrow> 'a3 codec \<Rightarrow> 'a4 codec \<Rightarrow> 'a5 codec \<Rightarrow> 'a6 codec \<Rightarrow> 'r codec \<Rightarrow> u32 \<Rightarrow>
     'a1 \<Rightarrow> 'a2 \<Rightarrow> 'a3 \<Rightarrow> 'a4 \<Rightarrow> 'a5 \<Rightarrow> 'a6 \<Rightarrow> 'r \<Rightarrow> int \<Rightarrow> 's \<Rightarrow> ((int \<times> 'r) \<times> 's) res" where
  "rpc_call6 e lib c1 c2 c3 c4 c5 c6 cr proc a1 a2 a3 a4 a5 a6 r to s =
     (let m = marshall_new e;
          m = cput c1 a1 m;
          m = cput c2 a2 m;
          m = cput c3 a3 m;
          m = cput c4 a4 m;
          m = cput c5 a5 m;
          m = cput c6 a6 m
      in call_m lib cr proc m r to s)"

definition rpc_call7 ::
    "env \<Rightarrow> 's rpc_lib \<Rightarrow> 'a1 codec \<Rightarrow> 'a2 codec \<Rightarrow> 'a3 codec \<Rightarrow> 'a4 codec \<Rightarrow> 'a5 codec \<Rightarrow> 'a6 codec \<Rightarrow> 'a7 codec \<Rightarrow> 'r codec \<Rightarrow> u32 \<Rightarrow>
     'a1 \<Rightarrow> 'a2 \<Rightarrow> 'a3 \<Rightarrow> 'a4 \<Rightarrow> 'a5 \<Rightarrow> 'a6 \<Rightarrow> 'a7 \<Rightarrow> 'r \<Rightarrow> int \<Rightarrow> 's \<Rightarrow> ((int \<times> 'r) \<times> 's) res" where
  "rpc_call7 e lib c1 c2 c3 c4 c5 c6 c7 cr proc a1 a2 a3 a4 a5 a6 a7 r to s =
     (let m = marshall_new e;
          m = cput c1 a1 m;
          m = cput c2 a2 m;
          m = cput c3 a3 m;
          m = cput c4 a4 m;
          m = cput c5 a5 m;
          m = cput c6 a6 m;
          m = cput c7 a7 m
      in call_m lib cr proc m r to s)"

section \<open>The server side\<close>

text \<open>
  \<open>h1::fn\<close> of the seven templates: the arguments are taken from the request, the method runs
  only if they used it up exactly, and its result is put into the reply. \<open>r0\<close> is the result
  variable before the method sets it.
\<close>

definition rpc_fn1 ::
    "(unmarshall \<Rightarrow> bool) \<Rightarrow> 'a1 codec \<Rightarrow> 'r codec \<Rightarrow>
     ('a1 \<Rightarrow> 'r \<Rightarrow> 's \<Rightarrow> ((int \<times> 'r) \<times> 's) res) \<Rightarrow> 'r \<Rightarrow>
     unmarshall \<Rightarrow> marshall \<Rightarrow> 's \<Rightarrow> ((int \<times> marshall) \<times> 's) res" where
  "rpc_fn1 okdone c1 cr meth r0 args ret s =
     (let (a1, args) = cget c1 args
      in if \<not> okdone args then Inr ((unmarshal_args_failure, ret), s)
         else and_then (meth a1 r0 s) (\<lambda>((b, r), s). Inr ((b, cput cr r ret), s)))"

definition rpc_fn2 ::
    "(unmarshall \<Rightarrow> bool) \<Rightarrow> 'a1 codec \<Rightarrow> 'a2 codec \<Rightarrow> 'r codec \<Rightarrow>
     ('a1 \<Rightarrow> 'a2 \<Rightarrow> 'r \<Rightarrow> 's \<Rightarrow> ((int \<times> 'r) \<times> 's) res) \<Rightarrow> 'r \<Rightarrow>
     unmarshall \<Rightarrow> marshall \<Rightarrow> 's \<Rightarrow> ((int \<times> marshall) \<times> 's) res" where
  "rpc_fn2 okdone c1 c2 cr meth r0 args ret s =
     (let (a1, args) = cget c1 args;
          (a2, args) = cget c2 args
      in if \<not> okdone args then Inr ((unmarshal_args_failure, ret), s)
         else and_then (meth a1 a2 r0 s) (\<lambda>((b, r), s). Inr ((b, cput cr r ret), s)))"

definition rpc_fn3 ::
    "(unmarshall \<Rightarrow> bool) \<Rightarrow> 'a1 codec \<Rightarrow> 'a2 codec \<Rightarrow> 'a3 codec \<Rightarrow> 'r codec \<Rightarrow>
     ('a1 \<Rightarrow> 'a2 \<Rightarrow> 'a3 \<Rightarrow> 'r \<Rightarrow> 's \<Rightarrow> ((int \<times> 'r) \<times> 's) res) \<Rightarrow> 'r \<Rightarrow>
     unmarshall \<Rightarrow> marshall \<Rightarrow> 's \<Rightarrow> ((int \<times> marshall) \<times> 's) res" where
  "rpc_fn3 okdone c1 c2 c3 cr meth r0 args ret s =
     (let (a1, args) = cget c1 args;
          (a2, args) = cget c2 args;
          (a3, args) = cget c3 args
      in if \<not> okdone args then Inr ((unmarshal_args_failure, ret), s)
         else and_then (meth a1 a2 a3 r0 s) (\<lambda>((b, r), s). Inr ((b, cput cr r ret), s)))"

definition rpc_fn4 ::
    "(unmarshall \<Rightarrow> bool) \<Rightarrow> 'a1 codec \<Rightarrow> 'a2 codec \<Rightarrow> 'a3 codec \<Rightarrow> 'a4 codec \<Rightarrow> 'r codec \<Rightarrow>
     ('a1 \<Rightarrow> 'a2 \<Rightarrow> 'a3 \<Rightarrow> 'a4 \<Rightarrow> 'r \<Rightarrow> 's \<Rightarrow> ((int \<times> 'r) \<times> 's) res) \<Rightarrow> 'r \<Rightarrow>
     unmarshall \<Rightarrow> marshall \<Rightarrow> 's \<Rightarrow> ((int \<times> marshall) \<times> 's) res" where
  "rpc_fn4 okdone c1 c2 c3 c4 cr meth r0 args ret s =
     (let (a1, args) = cget c1 args;
          (a2, args) = cget c2 args;
          (a3, args) = cget c3 args;
          (a4, args) = cget c4 args
      in if \<not> okdone args then Inr ((unmarshal_args_failure, ret), s)
         else and_then (meth a1 a2 a3 a4 r0 s) (\<lambda>((b, r), s). Inr ((b, cput cr r ret), s)))"

definition rpc_fn5 ::
    "(unmarshall \<Rightarrow> bool) \<Rightarrow> 'a1 codec \<Rightarrow> 'a2 codec \<Rightarrow> 'a3 codec \<Rightarrow> 'a4 codec \<Rightarrow> 'a5 codec \<Rightarrow> 'r codec \<Rightarrow>
     ('a1 \<Rightarrow> 'a2 \<Rightarrow> 'a3 \<Rightarrow> 'a4 \<Rightarrow> 'a5 \<Rightarrow> 'r \<Rightarrow> 's \<Rightarrow> ((int \<times> 'r) \<times> 's) res) \<Rightarrow> 'r \<Rightarrow>
     unmarshall \<Rightarrow> marshall \<Rightarrow> 's \<Rightarrow> ((int \<times> marshall) \<times> 's) res" where
  "rpc_fn5 okdone c1 c2 c3 c4 c5 cr meth r0 args ret s =
     (let (a1, args) = cget c1 args;
          (a2, args) = cget c2 args;
          (a3, args) = cget c3 args;
          (a4, args) = cget c4 args;
          (a5, args) = cget c5 args
      in if \<not> okdone args then Inr ((unmarshal_args_failure, ret), s)
         else and_then (meth a1 a2 a3 a4 a5 r0 s) (\<lambda>((b, r), s). Inr ((b, cput cr r ret), s)))"

definition rpc_fn6 ::
    "(unmarshall \<Rightarrow> bool) \<Rightarrow> 'a1 codec \<Rightarrow> 'a2 codec \<Rightarrow> 'a3 codec \<Rightarrow> 'a4 codec \<Rightarrow> 'a5 codec \<Rightarrow> 'a6 codec \<Rightarrow> 'r codec \<Rightarrow>
     ('a1 \<Rightarrow> 'a2 \<Rightarrow> 'a3 \<Rightarrow> 'a4 \<Rightarrow> 'a5 \<Rightarrow> 'a6 \<Rightarrow> 'r \<Rightarrow> 's \<Rightarrow> ((int \<times> 'r) \<times> 's) res) \<Rightarrow> 'r \<Rightarrow>
     unmarshall \<Rightarrow> marshall \<Rightarrow> 's \<Rightarrow> ((int \<times> marshall) \<times> 's) res" where
  "rpc_fn6 okdone c1 c2 c3 c4 c5 c6 cr meth r0 args ret s =
     (let (a1, args) = cget c1 args;
          (a2, args) = cget c2 args;
          (a3, args) = cget c3 args;
          (a4, args) = cget c4 args;
          (a5, args) = cget c5 args;
          (a6, args) = cget c6 args
      in if \<not> okdone args then Inr ((unmarshal_args_failure, ret), s)
         else and_then (meth a1 a2 a3 a4 a5 a6 r0 s) (\<lambda>((b, r), s). Inr ((b, cput cr r ret), s)))"

definition rpc_fn7 ::
    "(unmarshall \<Rightarrow> bool) \<Rightarrow> 'a1 codec \<Rightarrow> 'a2 codec \<Rightarrow> 'a3 codec \<Rightarrow> 'a4 codec \<Rightarrow> 'a5 codec \<Rightarrow> 'a6 codec \<Rightarrow> 'a7 codec \<Rightarrow> 'r codec \<Rightarrow>
     ('a1 \<Rightarrow> 'a2 \<Rightarrow> 'a3 \<Rightarrow> 'a4 \<Rightarrow> 'a5 \<Rightarrow> 'a6 \<Rightarrow> 'a7 \<Rightarrow> 'r \<Rightarrow> 's \<Rightarrow> ((int \<times> 'r) \<times> 's) res) \<Rightarrow> 'r \<Rightarrow>
     unmarshall \<Rightarrow> marshall \<Rightarrow> 's \<Rightarrow> ((int \<times> marshall) \<times> 's) res" where
  "rpc_fn7 okdone c1 c2 c3 c4 c5 c6 c7 cr meth r0 args ret s =
     (let (a1, args) = cget c1 args;
          (a2, args) = cget c2 args;
          (a3, args) = cget c3 args;
          (a4, args) = cget c4 args;
          (a5, args) = cget c5 args;
          (a6, args) = cget c6 args;
          (a7, args) = cget c7 args
      in if \<not> okdone args then Inr ((unmarshal_args_failure, ret), s)
         else and_then (meth a1 a2 a3 a4 a5 a6 a7 r0 s) (\<lambda>((b, r), s). Inr ((b, cput cr r ret), s)))"

section \<open>The extent server's table of handlers\<close>

text \<open>
  The registrations of \<open>extent_smain.cc\<close>, with the operators of the types that occur in them.
  \<open>put\<close> and \<open>remove\<close> do not set their result.
\<close>

record extent_codecs =
  k_cid :: "cid codec"
  k_id :: "extentid_t codec"
  k_uint :: "u32 codec"
  k_str :: "byte list codec"
  k_int :: "int codec"

definition k_attr :: "extent_codecs \<Rightarrow> attr codec" where
  "k_attr k = \<lparr>cput = put_attr (cput (k_uint k)), cget = get_attr (cget (k_uint k))\<rparr>"

definition EXTENT_put :: u32 where [simp]: "EXTENT_put = 0x6001"
definition EXTENT_get :: u32 where [simp]: "EXTENT_get = 0x6002"
definition EXTENT_getattr :: u32 where [simp]: "EXTENT_getattr = 0x6003"
definition EXTENT_remove :: u32 where [simp]: "EXTENT_remove = 0x6004"
definition EXTENT_create :: u32 where [simp]: "EXTENT_create = 0x6005"

definition extent_smain ::
    "(unmarshall \<Rightarrow> bool) \<Rightarrow> extent_codecs \<Rightarrow> (cid \<Rightarrow> bool) \<Rightarrow> env \<Rightarrow> u32 \<Rightarrow>
     (unmarshall \<Rightarrow> marshall \<Rightarrow> extent_world \<Rightarrow> ((int \<times> marshall) \<times> extent_world) res) option" where
  "extent_smain okdone k up e proc =
     (if proc = EXTENT_get then
        Some (rpc_fn2 okdone (k_cid k) (k_id k) (k_str k) (\<lambda>c i r w. es_get up e c i w) [])
      else if proc = EXTENT_getattr then
        Some (rpc_fn2 okdone (k_cid k) (k_id k) (k_attr k)
          (\<lambda>c i r w. and_then (es_getattr up e c i w) (\<lambda>x. Inr (x, w))) attr_zero)
      else if proc = EXTENT_put then
        Some (rpc_fn3 okdone (k_cid k) (k_id k) (k_str k) (k_int k)
          (\<lambda>c i b r w. and_then (es_put e c i b w) (\<lambda>(x, w). Inr ((x, r), w))) 0)
      else if proc = EXTENT_remove then
        Some (rpc_fn2 okdone (k_cid k) (k_id k) (k_int k)
          (\<lambda>c i r w. and_then (es_remove up e c i w) (\<lambda>(x, w). Inr ((x, r), w))) 0)
      else if proc = EXTENT_create then
        Some (rpc_fn2 okdone (k_cid k) (k_uint k) (k_id k) (\<lambda>c t r w. es_create e c t w) 0)
      else None)"

end
