(* ===== verification/Rpc_Props.thy ===== *)
theory Rpc_Props
  imports Rpc "HOL-Library.Countable"
begin

text \<open>
  A remote call is the call: over a library that delivers a request to its handler and the
  reply back, and with operators that invert each other, the stubs of both sides together run
  the method with the caller's arguments and return its result. The extent layer, which calls
  the server directly, rests on this.
\<close>

section \<open>What the library promises\<close>

definition codec_ok :: "('a \<Rightarrow> byte list) \<Rightarrow> 'a codec \<Rightarrow> bool" where
  "codec_ok enc c \<longleftrightarrow> puts enc (cput c) \<and> gets enc (cget c)"

definition okdone_ok :: "(unmarshall \<Rightarrow> bool) \<Rightarrow> bool" where
  "okdone_ok okdone \<longleftrightarrow> (\<forall>u. okdone u \<longleftrightarrow> u_ok u \<and> u_rest u = [])"

text \<open>\<open>call1\<close> sends the content of the request, the handler runs on it, its reply comes back.\<close>

definition delivers ::
    "env \<Rightarrow> 's rpc_lib \<Rightarrow> u32 \<Rightarrow> (unmarshall \<Rightarrow> marshall \<Rightarrow> 's \<Rightarrow> ((int \<times> marshall) \<times> 's) res) \<Rightarrow> bool" where
  "delivers e lib proc fn \<longleftrightarrow> (\<forall>m to s. l_call1 lib proc m to s =
     and_then (fn (take_content e (get_content m)) (marshall_new e) s)
       (\<lambda>((b, rep), s). Inr ((b, take_content e (get_content rep)), s)))"

lemma codec_putD: "codec_ok enc c \<Longrightarrow> get_content (cput c a m) = get_content m @ enc a"
  by (simp add: codec_ok_def puts_def)

lemma codec_getD:
  assumes "codec_ok enc c" "u_ok u" "u_rest u = enc a @ bs"
  obtains u' where "cget c u = (a, u')" "u_ok u'" "u_rest u' = bs"
  using assms getsD [of enc "cget c" u a bs] unfolding codec_ok_def by blast

section \<open>Transparency\<close>

text \<open>The result variable is left alone when the method returns a negative status.\<close>

definition as_called :: "'r \<Rightarrow> ((int \<times> 'r) \<times> 's) res \<Rightarrow> ((int \<times> 'r) \<times> 's) res" where
  "as_called r res = and_then res (\<lambda>((b, r'), s). Inr ((b, if b < 0 then r else r'), s))"

text \<open>
  A handler consumes its request argument by argument: \<open>takes bs f y\<close> says that \<open>f\<close> yields \<open>y\<close> on
  every request that still holds \<open>bs\<close>.
\<close>

definition takes :: "byte list \<Rightarrow> (unmarshall \<Rightarrow> 'b) \<Rightarrow> 'b \<Rightarrow> bool" where
  "takes bs f y \<longleftrightarrow> (\<forall>u. u_ok u \<longrightarrow> u_rest u = bs \<longrightarrow> f u = y)"

lemma takes_arg:
  assumes "codec_ok enc c" "takes bs (F a) y"
  shows "takes (enc a @ bs) (\<lambda>u. let (a, u) = cget c u in F a u) y"
  unfolding takes_def
proof (intro allI impI)
  fix u assume "u_ok u" "u_rest u = enc a @ bs"
  then obtain u' where "cget c u = (a, u')" "u_ok u'" "u_rest u' = bs" by (rule codec_getD [OF assms(1)])
  then show "(let (a, u) = cget c u in F a u) = y" using assms(2) by (simp add: takes_def)
qed

lemma takes_end: "okdone_ok okdone \<Longrightarrow> takes [] (\<lambda>u. if \<not> okdone u then x else y) y"
  by (simp add: takes_def okdone_ok_def)

lemma call_m_takes:
  assumes "delivers e lib proc fn" "okdone_ok (l_okdone lib)" "codec_ok er cr" "get_content m = bs"
    and "takes bs (\<lambda>u. fn u (marshall_new e) s)
      (and_then res (\<lambda>((b, r'), s). Inr ((b, cput cr r' (marshall_new e)), s)))"
  shows "call_m lib cr proc m r to s = as_called r res"
proof -
  have fn: "fn (take_content e (get_content m)) (marshall_new e) s =
      and_then res (\<lambda>((b, r'), s). Inr ((b, cput cr r' (marshall_new e)), s))"
    using assms(4,5) take_content_rest by (simp add: takes_def)
  show ?thesis
  proof (cases res)
    case (Inr x)
    obtain b r' s' where x: "x = ((b, r'), s')" by (metis prod.collapse)
    let ?u = "take_content e (get_content (cput cr r' (marshall_new e)))"
    have "u_rest ?u = er r' @ []" by (simp add: codec_putD [OF assms(3)])
    then obtain u' where "cget cr ?u = (r', u')" "u_ok u'" "u_rest u' = []"
      by (rule codec_getD [OF assms(3) take_content_rest(1)])
    then show ?thesis
      using assms(1,2) fn Inr x by (simp add: call_m_def delivers_def as_called_def okdone_ok_def)
  qed (use assms(1) fn in \<open>simp add: call_m_def delivers_def as_called_def\<close>)
qed

lemma rpc_transparent1:
  assumes "codec_ok e1 c1"
    and "codec_ok er cr" "okdone_ok (l_okdone lib)"
    and "delivers e lib proc (rpc_fn1 (l_okdone lib) c1 cr meth r0)"
  shows "rpc_call1 e lib c1 cr proc a1 r to s = as_called r (meth a1 r0 s)"
  unfolding rpc_call1_def Let_def
  by (rule call_m_takes [OF assms(4,3,2), where bs = "e1 a1 @ []"])
    (simp add: codec_putD [OF assms(1)], unfold rpc_fn1_def, intro takes_arg [OF assms(1)] takes_end [OF assms(3)])

lemma rpc_transparent2:
  assumes "codec_ok e1 c1" "codec_ok e2 c2"
    and "codec_ok er cr" "okdone_ok (l_okdone lib)"
    and "delivers e lib proc (rpc_fn2 (l_okdone lib) c1 c2 cr meth r0)"
  shows "rpc_call2 e lib c1 c2 cr proc a1 a2 r to s = as_called r (meth a1 a2 r0 s)"
  unfolding rpc_call2_def Let_def
  by (rule call_m_takes [OF assms(5,4,3), where bs = "e1 a1 @ e2 a2 @ []"])
    (simp add: codec_putD [OF assms(1)] codec_putD [OF assms(2)], unfold rpc_fn2_def, intro takes_arg [OF assms(1)] takes_arg [OF assms(2)] takes_end [OF assms(4)])

lemma rpc_transparent3:
  assumes "codec_ok e1 c1" "codec_ok e2 c2" "codec_ok e3 c3"
    and "codec_ok er cr" "okdone_ok (l_okdone lib)"
    and "delivers e lib proc (rpc_fn3 (l_okdone lib) c1 c2 c3 cr meth r0)"
  shows "rpc_call3 e lib c1 c2 c3 cr proc a1 a2 a3 r to s = as_called r (meth a1 a2 a3 r0 s)"
  unfolding rpc_call3_def Let_def
  by (rule call_m_takes [OF assms(6,5,4), where bs = "e1 a1 @ e2 a2 @ e3 a3 @ []"])
    (simp add: codec_putD [OF assms(1)] codec_putD [OF assms(2)] codec_putD [OF assms(3)], unfold rpc_fn3_def, intro takes_arg [OF assms(1)] takes_arg [OF assms(2)] takes_arg [OF assms(3)] takes_end [OF assms(5)])

lemma rpc_transparent4:
  assumes "codec_ok e1 c1" "codec_ok e2 c2" "codec_ok e3 c3" "codec_ok e4 c4"
    and "codec_ok er cr" "okdone_ok (l_okdone lib)"
    and "delivers e lib proc (rpc_fn4 (l_okdone lib) c1 c2 c3 c4 cr meth r0)"
  shows "rpc_call4 e lib c1 c2 c3 c4 cr proc a1 a2 a3 a4 r to s = as_called r (meth a1 a2 a3 a4 r0 s)"
  unfolding rpc_call4_def Let_def
  by (rule call_m_takes [OF assms(7,6,5), where bs = "e1 a1 @ e2 a2 @ e3 a3 @ e4 a4 @ []"])
    (simp add: codec_putD [OF assms(1)] codec_putD [OF assms(2)] codec_putD [OF assms(3)] codec_putD [OF assms(4)], unfold rpc_fn4_def, intro takes_arg [OF assms(1)] takes_arg [OF assms(2)] takes_arg [OF assms(3)] takes_arg [OF assms(4)] takes_end [OF assms(6)])

lemma rpc_transparent5:
  assumes "codec_ok e1 c1" "codec_ok e2 c2" "codec_ok e3 c3" "codec_ok e4 c4" "codec_ok e5 c5"
    and "codec_ok er cr" "okdone_ok (l_okdone lib)"
    and "delivers e lib proc (rpc_fn5 (l_okdone lib) c1 c2 c3 c4 c5 cr meth r0)"
  shows "rpc_call5 e lib c1 c2 c3 c4 c5 cr proc a1 a2 a3 a4 a5 r to s = as_called r (meth a1 a2 a3 a4 a5 r0 s)"
  unfolding rpc_call5_def Let_def
  by (rule call_m_takes [OF assms(8,7,6), where bs = "e1 a1 @ e2 a2 @ e3 a3 @ e4 a4 @ e5 a5 @ []"])
    (simp add: codec_putD [OF assms(1)] codec_putD [OF assms(2)] codec_putD [OF assms(3)] codec_putD [OF assms(4)] codec_putD [OF assms(5)], unfold rpc_fn5_def, intro takes_arg [OF assms(1)] takes_arg [OF assms(2)] takes_arg [OF assms(3)] takes_arg [OF assms(4)] takes_arg [OF assms(5)] takes_end [OF assms(7)])

lemma rpc_transparent6:
  assumes "codec_ok e1 c1" "codec_ok e2 c2" "codec_ok e3 c3" "codec_ok e4 c4" "codec_ok e5 c5" "codec_ok e6 c6"
    and "codec_ok er cr" "okdone_ok (l_okdone lib)"
    and "delivers e lib proc (rpc_fn6 (l_okdone lib) c1 c2 c3 c4 c5 c6 cr meth r0)"
  shows "rpc_call6 e lib c1 c2 c3 c4 c5 c6 cr proc a1 a2 a3 a4 a5 a6 r to s = as_called r (meth a1 a2 a3 a4 a5 a6 r0 s)"
  unfolding rpc_call6_def Let_def
  by (rule call_m_takes [OF assms(9,8,7), where bs = "e1 a1 @ e2 a2 @ e3 a3 @ e4 a4 @ e5 a5 @ e6 a6 @ []"])
    (simp add: codec_putD [OF assms(1)] codec_putD [OF assms(2)] codec_putD [OF assms(3)] codec_putD [OF assms(4)] codec_putD [OF assms(5)] codec_putD [OF assms(6)], unfold rpc_fn6_def, intro takes_arg [OF assms(1)] takes_arg [OF assms(2)] takes_arg [OF assms(3)] takes_arg [OF assms(4)] takes_arg [OF assms(5)] takes_arg [OF assms(6)] takes_end [OF assms(8)])

lemma rpc_transparent7:
  assumes "codec_ok e1 c1" "codec_ok e2 c2" "codec_ok e3 c3" "codec_ok e4 c4" "codec_ok e5 c5" "codec_ok e6 c6" "codec_ok e7 c7"
    and "codec_ok er cr" "okdone_ok (l_okdone lib)"
    and "delivers e lib proc (rpc_fn7 (l_okdone lib) c1 c2 c3 c4 c5 c6 c7 cr meth r0)"
  shows "rpc_call7 e lib c1 c2 c3 c4 c5 c6 c7 cr proc a1 a2 a3 a4 a5 a6 a7 r to s = as_called r (meth a1 a2 a3 a4 a5 a6 a7 r0 s)"
  unfolding rpc_call7_def Let_def
  by (rule call_m_takes [OF assms(10,9,8), where bs = "e1 a1 @ e2 a2 @ e3 a3 @ e4 a4 @ e5 a5 @ e6 a6 @ e7 a7 @ []"])
    (simp add: codec_putD [OF assms(1)] codec_putD [OF assms(2)] codec_putD [OF assms(3)] codec_putD [OF assms(4)] codec_putD [OF assms(5)] codec_putD [OF assms(6)] codec_putD [OF assms(7)], unfold rpc_fn7_def, intro takes_arg [OF assms(1)] takes_arg [OF assms(2)] takes_arg [OF assms(3)] takes_arg [OF assms(4)] takes_arg [OF assms(5)] takes_arg [OF assms(6)] takes_arg [OF assms(7)] takes_end [OF assms(9)])

section \<open>The extent protocol over the wire\<close>

text \<open>What the client's stubs rely on: sound operators, and a library that delivers.\<close>

definition wire_ok :: "env \<Rightarrow> (cid \<Rightarrow> bool) \<Rightarrow> env \<Rightarrow> extent_codecs \<Rightarrow> extent_world rpc_lib \<Rightarrow> bool" where
  "wire_ok e up e' k lib \<longleftrightarrow>
     (\<exists>enc. codec_ok enc (k_cid k)) \<and> (\<exists>enc. codec_ok enc (k_id k)) \<and> (\<exists>enc. codec_ok enc (k_uint k)) \<and>
     (\<exists>enc. codec_ok enc (k_str k)) \<and> (\<exists>enc. codec_ok enc (k_int k)) \<and> okdone_ok (l_okdone lib) \<and>
     (\<forall>proc fn. extent_smain (l_okdone lib) k up e' proc = Some fn \<longrightarrow> delivers e lib proc fn)"

lemma attr_codec_ok: "codec_ok enc (k_uint k) \<Longrightarrow> codec_ok (enc_attr enc) (k_attr k)"
  by (simp add: codec_ok_def k_attr_def attr_puts attr_gets)

lemma as_called_ok: "(\<And>b r' s. res = Inr ((b, r'), s) \<Longrightarrow> 0 \<le> b) \<Longrightarrow> as_called r res = res"
  by (cases res) (auto simp: as_called_def)

lemma es_status:
  "es_get up e c i w = Inr ((b, d), w') \<Longrightarrow> b = 0" "es_getattr up e c i w = Inr (b, a) \<Longrightarrow> b = 0"
  "es_put e c i d w = Inr (b, w') \<Longrightarrow> b = 0" "es_remove up e c i w = Inr (b, w') \<Longrightarrow> b = 0"
  "es_create e c t w = Inr ((b, j), w') \<Longrightarrow> b = 0"
  by (auto simp: es_get_def es_getattr_def es_put_def es_remove_def es_create_def Let_def res_simps guard_def
      split: option.splits if_splits)


section \<open>A wire that works\<close>

text \<open>Operators for any type with an injection into the natural numbers, in unary.\<close>

definition enc_via :: "('a \<Rightarrow> nat) \<Rightarrow> 'a \<Rightarrow> byte list" where
  "enc_via f a = replicate (f a) 1 @ [0]"

definition codec_via :: "('a \<Rightarrow> nat) \<Rightarrow> (nat \<Rightarrow> 'a) \<Rightarrow> 'a codec" where
  "codec_via f g =
     \<lparr>cput = (\<lambda>a m. m\<lparr>m_buf := replicate RPC_HEADER_SZ 0 @ get_content m @ enc_via f a,
                m_ind := RPC_HEADER_SZ + length (get_content m @ enc_via f a)\<rparr>),
      cget = (\<lambda>u. let n = length (takeWhile (\<lambda>b. b = 1) (u_rest u))
                   in (g n, u\<lparr>u_ind := u_ind u + Suc n\<rparr>))\<rparr>"

lemma content_of_buf:
  "get_content (m\<lparr>m_buf := replicate RPC_HEADER_SZ 0 @ s, m_ind := RPC_HEADER_SZ + length s\<rparr>) = s"
  by (simp add: get_content_def bytes_at_def)

lemma codec_via_ok:
  assumes "\<And>a. g (f a) = a"
  shows "codec_ok (enc_via f) (codec_via f g)"
proof -
  have "puts (enc_via f) (cput (codec_via f g))"
    by (simp only: puts_def codec_via_def codec.simps content_of_buf) simp
  moreover have "gets (enc_via f) (cget (codec_via f g))"
    unfolding gets_def
  proof (intro allI impI)
    fix a :: 'a and u bs assume ok: "u_ok u" and r: "u_rest u = enc_via f a @ bs"
    have n: "length (takeWhile (\<lambda>b. b = 1) (u_rest u)) = f a"
      unfolding r enc_via_def by (simp add: takeWhile_tail)
    have "u_rest (u\<lparr>u_ind := u_ind u + Suc (f a)\<rparr>) = drop (Suc (f a)) (u_rest u)"
      by (simp add: u_rest_def bytes_at_def drop_take add.commute)
    also have "\<dots> = bs" unfolding r by (simp add: enc_via_def)
    finally show "\<exists>u'. cget (codec_via f g) u = (a, u') \<and> u_ok u' \<and> u_rest u' = bs"
      using n ok assms by (simp add: codec_via_def Let_def)
  qed
  ultimately show ?thesis by (simp add: codec_ok_def)
qed

definition unary_codecs :: extent_codecs where
  "unary_codecs = \<lparr>k_cid = codec_via (to_nat \<circ> map (of_char :: char \<Rightarrow> nat)) (map char_of \<circ> (from_nat :: nat \<Rightarrow> nat list)),
     k_id = codec_via unat word_of_nat, k_uint = codec_via unat word_of_nat,
     k_str = codec_via (to_nat \<circ> map unat) (map word_of_nat \<circ> (from_nat :: nat \<Rightarrow> nat list)),
     k_int = codec_via to_nat from_nat\<rparr>"

definition loopback_okdone :: "unmarshall \<Rightarrow> bool" where
  "loopback_okdone u \<longleftrightarrow> u_ok u \<and> u_rest u = []"

definition loopback ::
    "env \<Rightarrow> (u32 \<Rightarrow> (unmarshall \<Rightarrow> marshall \<Rightarrow> 's \<Rightarrow> ((int \<times> marshall) \<times> 's) res) option) \<Rightarrow> 's rpc_lib" where
  "loopback e tab =
     \<lparr>l_call1 = (\<lambda>proc m to s. case tab proc of
          None \<Rightarrow> Inl Blocked
        | Some fn \<Rightarrow> and_then (fn (take_content e (get_content m)) (marshall_new e) s)
            (\<lambda>((b, rep), s). Inr ((b, take_content e (get_content rep)), s))),
      l_okdone = loopback_okdone\<rparr>"

lemma loopback_ok [simp]: "l_okdone (loopback e tab) = loopback_okdone" "okdone_ok loopback_okdone"
  by (simp_all add: okdone_ok_def loopback_def loopback_okdone_def)

lemma loopback_delivers [simp]: "tab proc = Some fn \<Longrightarrow> delivers e (loopback e tab) proc fn"
  by (simp add: delivers_def loopback_def)

abbreviation extent_loop :: "(cid \<Rightarrow> bool) \<Rightarrow> env \<Rightarrow> extent_world rpc_lib" where
  "extent_loop up e \<equiv> loopback e (extent_smain loopback_okdone unary_codecs up e)"

lemma loopback_wire_ok: "wire_ok e up e unary_codecs (extent_loop up e)"
proof -
  have "codec_ok (enc_via (to_nat \<circ> map (of_char :: char \<Rightarrow> nat))) (k_cid unary_codecs)"
    "codec_ok (enc_via unat) (k_id unary_codecs)" "codec_ok (enc_via unat) (k_uint unary_codecs)"
    "codec_ok (enc_via (to_nat \<circ> map unat)) (k_str unary_codecs)" "codec_ok (enc_via to_nat) (k_int unary_codecs)"
    unfolding unary_codecs_def extent_codecs.simps by (rule codec_via_ok; simp add: comp_def)+
  then show ?thesis unfolding wire_ok_def by (intro conjI allI impI exI; (assumption | simp))
qed


end
