(* ===== verification/Lock_Server.thy ===== *)
theory Lock_Server
  imports Lock_Protocol
begin

text \<open>
  The plain lock server of \<open>lock_server.cc\<close> and its client stub \<open>lock_client.cc\<close>. An RPC
  handler runs under the server's mutex and gives it up only inside \<open>pthread_cond_wait\<close>,
  so a handler is a sequence of atomic segments: \<open>ls_acquire\<close> runs to the first return or
  wait, \<open>ls_acquire_resume\<close> from a wake-up to the next one. The system of handler threads
  interleaves the segments arbitrarily and may wake any waiting thread for no reason. The
  pthread calls themselves are taken to succeed, so that the wrappers \<open>Pthread_mutex_lock\<close>
  and so on return.
\<close>

section \<open>The server\<close>

text \<open>
  \<open>cond_map\<close> holds \<open>True\<close> for a condition variable made by \<open>new\<close> and \<open>False\<close> for the null
  pointer that \<open>operator[]\<close> stores under a key it does not find.
\<close>

record lock_server =
  nacquire :: int
  cond_map :: "lockid_t \<rightharpoonup> bool"
  lock_map :: "lockid_t \<rightharpoonup> int"

definition ls_new :: lock_server where
  "ls_new = \<lparr>nacquire = 0, cond_map = Map.empty, lock_map = Map.empty\<rparr>"

datatype ls_outcome = Granted lock_status | Waiting

definition ls_stat :: "int \<Rightarrow> lockid_t \<Rightarrow> lock_server \<Rightarrow> lock_status \<times> int" where
  "ls_stat clt lid s = (L_OK, nacquire s)"

text \<open>The loop \<open>while (lock_map[lid] == 1) Pthread_cond_wait(cond_map[lid], &mutex);\<close> up to
  its next wait or its end, and the assignment after it.\<close>

definition ls_wait_loop :: "lockid_t \<Rightarrow> lock_server \<Rightarrow> (ls_outcome \<times> lock_server) res" where
  "ls_wait_loop lid s =
     (if lock_map s lid = Some 1
      then guard Null_deref (cond_map s lid = Some True) (Inr (Waiting, s))
      else Inr (Granted L_OK, s\<lparr>lock_map := (lock_map s)(lid \<mapsto> 1)\<rparr>))"

definition ls_acquire :: "int \<Rightarrow> lockid_t \<Rightarrow> lock_server \<Rightarrow> (ls_outcome \<times> lock_server) res" where
  "ls_acquire clt lid s =
     (case lock_map s lid of
        None \<Rightarrow> Inr (Granted L_OK, s\<lparr>cond_map := (cond_map s)(lid \<mapsto> True),
                                       lock_map := (lock_map s)(lid \<mapsto> 1)\<rparr>)
      | Some v \<Rightarrow>
          if v = 0 then Inr (Granted L_OK, s\<lparr>lock_map := (lock_map s)(lid \<mapsto> 1)\<rparr>)
          else ls_wait_loop lid s)"

definition ls_acquire_resume :: "lockid_t \<Rightarrow> lock_server \<Rightarrow> (ls_outcome \<times> lock_server) res" where
  "ls_acquire_resume lid s = ls_wait_loop lid s"

text \<open>\<open>Pthread_cond_signal(cond_map[lid])\<close>: the null pointer of a lock never acquired faults.\<close>

definition ls_release :: "int \<Rightarrow> lockid_t \<Rightarrow> lock_server \<Rightarrow> (lock_status \<times> lock_server) res" where
  "ls_release clt lid s =
     guard Null_deref (cond_map s lid = Some True)
       (Inr (L_OK, s\<lparr>lock_map := (lock_map s)(lid \<mapsto> 0)\<rparr>))"

section \<open>The client stub\<close>

text \<open>
  \<open>call\<close> stands for \<open>cl->call\<close> with the two arguments the stub passes: the status of the call
  and the value of the result parameter. \<open>clt\<close> is \<open>cl->id()\<close>, and the state is that of the other
  end.
\<close>

definition lock_client_acquire ::
    "(lock_rpc \<Rightarrow> u32 \<Rightarrow> lockid_t \<Rightarrow> 's \<Rightarrow> ((int \<times> int) \<times> 's) res) \<Rightarrow> u32 \<Rightarrow> lockid_t \<Rightarrow> 's \<Rightarrow>
     (int \<times> 's) res" where
  "lock_client_acquire call clt lid s =
     and_then (call RPC_acquire clt lid s) (\<lambda>((ret, r), s).
       guard Assert_fail (ret = lock_status_code L_OK) (Inr (r, s)))"

definition lock_client_release ::
    "(lock_rpc \<Rightarrow> u32 \<Rightarrow> lockid_t \<Rightarrow> 's \<Rightarrow> ((int \<times> int) \<times> 's) res) \<Rightarrow> u32 \<Rightarrow> lockid_t \<Rightarrow> 's \<Rightarrow>
     (int \<times> 's) res" where
  "lock_client_release call clt lid s =
     and_then (call RPC_release clt lid s) (\<lambda>((ret, r), s).
       guard Assert_fail (ret = lock_status_code L_OK) (Inr (r, s)))"

definition lock_client_stat ::
    "(lock_rpc \<Rightarrow> u32 \<Rightarrow> lockid_t \<Rightarrow> 's \<Rightarrow> ((int \<times> int) \<times> 's) res) \<Rightarrow> u32 \<Rightarrow> lockid_t \<Rightarrow> 's \<Rightarrow>
     (int \<times> 's) res" where
  "lock_client_stat call clt lid s =
     and_then (call RPC_stat clt lid s) (\<lambda>((ret, r), s).
       guard Assert_fail (ret = lock_status_code L_OK) (Inr (r, s)))"

section \<open>The system of handler threads\<close>

text \<open>
  \<open>waits\<close> are the threads inside \<open>Pthread_cond_wait\<close> with the lock they wait for, \<open>woken\<close>
  those of them that a signal has reached, \<open>holds\<close> the threads whose \<open>acquire\<close> has
  returned and whose client has not released the lock yet.
\<close>

record ls_system =
  server :: lock_server
  waits :: "(nat \<times> lockid_t) set"
  woken :: "(nat \<times> lockid_t) set"
  holds :: "(nat \<times> lockid_t) set"

definition ls_start :: ls_system where
  "ls_start = \<lparr>server = ls_new, waits = {}, woken = {}, holds = {}\<rparr>"

text \<open>What becomes of a thread after a segment of \<open>acquire\<close>.\<close>

definition settle :: "nat \<Rightarrow> lockid_t \<Rightarrow> ls_outcome \<Rightarrow> lock_server \<Rightarrow> ls_system \<Rightarrow> ls_system" where
  "settle t lid out srv y =
     (case out of
        Waiting \<Rightarrow> y\<lparr>server := srv, waits := insert (t, lid) (waits y), woken := woken y - {(t, lid)}\<rparr>
      | Granted _ \<Rightarrow> y\<lparr>server := srv, waits := waits y - {(t, lid)}, woken := woken y - {(t, lid)},
                       holds := insert (t, lid) (holds y)\<rparr>)"

text \<open>
  A signal reaches one waiting thread, if there is one that it has not reached before.
\<close>

inductive ls_step :: "ls_system \<Rightarrow> ls_system \<Rightarrow> bool" where
  enter: "(t, lid) \<notin> waits y \<Longrightarrow> (t, lid) \<notin> holds y \<Longrightarrow>
    ls_acquire clt lid (server y) = Inr (out, srv) \<Longrightarrow> ls_step y (settle t lid out srv y)"
| wake: "(t, lid) \<in> waits y \<Longrightarrow> ls_acquire_resume lid (server y) = Inr (out, srv) \<Longrightarrow>
    ls_step y (settle t lid out srv y)"
| leave: "(t, lid) \<in> holds y \<Longrightarrow> ls_release clt lid (server y) = Inr (r, srv) \<Longrightarrow>
    (w, lid) \<in> waits y - woken y \<Longrightarrow>
    ls_step y (y\<lparr>server := srv, holds := holds y - {(t, lid)}, woken := insert (w, lid) (woken y)\<rparr>)"
| leave_quiet: "(t, lid) \<in> holds y \<Longrightarrow> ls_release clt lid (server y) = Inr (r, srv) \<Longrightarrow>
    (\<forall>w. (w, lid) \<in> waits y \<longrightarrow> (w, lid) \<in> woken y) \<Longrightarrow>
    ls_step y (y\<lparr>server := srv, holds := holds y - {(t, lid)}\<rparr>)"

inductive ls_reachable :: "ls_system \<Rightarrow> bool" where
  start: "ls_reachable ls_start"
| step: "ls_reachable y \<Longrightarrow> ls_step y z \<Longrightarrow> ls_reachable z"

text \<open>
  The invariant: a lock is marked 1 exactly while one thread holds it, a known lock has a
  condition variable, and a free lock with waiting threads has one that has been signalled.
\<close>

definition ls_inv :: "ls_system \<Rightarrow> lockid_t \<Rightarrow> bool" where
  "ls_inv y lid \<longleftrightarrow>
     (case lock_map (server y) lid of
        None \<Rightarrow> cond_map (server y) lid = None \<and> (\<forall>t. (t, lid) \<notin> holds y \<and> (t, lid) \<notin> waits y)
      | Some v \<Rightarrow> cond_map (server y) lid = Some True \<and>
          (v = 1 \<and> (\<exists>t. \<forall>u. (u, lid) \<in> holds y \<longleftrightarrow> u = t) \<or>
           v = 0 \<and> (\<forall>t. (t, lid) \<notin> holds y) \<and>
             ((\<exists>t. (t, lid) \<in> waits y) \<longrightarrow> (\<exists>t. (t, lid) \<in> waits y \<and> (t, lid) \<in> woken y)))) \<and>
     (\<forall>t. (t, lid) \<in> waits y \<longrightarrow> (t, lid) \<notin> holds y)"

lemmas ls_defs = ls_acquire_def ls_acquire_resume_def ls_wait_loop_def ls_release_def settle_def

lemma ls_step_inv:
  assumes "ls_step y z" "ls_inv y lid"
  shows "ls_inv z lid"
  using assms
proof (induction rule: ls_step.induct)
  case (enter t l y clt out srv)
  then show ?case
    by (cases "l = lid")
      (auto simp: ls_defs ls_inv_def res_simps split: option.splits if_splits)
next
  case (wake t l y out srv)
  then show ?case
    by (cases "l = lid")
      (auto simp: ls_defs ls_inv_def res_simps split: option.splits if_splits)
next
  case (leave t l y clt r srv w)
  then show ?case
    by (cases "l = lid") (auto simp: ls_defs ls_inv_def res_simps split: option.splits)
next
  case (leave_quiet t l y clt r srv)
  then show ?case
    by (cases "l = lid") (auto simp: ls_defs ls_inv_def res_simps split: option.splits)
qed

lemma ls_reachable_inv: "ls_reachable y \<Longrightarrow> ls_inv y lid"
proof (induction rule: ls_reachable.induct)
  case start
  then show ?case by (simp add: ls_start_def ls_new_def ls_inv_def)
next
  case (step y z)
  then show ?case by (blast intro: ls_step_inv)
qed

section \<open>Properties\<close>

text \<open>
  C15. Mutual exclusion of the plain lock server: in every reachable state of the system of
  handler threads, spurious wake-ups included, at most one thread holds a given lock.
\<close>

theorem ls_mutual_exclusion:
  assumes "ls_reachable y" and "(t, lid) \<in> holds y" and "(u, lid) \<in> holds y"
  shows "t = u"
  using ls_reachable_inv [OF assms(1), of lid] assms(2,3)
  by (auto simp: ls_inv_def split: option.splits)

text \<open>A run: thread 1 takes lock 5, thread 2 waits for it.\<close>

definition ls_run :: ls_system where
  "ls_run = \<lparr>server = \<lparr>nacquire = 0, cond_map = [5 \<mapsto> True], lock_map = [5 \<mapsto> 1]\<rparr>,
             waits = {(2, 5)}, woken = {}, holds = {(1, 5)}\<rparr>"

lemma ls_run_reachable: "ls_reachable ls_run"
proof -
  let ?y = "\<lparr>server = \<lparr>nacquire = 0, cond_map = [5 \<mapsto> True], lock_map = [5 \<mapsto> 1]\<rparr>,
     waits = {}, woken = {}, holds = {(1, 5)}\<rparr>"
  have "ls_step ls_start ?y"
    using ls_step.enter [of 1 5 ls_start 0 "Granted L_OK" "server ?y"]
    by (simp add: ls_start_def ls_new_def ls_defs)
  moreover have "ls_step ?y ls_run"
    using ls_step.enter [of 2 5 ?y 0 Waiting "server ?y"] by (simp add: ls_run_def ls_defs)
  ultimately show ?thesis using ls_reachable.start ls_reachable.step by blast
qed

theorem ls_mutual_exclusion_witness:
  "ls_reachable ls_run \<and> {u. (u, 5) \<in> holds ls_run} = {1}"
proof -
  have "(1, 5) \<in> holds ls_run" by (simp add: ls_run_def)
  with ls_mutual_exclusion [OF ls_run_reachable this] ls_run_reachable show ?thesis by blast
qed

text \<open>
  C16. No wake-up is lost: in every reachable state in which a thread waits for a lock that
  nobody holds, a signal has reached one of the waiting threads, and that thread obtains
  the lock with its next segment.
\<close>

theorem ls_no_lost_wakeup:
  assumes "ls_reachable y" and "(t, lid) \<in> waits y" and "\<And>u. (u, lid) \<notin> holds y"
  shows "\<exists>u srv. (u, lid) \<in> waits y \<and> (u, lid) \<in> woken y \<and>
    ls_acquire_resume lid (server y) = Inr (Granted L_OK, srv) \<and>
    ls_step y (settle u lid (Granted L_OK) srv y)"
proof -
  from ls_reachable_inv [OF assms(1), of lid] assms(2,3) obtain u where
    u: "(u, lid) \<in> waits y" "(u, lid) \<in> woken y" and "lock_map (server y) lid = Some 0"
    by (auto simp: ls_inv_def split: option.splits)
  then obtain srv where r: "ls_acquire_resume lid (server y) = Inr (Granted L_OK, srv)"
    by (simp add: ls_defs)
  with u ls_step.wake [OF u(1) r] show ?thesis by blast
qed

definition ls_run2 :: ls_system where
  "ls_run2 = ls_run\<lparr>server := (server ls_run)\<lparr>lock_map := [5 \<mapsto> 0]\<rparr>, woken := {(2, 5)}, holds := {}\<rparr>"

lemma ls_run2_reachable: "ls_reachable ls_run2"
proof -
  have "ls_step ls_run ls_run2"
    using ls_step.leave [of 1 5 ls_run 0 L_OK "server ls_run2" 2]
    by (simp add: ls_run_def ls_run2_def ls_defs)
  with ls_run_reachable show ?thesis by (rule ls_reachable.step)
qed

theorem ls_no_lost_wakeup_witness:
  "ls_reachable ls_run2 \<and> (2, 5) \<in> waits ls_run2 \<and>
    (\<exists>u srv. (u, 5) \<in> woken ls_run2 \<and> ls_acquire_resume 5 (server ls_run2) = Inr (Granted L_OK, srv))"
proof -
  have w: "(2, 5) \<in> waits ls_run2" "\<And>u. (u, 5) \<notin> holds ls_run2"
    by (simp_all add: ls_run2_def ls_run_def)
  from ls_no_lost_wakeup [OF ls_run2_reachable w] ls_run2_reachable w(1) show ?thesis by blast
qed

text \<open>
  Releasing: in every reachable state a release of a lock that some client has acquired
  before returns \<open>OK\<close> and the next acquire is granted at once; a release of a lock that was
  never acquired signals a null condition variable, for which the handler has no test.
\<close>

theorem ls_release_then_acquire:
  assumes "ls_reachable y"
  shows "if lock_map (server y) lid = None then ls_release clt lid (server y) = Inl Null_deref
    else \<exists>srv srv'. ls_release clt lid (server y) = Inr (L_OK, srv) \<and>
      ls_acquire clt' lid srv = Inr (Granted L_OK, srv')"
  using ls_reachable_inv [OF assms, of lid]
  by (auto simp: ls_inv_def ls_release_def ls_acquire_def split: option.splits)

theorem ls_release_then_acquire_witness:
  "ls_reachable ls_run \<and> ls_release 0 6 (server ls_run) = Inl Null_deref \<and>
    (\<exists>srv. ls_release 0 5 (server ls_run) = Inr (L_OK, srv))"
  using ls_release_then_acquire [OF ls_run_reachable, of 5 0]
    ls_release_then_acquire [OF ls_run_reachable, of 6 0] ls_run_reachable
  by (auto simp: ls_run_def)

end
