(* ===== verification/Lock_Rpc.thy ===== *)
theory Lock_Rpc
  imports Rpc_Props Lock_Server Lock_Server_Cache Names
begin

text \<open>
  The programs around the RPC library: what \<open>lock_smain.cc\<close> registers, the calls of the lock
  clients that reach it, the demonstration of the plain client (\<open>lock_demo.cc\<close>) and that of the
  RPC library (\<open>demo_server.cc\<close>, \<open>demo_client.cc\<close>). As in \<open>Rpc\<close>, the library and the operators of
  the basic types are parameters.
\<close>

section \<open>The servers\<close>

text \<open>The arguments of a server's \<open>main\<close>: its port and the value of \<open>RPC_COUNT\<close>.\<close>

definition server_args :: "string list \<Rightarrow> string option \<Rightarrow> (int \<times> int) res" where
  "server_args argv rpc_count =
     (if length argv \<noteq> 2 then Inl Exit
      else Inr (atoi (argv ! 1), case rpc_count of Some c \<Rightarrow> atoi c | None \<Rightarrow> 0))"

text \<open>The bits of a C \<open>int\<close> travel as those of an \<open>unsigned int\<close>: \<open>sint\<close> gives its value.\<close>

record lock_codecs =
  l_lid :: "lockid_t codec"
  l_uint :: "u32 codec"
  l_int :: "u32 codec"
  l_str :: "string codec"

text \<open>The lock server with the calls it has made to clients, the last one first.\<close>

record lock_world =
  locks :: lock_server_cache
  made :: "(lockid_t \<times> client \<times> rlock_rpc) list"

definition note_call :: "lockid_t \<Rightarrow> rcall \<Rightarrow> lock_world \<Rightarrow> lock_world" where
  "note_call lid call w = (case call of None \<Rightarrow> w | Some (c, k) \<Rightarrow> w\<lparr>made := (lid, c, k) # made w\<rparr>)"

text \<open>
  The methods with their \<open>int &\<close>. \<open>acquire\<close> does not set it; the \<open>retry\<close> call that \<open>release\<close> makes
  does, \<open>rv\<close> is what it leaves there.
\<close>

definition lock_acquire_method :: "lockid_t \<Rightarrow> client \<Rightarrow> u32 \<Rightarrow> lock_world \<Rightarrow> ((int \<times> u32) \<times> lock_world) res" where
  "lock_acquire_method lid clt r w =
     and_then (sc_acquire lid clt (locks w)) (\<lambda>((call, st), m).
       Inr ((lock_status_code st, r), note_call lid call (w\<lparr>locks := m\<rparr>)))"

definition lock_release_method ::
    "u32 \<Rightarrow> lockid_t \<Rightarrow> client \<Rightarrow> u32 \<Rightarrow> lock_world \<Rightarrow> ((int \<times> u32) \<times> lock_world) res" where
  "lock_release_method rv lid clt r w =
     and_then (sc_release lid clt (locks w)) (\<lambda>((call, st), m).
       Inr ((lock_status_code st, rv), note_call lid call (w\<lparr>locks := m\<rparr>)))"

definition lock_stat_method :: "u32 \<Rightarrow> lockid_t \<Rightarrow> u32 \<Rightarrow> lock_world \<Rightarrow> ((int \<times> u32) \<times> lock_world) res" where
  "lock_stat_method junk lid r w =
     (let (st, n) = sc_stat (sint junk) lid in Inr ((lock_status_code st, word_of_int n), w))"

definition lock_smain ::
    "(unmarshall \<Rightarrow> bool) \<Rightarrow> lock_codecs \<Rightarrow> u32 \<Rightarrow> u32 \<Rightarrow> u32 \<Rightarrow> u32 \<Rightarrow>
     (unmarshall \<Rightarrow> marshall \<Rightarrow> lock_world \<Rightarrow> ((int \<times> marshall) \<times> lock_world) res) option" where
  "lock_smain okdone k junk rv r0 proc =
     (if unat proc = lock_rpc_number RPC_stat then
        Some (rpc_fn1 okdone (l_lid k) (l_int k) (lock_stat_method junk) r0)
      else if unat proc = lock_rpc_number RPC_release then
        Some (rpc_fn2 okdone (l_lid k) (l_str k) (l_int k) (lock_release_method rv) r0)
      else if unat proc = lock_rpc_number RPC_acquire then
        Some (rpc_fn2 okdone (l_lid k) (l_str k) (l_int k) lock_acquire_method r0)
      else None)"

definition lock_proc :: "lock_rpc \<Rightarrow> u32" where
  "lock_proc p = word_of_nat (lock_rpc_number p)"

section \<open>The plain lock client over the wire\<close>

text \<open>
  \<open>cl->call(proc, cl->id(), lid, r)\<close>; \<open>lock_demo.cc\<close> calls \<open>stat\<close> of a plain client for lock 1.
\<close>

definition lock_client_call ::
    "env \<Rightarrow> 's rpc_lib \<Rightarrow> lock_codecs \<Rightarrow> u32 \<Rightarrow> int \<Rightarrow> lock_rpc \<Rightarrow> u32 \<Rightarrow> lockid_t \<Rightarrow> 's \<Rightarrow> ((int \<times> int) \<times> 's) res" where
  "lock_client_call e lib k r to p clt lid s =
     and_then (rpc_call2 e lib (l_uint k) (l_lid k) (l_int k) (lock_proc p) clt lid r to s)
       (\<lambda>((ret, r), s). Inr ((ret, sint r), s))"

definition lock_demo :: "env \<Rightarrow> 's rpc_lib \<Rightarrow> lock_codecs \<Rightarrow> u32 \<Rightarrow> int \<Rightarrow> u32 \<Rightarrow> string list \<Rightarrow> 's \<Rightarrow> (int \<times> 's) res" where
  "lock_demo e lib k r to clt argv s =
     (if length argv \<noteq> 2 then Inl Exit
      else lock_client_stat (lock_client_call e lib k r to) clt 1 s)"

section \<open>The demonstration of the RPC library\<close>

definition DEMO_stat :: u32 where "DEMO_stat = 0x7001"
definition DEMO_OK :: int where "DEMO_OK = 0"

definition demo_server_stat :: "u32 \<Rightarrow> u64 \<Rightarrow> u32 \<Rightarrow> unit \<Rightarrow> ((int \<times> u32) \<times> unit) res" where
  "demo_server_stat clt var r w = Inr ((DEMO_OK, 0), w)"

definition demo_smain ::
    "(unmarshall \<Rightarrow> bool) \<Rightarrow> lock_codecs \<Rightarrow> u32 \<Rightarrow> u32 \<Rightarrow>
     (unmarshall \<Rightarrow> marshall \<Rightarrow> unit \<Rightarrow> ((int \<times> marshall) \<times> unit) res) option" where
  "demo_smain okdone k r0 proc =
     (if proc = DEMO_stat then Some (rpc_fn2 okdone (l_int k) (l_lid k) (l_int k) demo_server_stat r0) else None)"

definition demo_client_stat ::
    "env \<Rightarrow> unit rpc_lib \<Rightarrow> lock_codecs \<Rightarrow> u32 \<Rightarrow> int \<Rightarrow> u32 \<Rightarrow> u64 \<Rightarrow> int res" where
  "demo_client_stat e lib k r to clt var =
     and_then (rpc_call2 e lib (l_uint k) (l_lid k) (l_int k) DEMO_stat clt var r to ()) (\<lambda>((ret, r), s).
       guard Assert_fail (ret = DEMO_OK) (Inr (sint r)))"

text \<open>What \<open>main\<close> of the client prints as the result of \<open>stat\<close>.\<close>

definition demo_client_main ::
    "env \<Rightarrow> unit rpc_lib \<Rightarrow> lock_codecs \<Rightarrow> u32 \<Rightarrow> int \<Rightarrow> u32 \<Rightarrow> string list \<Rightarrow> int res" where
  "demo_client_main e lib k r to clt argv =
     (if length argv \<noteq> 2 then Inl Exit else demo_client_stat e lib k r to clt 1)"

section \<open>The wire\<close>

text \<open>
  The operators of the basic types: 64-bit numbers take eight bytes, any eight, 32-bit numbers
  four, whether signed or not.
\<close>

definition lock_codecs_ok ::
    "lock_codecs \<Rightarrow> (lockid_t \<Rightarrow> byte list) \<Rightarrow> (u32 \<Rightarrow> byte list) \<Rightarrow> (string \<Rightarrow> byte list) \<Rightarrow> bool" where
  "lock_codecs_ok k el eu es \<longleftrightarrow>
     codec_ok el (l_lid k) \<and> codec_ok eu (l_uint k) \<and> codec_ok eu (l_int k) \<and> codec_ok es (l_str k) \<and>
     (\<forall>x. length (eu x) = 4) \<and> (\<forall>x. length (el x) = 8) \<and> (\<forall>bs. length bs = 8 \<longrightarrow> (\<exists>x. el x = bs))"

definition lock_wire ::
    "env \<Rightarrow> lock_codecs \<Rightarrow> 's rpc_lib \<Rightarrow> (u32 \<Rightarrow> (unmarshall \<Rightarrow> marshall \<Rightarrow> 's \<Rightarrow> ((int \<times> marshall) \<times> 's) res) option) \<Rightarrow> bool" where
  "lock_wire e k lib tab \<longleftrightarrow> (\<exists>el eu es. lock_codecs_ok k el eu es) \<and> okdone_ok (l_okdone lib) \<and>
     (\<forall>proc fn. tab proc = Some fn \<longrightarrow> delivers e lib proc fn)"

lemma lock_proc_simps [simp]:
  "unat (lock_proc p) = lock_rpc_number p" "lock_rpc_number p = lock_rpc_number q \<longleftrightarrow> p = q"
  by (cases p; cases q; simp add: lock_proc_def)+

lemma lock_status_nonneg [simp]: "0 \<le> lock_status_code st" "\<not> lock_status_code st < 0"
  by (cases st; simp)+


section \<open>The demonstrations\<close>

lemma cget_any_lid:
  assumes "lock_codecs_ok k el eu es" "u_ok u" "8 \<le> length (u_rest u)"
  obtains x u' where "cget (l_lid k) u = (x, u')" "u_ok u'" "u_rest u' = drop 8 (u_rest u)"
proof -
  have "length (take 8 (u_rest u)) = 8" using assms(3) by simp
  then obtain x where "el x = take 8 (u_rest u)" using assms(1) unfolding lock_codecs_ok_def by blast
  then have r: "u_rest u = el x @ drop 8 (u_rest u)" by simp
  have "codec_ok el (l_lid k)" using assms(1) by (simp add: lock_codecs_ok_def)
  show thesis by (rule codec_getD [OF \<open>codec_ok el (l_lid k)\<close> assms(2) r]) (rule that)
qed

text \<open>The request of the plain client's \<open>stat\<close>: its identity, then the lock.\<close>

abbreviation stat_request :: "env \<Rightarrow> lock_codecs \<Rightarrow> u32 \<Rightarrow> lockid_t \<Rightarrow> marshall" where
  "stat_request e k clt lid \<equiv> cput (l_lid k) lid (cput (l_uint k) clt (marshall_new e))"

lemma stat_refused:
  assumes "lock_codecs_ok k el eu es" "okdone_ok okdone"
    and "lock_smain okdone k junk rv r0 (lock_proc RPC_stat) = Some fn"
  shows "fn (take_content e (get_content (stat_request e k clt lid))) ret w = Inr ((unmarshal_args_failure, ret), w)"
proof -
  let ?u = "take_content e (get_content (stat_request e k clt lid))"
  have "get_content (stat_request e k clt lid) = eu clt @ el lid"
    using assms(1) by (simp add: lock_codecs_ok_def codec_putD [of el] codec_putD [of eu])
  then have "length (u_rest ?u) = 12" using assms(1) by (simp add: lock_codecs_ok_def)
  moreover from this have "8 \<le> length (u_rest ?u)" by simp
  then obtain x u' where "cget (l_lid k) ?u = (x, u')" "u_rest u' = drop 8 (u_rest ?u)"
    using cget_any_lid [OF assms(1) take_content_rest(1)] by blast
  moreover have "fn = rpc_fn1 okdone (l_lid k) (l_int k) (lock_stat_method junk) r0"
    using assms(3) by (simp add: lock_smain_def)
  ultimately show ?thesis using assms(2) by (auto simp: rpc_fn1_def okdone_ok_def)
qed

text \<open>
  A library that does not hide a refused request: where the handler could not take its arguments
  from the request, the call fails, or returns a negative number.
\<close>

definition reports_refusal ::
    "env \<Rightarrow> 's rpc_lib \<Rightarrow> (u32 \<Rightarrow> (unmarshall \<Rightarrow> marshall \<Rightarrow> 's \<Rightarrow> ((int \<times> marshall) \<times> 's) res) option) \<Rightarrow> bool" where
  "reports_refusal e lib tab \<longleftrightarrow> (\<forall>proc fn req to s rep s'.
     tab proc = Some fn \<longrightarrow>
     fn (take_content e (get_content req)) (marshall_new e) s = Inr ((unmarshal_args_failure, rep), s') \<longrightarrow>
     (case l_call1 lib proc req to s of Inl _ \<Rightarrow> True | Inr ((b, _), _) \<Rightarrow> b < 0))"

text \<open>
  C40. \<open>lock_demo\<close> cannot work against the server that \<open>lock_smain\<close> starts: \<open>lock_client::stat\<close> sends
  its identity and the lock, twelve bytes, \<open>lock_server_cache::stat\<close> takes a lock alone, eight; the
  handler refuses the request as not used up, without calling the method, and the program ends in
  a failure (of the library, or of the client's \<open>VERIFY\<close>) and prints no result.
\<close>

theorem lock_demo_fails:
  assumes "lock_codecs_ok k el eu es" "okdone_ok (l_okdone lib)"
    and "reports_refusal e lib (lock_smain (l_okdone lib) k junk rv r0)"
  shows "\<exists>f. lock_demo e lib k r to clt [prog, dst] w = Inl f"
proof -
  obtain fn where fn: "lock_smain (l_okdone lib) k junk rv r0 (lock_proc RPC_stat) = Some fn"
    by (simp add: lock_smain_def)
  from assms(3) fn stat_refused [OF assms(1,2) fn, where e = e and clt = clt and lid = 1 and ret = "marshall_new e" and w = w]
  have *: "case l_call1 lib (lock_proc RPC_stat) (stat_request e k clt 1) to w of
      Inl _ \<Rightarrow> True | Inr ((b, _), _) \<Rightarrow> b < 0" unfolding reports_refusal_def by blast
  then show ?thesis
    by (cases "l_call1 lib (lock_proc RPC_stat) (stat_request e k clt 1) to w")
      (auto simp: lock_demo_def lock_client_stat_def lock_client_call_def rpc_call2_def call_m_def)
qed

text \<open>
  The demonstration of the RPC library works: over a wire that delivers, \<open>demo_client\<close> prints the
  zero its server's \<open>stat\<close> has put into the result, whatever the client's own variable held.
\<close>

theorem demo_prints_zero:
  assumes "lock_wire e k lib (demo_smain (l_okdone lib) k r0)"
  shows "demo_client_main e lib k r to clt [prog, dst] = Inr 0"
proof -
  from assms obtain el eu es where k: "codec_ok eu (l_uint k)" "codec_ok el (l_lid k)" "codec_ok eu (l_int k)"
    and ok: "okdone_ok (l_okdone lib)"
    and d: "delivers e lib DEMO_stat (rpc_fn2 (l_okdone lib) (l_int k) (l_lid k) (l_int k) demo_server_stat r0)"
    unfolding lock_wire_def lock_codecs_ok_def demo_smain_def by auto
  have "rpc_call2 e lib (l_uint k) (l_lid k) (l_int k) DEMO_stat clt 1 r to () =
      as_called r (demo_server_stat clt 1 r0 ())"
    unfolding rpc_call2_def Let_def
    by (rule call_m_takes [OF d ok k(3), where bs = "eu clt @ el 1 @ []"])
      (simp add: codec_putD [OF k(1)] codec_putD [OF k(2)], unfold rpc_fn2_def,
        intro takes_arg [OF k(3)] takes_arg [OF k(2)] takes_end [OF ok])
  then show ?thesis
    by (simp add: demo_client_main_def demo_client_stat_def as_called_def demo_server_stat_def DEMO_OK_def)
qed

section \<open>A wire that works\<close>

text \<open>Operators that write a number in \<open>n\<close> bytes, the least significant first.\<close>

definition codec_fixed :: "nat \<Rightarrow> ('a \<Rightarrow> nat) \<Rightarrow> (nat \<Rightarrow> 'a) \<Rightarrow> 'a codec" where
  "codec_fixed n f g =
     \<lparr>cput = (\<lambda>a m. m\<lparr>m_buf := replicate RPC_HEADER_SZ 0 @ get_content m @ le_enc n (f a),
                m_ind := RPC_HEADER_SZ + length (get_content m @ le_enc n (f a))\<rparr>),
      cget = (\<lambda>u. (g (le_dec (take n (u_rest u))), u\<lparr>u_ind := u_ind u + n\<rparr>))\<rparr>"

lemma codec_fixed_ok:
  assumes "\<And>a. g (le_dec (le_enc n (f a))) = a"
  shows "codec_ok (\<lambda>a. le_enc n (f a)) (codec_fixed n f g)"
proof -
  have "puts (\<lambda>a. le_enc n (f a)) (cput (codec_fixed n f g))"
    by (simp only: puts_def codec_fixed_def codec.simps content_of_buf) simp
  moreover have "gets (\<lambda>a. le_enc n (f a)) (cget (codec_fixed n f g))"
    unfolding gets_def
  proof (intro allI impI)
    fix a :: 'a and u bs assume ok: "u_ok u" and r: "u_rest u = le_enc n (f a) @ bs"
    have "u_rest (u\<lparr>u_ind := u_ind u + n\<rparr>) = drop n (u_rest u)"
      by (simp add: u_rest_def bytes_at_def drop_take add.commute)
    then show "\<exists>u'. cget (codec_fixed n f g) u = (a, u') \<and> u_ok u' \<and> u_rest u' = bs"
      using ok r assms by (simp add: codec_fixed_def)
  qed
  ultimately show ?thesis by (simp add: codec_ok_def)
qed

definition le_codecs :: lock_codecs where
  "le_codecs = \<lparr>l_lid = codec_fixed 8 unat word_of_nat, l_uint = codec_fixed 4 unat word_of_nat,
     l_int = codec_fixed 4 unat word_of_nat,
     l_str = codec_via (to_nat \<circ> map (of_char :: char \<Rightarrow> nat)) (map char_of \<circ> (from_nat :: nat \<Rightarrow> nat list))\<rparr>"

lemma le_codecs_ok:
  "lock_codecs_ok le_codecs (\<lambda>x. le_enc 8 (unat x)) (\<lambda>x. le_enc 4 (unat x)) (enc_via (to_nat \<circ> map (of_char :: char \<Rightarrow> nat)))"
proof -
  have "\<exists>x :: u64. le_enc 8 (unat x) = bs" if "length bs = 8" for bs
  proof (rule exI [of _ "word_of_nat (le_dec bs)"])
    have "le_dec bs < 2 ^ 64" using le_dec_less [of bs] that by simp
    then show "le_enc 8 (unat (word_of_nat (le_dec bs) :: u64)) = bs"
      using le_enc_dec [of bs] that by (simp add: unat_of_nat)
  qed
  then show ?thesis
    unfolding lock_codecs_ok_def le_codecs_def lock_codecs.simps
    by (intro conjI codec_fixed_ok codec_via_ok) (auto simp: comp_def)
qed

abbreviation lock_loop :: "lock_world rpc_lib" where
  "lock_loop \<equiv> loopback env0 (lock_smain loopback_okdone le_codecs 0 0 0)"

lemma lock_loop_wire: "lock_wire env0 le_codecs lock_loop (lock_smain (l_okdone lock_loop) le_codecs 0 0 0)"
  unfolding lock_wire_def using le_codecs_ok by (intro conjI allI impI exI) simp_all


lemma loopback_reports: "reports_refusal e (loopback e tab) tab"
  by (auto simp: reports_refusal_def loopback_def)

theorem lock_demo_fails_witness:
  "reports_refusal env0 lock_loop (lock_smain (l_okdone lock_loop) le_codecs 0 0 0) \<and>
   (\<exists>f. lock_demo env0 lock_loop le_codecs 0 0 7 [''lock_demo'', ''3772''] \<lparr>locks = Map.empty, made = []\<rparr> = Inl f)"
proof
  show r: "reports_refusal env0 lock_loop (lock_smain (l_okdone lock_loop) le_codecs 0 0 0)"
    by (simp only: loopback_ok loopback_reports)
  show "\<exists>f. lock_demo env0 lock_loop le_codecs 0 0 7 [''lock_demo'', ''3772''] \<lparr>locks = Map.empty, made = []\<rparr> = Inl f"
    by (rule lock_demo_fails [OF le_codecs_ok _ r]) simp
qed

theorem demo_prints_zero_witness:
  "demo_client_main env0 (loopback env0 (demo_smain loopback_okdone le_codecs 5)) le_codecs 9 0 3 [''demo_client'', ''3772''] = Inr 0"
proof (rule demo_prints_zero)
  let ?lib = "loopback env0 (demo_smain loopback_okdone le_codecs 5)"
  show "lock_wire env0 le_codecs ?lib (demo_smain (l_okdone ?lib) le_codecs 5)"
    unfolding lock_wire_def using le_codecs_ok by (intro conjI allI impI exI) simp_all
qed

end
