(* ===== verification/Extent_Correct.thy ===== *)
theory Extent_Correct
  imports Extent Extent_Service
begin

text \<open>
  The extent service as seen by its clients. The state of one extent is a cell: the file on
  the server's disk, the owner the server has noted, and what each client caches. The
  contents of the extent are those of the owner's cache if there is an owner and those of
  the file otherwise; every operation of every client acts on these contents as a map
  operation, whoever held the extent before.
\<close>

section \<open>Cells\<close>

record cell =
  c_file :: "(u16 \<times> byte list) option"
  c_owner :: "cid option"
  c_data :: "cid \<Rightarrow> data_cache option"
  c_meta :: "cid \<Rightarrow> metadata_cache option"

definition cell_of :: "extent_world \<Rightarrow> extentid_t \<Rightarrow> cell" where
  "cell_of w i = \<lparr>c_file = files (im w) (ucast i), c_owner = owner_map w i,
     c_data = (\<lambda>c. data_map (clients w c) i), c_meta = (\<lambda>c. metadata_map (clients w c) i)\<rparr>"

definition cell_ok :: "cell \<Rightarrow> bool" where
  "cell_ok k \<longleftrightarrow>
     (\<forall>c d. c_data k c = Some d \<longrightarrow> dc_stat d = OWN \<longrightarrow> c_owner k = Some c \<and> c_file k \<noteq> None) \<and>
     (\<forall>c. c_owner k = Some c \<longrightarrow> (\<exists>d m. c_data k c = Some d \<and> c_meta k c = Some m \<and>
        (c_file k \<noteq> None \<longrightarrow> dc_stat d = OWN \<and> mc_stat m = OWN))) \<and>
     (\<forall>c m t x. c_meta k c = Some m \<longrightarrow> mc_stat m = OWN \<longrightarrow> c_file k = Some (t, x) \<longrightarrow>
        a_type (mc_metadata m) = scast t)"

definition contents :: "cell \<Rightarrow> (u16 \<times> byte list) option" where
  "contents k =
     map_option (\<lambda>(t, x). (t, case c_owner k of
         None \<Rightarrow> x
       | Some c \<Rightarrow> (case c_data k c of None \<Rightarrow> x | Some d \<Rightarrow> dc_data d))) (c_file k)"

definition ext_valid :: "extentid_t \<Rightarrow> bool" where
  "ext_valid i \<longleftrightarrow> i < 1024"

definition ext_inv :: "extent_world \<Rightarrow> bool" where
  "ext_inv w \<longleftrightarrow> im_inv (im w) \<and> (\<forall>i. ext_valid i \<longrightarrow> cell_ok (cell_of w i))"

definition ext_fs :: "extent_world \<Rightarrow> extentid_t \<rightharpoonup> (u16 \<times> byte list)" where
  "ext_fs w i = (if ext_valid i then contents (cell_of w i) else None)"

text \<open>
  What an access to extent \<open>i\<close> by client \<open>c\<close> needs: if another client owns the extent, it can
  be called back, and its data fits the disk when it is flushed.
\<close>

definition ext_ready :: "(cid \<Rightarrow> bool) \<Rightarrow> cid \<Rightarrow> extent_world \<Rightarrow> extentid_t \<Rightarrow> bool" where
  "ext_ready up c w i \<longleftrightarrow>
     (case owner_map w i of
        None \<Rightarrow> True
      | Some d \<Rightarrow> d = c \<or> up d \<and>
          (case ext_fs w i of
             None \<Rightarrow> True
           | Some (t, x) \<Rightarrow> length x \<le> MAXFILE * BLOCK_SIZE \<and>
               Suc (nblk (length x)) \<le> length (free_ahead (im_bm (im w)))))"

lemma valid_id:
  assumes "ext_valid i"
  shows "es_id i = i" "es_inum i = ucast i"
proof -
  have "unat i < 1024" using assms by (simp add: ext_valid_def word_less_nat_alt)
  then have "unat (take_bit 31 i) = unat i"
    by (simp add: unsigned_take_bit_eq take_bit_nat_eq_self)
  then have "take_bit 31 i = i" by (simp add: word_unat_eq_iff)
  moreover have "i AND mask 31 = take_bit 31 i" by (simp add: take_bit_eq_mask and.commute)
  moreover have "(mask 31 :: u64) = 0x7fffffff" by (simp add: mask_eq_exp_minus_1)
  ultimately show "es_id i = i" by (simp add: es_id_def)
  then show "es_inum i = ucast i" by (simp add: es_inum_def)
qed

lemma valid_ucast_inj:
  assumes "ext_valid i" "ext_valid j" "(ucast i :: u32) = ucast j"
  shows "i = j"
proof -
  have small: "unat i < 1024" "unat j < 1024"
    using assms(1,2) by (simp_all add: ext_valid_def word_less_nat_alt)
  have "unat (ucast i :: u32) = unat i" if "unat i < 1024" for i :: u64
    using that by (simp add: unsigned_ucast_eq take_bit_nat_eq_self)
  with small assms(3) have "unat i = unat j" by metis
  then show ?thesis by (simp add: word_unat_eq_iff)
qed

text \<open>An operation that changes one cell only.\<close>

lemma one_cell:
  assumes "ext_inv w" "im_inv (im w')" "cell_ok (cell_of w' i)"
    and "\<And>j. ext_valid j \<Longrightarrow> j \<noteq> i \<Longrightarrow> cell_of w' j = cell_of w j" and "ext_valid i"
  shows "ext_inv w'" "ext_fs w' = (ext_fs w)(i := contents (cell_of w' i))"
proof -
  show "ext_inv w'"
    using assms by (auto simp: ext_inv_def) (metis)
  show "ext_fs w' = (ext_fs w)(i := contents (cell_of w' i))"
    using assms(4,5) by (auto simp: ext_fs_def fun_eq_iff)
qed

section \<open>Updates of a cell\<close>

lemma cell_sel [simp]:
  "c_file (cell_of w i) = files (im w) (ucast i)" "c_owner (cell_of w i) = owner_map w i"
  "c_data (cell_of w i) c = data_map (clients w c) i" "c_meta (cell_of w i) c = metadata_map (clients w c) i"
  by (simp_all add: cell_of_def)

lemma on_client_sel [simp]:
  "im (on_client c f w) = im w" "owner_map (on_client c f w) = owner_map w"
  "clients (on_client c f w) = (clients w)(c := f (clients w c))"
  by (simp_all add: on_client_def)

lemma cell_put_data [simp]:
  "cell_of (on_client c (\<lambda>k. k\<lparr>data_map := (data_map k)(i \<mapsto> d)\<rparr>) w) j =
     (if j = i then (cell_of w i)\<lparr>c_data := (c_data (cell_of w i))(c \<mapsto> d)\<rparr> else cell_of w j)"
  by (auto simp: cell_of_def fun_eq_iff)

lemma cell_put_meta [simp]:
  "cell_of (on_client c (\<lambda>k. k\<lparr>metadata_map := (metadata_map k)(i \<mapsto> m)\<rparr>) w) j =
     (if j = i then (cell_of w i)\<lparr>c_meta := (c_meta (cell_of w i))(c \<mapsto> m)\<rparr> else cell_of w j)"
  by (auto simp: cell_of_def fun_eq_iff)

lemma contents_SomeD:
  "ext_fs w i = Some (t, x) \<Longrightarrow> ext_valid i \<and> (\<exists>y. files (im w) (ucast i) = Some (t, y) \<and>
     x = (case owner_map w i of None \<Rightarrow> y
        | Some c \<Rightarrow> (case data_map (clients w c) i of None \<Rightarrow> y | Some d \<Rightarrow> dc_data d)))"
  by (auto simp: ext_fs_def contents_def split: if_splits cong: option.case_cong)

lemma cell_okD:
  assumes "cell_ok k"
  shows "c_data k c = Some d \<Longrightarrow> dc_stat d = OWN \<Longrightarrow> c_owner k = Some c \<and> c_file k \<noteq> None"
    "c_owner k = Some c \<Longrightarrow> \<exists>d m. c_data k c = Some d \<and> c_meta k c = Some m \<and>
       (c_file k \<noteq> None \<longrightarrow> dc_stat d = OWN \<and> mc_stat m = OWN)"
    "c_meta k c = Some m \<Longrightarrow> mc_stat m = OWN \<Longrightarrow> c_file k = Some (t, x) \<Longrightarrow>
       a_type (mc_metadata m) = scast t"
  using assms unfolding cell_ok_def by blast+

lemma owner_caches:
  assumes "ext_inv w" "ext_fs w i = Some (t, x)" "owner_map w i = Some c"
  obtains m where "data_map (clients w c) i = Some \<lparr>dc_stat = OWN, dc_data = x\<rparr>"
    "metadata_map (clients w c) i = Some m" "mc_stat m = OWN" "a_type (mc_metadata m) = scast t"
proof -
  from contents_SomeD [OF assms(2)] obtain y where v: "ext_valid i"
    and y: "files (im w) (ucast i) = Some (t, y)"
    and x: "x = (case data_map (clients w c) i of None \<Rightarrow> y | Some d \<Rightarrow> dc_data d)"
    using assms(3) by auto
  from assms(1) v have ok: "cell_ok (cell_of w i)" by (simp add: ext_inv_def)
  obtain d m where dm: "data_map (clients w c) i = Some d" "metadata_map (clients w c) i = Some m"
    "dc_stat d = OWN" "mc_stat m = OWN" using cell_okD(2) [OF ok, of c] assms(3) y by auto
  moreover have "a_type (mc_metadata m) = scast t"
    using cell_okD(3) [OF ok, of c m t y] dm y by simp
  ultimately show thesis using that [of m] x by (cases d) simp
qed

lemma cell_okI:
  assumes "\<And>c d. c_data k c = Some d \<Longrightarrow> dc_stat d = OWN \<Longrightarrow> c_owner k = Some c \<and> c_file k \<noteq> None"
    and "\<And>c. c_owner k = Some c \<Longrightarrow> \<exists>d m. c_data k c = Some d \<and> c_meta k c = Some m \<and>
       (c_file k \<noteq> None \<longrightarrow> dc_stat d = OWN \<and> mc_stat m = OWN)"
    and "\<And>c m t x. c_meta k c = Some m \<Longrightarrow> mc_stat m = OWN \<Longrightarrow> c_file k = Some (t, x) \<Longrightarrow>
       a_type (mc_metadata m) = scast t"
  shows "cell_ok k"
  using assms unfolding cell_ok_def by blast

text \<open>Replacing what a client caches, by data it need not own or by metadata of the right type.\<close>

lemma cell_ok_data:
  assumes "cell_ok k" "c_owner k \<noteq> Some c" "dc_stat d \<noteq> OWN"
  shows "cell_ok (k\<lparr>c_data := (c_data k)(c \<mapsto> d)\<rparr>)"
proof (rule cell_okI)
  fix a assume "c_owner (k\<lparr>c_data := (c_data k)(c \<mapsto> d)\<rparr>) = Some a"
  then show "\<exists>x m. c_data (k\<lparr>c_data := (c_data k)(c \<mapsto> d)\<rparr>) a = Some x \<and>
      c_meta (k\<lparr>c_data := (c_data k)(c \<mapsto> d)\<rparr>) a = Some m \<and>
      (c_file (k\<lparr>c_data := (c_data k)(c \<mapsto> d)\<rparr>) \<noteq> None \<longrightarrow> dc_stat x = OWN \<and> mc_stat m = OWN)"
    using cell_okD(2) [OF assms(1), of a] assms(2) by auto
qed (use cell_okD(1,3) [OF assms(1)] assms(2,3) in \<open>auto split: if_splits\<close>)

lemma cell_ok_meta:
  assumes "cell_ok k" "c_file k = Some (t, y)" "a_type (mc_metadata m) = scast t" "mc_stat m = OWN"
  shows "cell_ok (k\<lparr>c_meta := (c_meta k)(c \<mapsto> m)\<rparr>)"
proof (rule cell_okI)
  fix a assume "c_owner (k\<lparr>c_meta := (c_meta k)(c \<mapsto> m)\<rparr>) = Some a"
  then show "\<exists>x n. c_data (k\<lparr>c_meta := (c_meta k)(c \<mapsto> m)\<rparr>) a = Some x \<and>
      c_meta (k\<lparr>c_meta := (c_meta k)(c \<mapsto> m)\<rparr>) a = Some n \<and>
      (c_file (k\<lparr>c_meta := (c_meta k)(c \<mapsto> m)\<rparr>) \<noteq> None \<longrightarrow> dc_stat x = OWN \<and> mc_stat n = OWN)"
    using cell_okD(2) [OF assms(1), of a] assms(4) by auto
qed (use cell_okD(1,3) [OF assms(1)] assms(2,3) in \<open>auto split: if_splits\<close>)

section \<open>Attributes\<close>

lemma es_getattr_ok:
  assumes inv: "ext_inv w" and fs: "ext_fs w i = Some (t, x)"
    and up: "\<And>d. owner_map w i = Some d \<Longrightarrow> up d"
  shows "\<exists>a. es_getattr up e c i w = Inr (0, a) \<and> a_type a = scast t"
proof -
  from contents_SomeD [OF fs] obtain y where v: "ext_valid i"
    and y: "files (im w) (ucast i) = Some (t, y)" by blast
  show ?thesis
  proof (cases "owner_map w i")
    case None
    from inv have "im_inv (im w)" by (simp add: ext_inv_def)
    then obtain at mt ct where "im_getattr e (ucast i) attr_zero (im w) =
        Inr \<lparr>a_type = scast t, a_atime = at, a_mtime = mt, a_ctime = ct, a_size = word_of_nat (length y)\<rparr>"
      using y by (rule getattr_files)
    with None v show ?thesis by (simp add: es_getattr_def valid_id)
  next
    case (Some d)
    then obtain m where "metadata_map (clients w d) i = Some m" "a_type (mc_metadata m) = scast t"
      using owner_caches [OF inv fs] by blast
    with Some up v show ?thesis by (simp add: es_getattr_def valid_id ec_sync_meta_handler_def)
  qed
qed

text \<open>Only the metadata the client itself caches for this extent may change.\<close>

lemma ec_getattr_ok:
  assumes inv: "ext_inv w" and fs: "ext_fs w i = Some (t, x)" and rd: "ext_ready up c w i"
  shows "\<exists>m w'. ec_getattr up e c i a0 w = Inr ((0, mc_metadata m), w') \<and>
    a_type (mc_metadata m) = scast t \<and> mc_stat m = OWN \<and> im w' = im w \<and>
    (\<forall>j. cell_of w' j =
       (if j = i then (cell_of w i)\<lparr>c_meta := (c_meta (cell_of w i))(c \<mapsto> m)\<rparr> else cell_of w j))"
proof -
  from contents_SomeD [OF fs] obtain y where v: "ext_valid i"
    and y: "files (im w) (ucast i) = Some (t, y)" by blast
  from inv v have ok: "cell_ok (cell_of w i)" by (simp add: ext_inv_def)
  show ?thesis
  proof (cases "\<exists>m. metadata_map (clients w c) i = Some m \<and> mc_stat m = OWN")
    case True
    then obtain m where m: "metadata_map (clients w c) i = Some m" "mc_stat m = OWN" by blast
    moreover have "a_type (mc_metadata m) = scast t"
      using cell_okD(3) [OF ok, of c m t y] m y by simp
    moreover have "cell_of w i = (cell_of w i)\<lparr>c_meta := (c_meta (cell_of w i))(c \<mapsto> m)\<rparr>"
      using m by (simp add: cell_of_def fun_upd_idem)
    ultimately show ?thesis by (intro exI [of _ m] exI [of _ w]) (simp add: ec_getattr_def)
  next
    case False
    then have "owner_map w i \<noteq> Some c" using owner_caches [OF inv fs] by blast
    then have up: "up d" if "owner_map w i = Some d" for d
      using rd that by (auto simp: ext_ready_def)
    define w1 where "w1 = (if metadata_map (clients w c) i = None
      then on_client c (\<lambda>k. k\<lparr>metadata_map := (metadata_map k)(i \<mapsto> metadata_cache_new e)\<rparr>) w else w)"
    have "es_getattr up e c i w1 = es_getattr up e c i w"
      using \<open>owner_map w i \<noteq> Some c\<close> v
      by (auto simp: w1_def es_getattr_def valid_id ec_sync_meta_handler_def split: option.splits)
    then obtain a where a: "es_getattr up e c i w1 = Inr (0, a)" "a_type a = scast t"
      using es_getattr_ok [where up = up and e = e and c = c, OF inv fs up] by auto
    obtain m1 where m1: "metadata_map (clients w1 c) i = Some m1" "mc_stat m1 \<noteq> OWN"
      using False by (cases "metadata_map (clients w c) i")
        (auto simp: w1_def metadata_cache_new_def Let_def)
    let ?m = "\<lparr>mc_stat = OWN, mc_metadata = a\<rparr>"
    have run: "ec_getattr up e c i a0 w = Inr ((0, a),
        on_client c (\<lambda>k. k\<lparr>metadata_map := (metadata_map k)(i \<mapsto> ?m)\<rparr>) w1)"
      unfolding ec_getattr_def w1_def [symmetric] Let_def using m1 a by simp
    show ?thesis
      unfolding run using a(2) by (intro exI [of _ ?m] exI) (auto simp: w1_def)
  qed
qed

section \<open>Handing an extent over\<close>

definition cleared :: "extentid_t \<Rightarrow> extent_client \<Rightarrow> extent_client" where
  "cleared i k = k\<lparr>data_map := (data_map k)(i := map_option (\<lambda>d. d\<lparr>dc_stat := NONE\<rparr>) (data_map k i)),
     metadata_map := (metadata_map k)(i := map_option (\<lambda>m. m\<lparr>mc_stat := NONE\<rparr>) (metadata_map k i))\<rparr>"

definition give_up :: "extentid_t \<Rightarrow> extent_world \<Rightarrow> cid \<Rightarrow> extent_client" where
  "give_up i w =
     (case owner_map w i of
        None \<Rightarrow> clients w | Some d \<Rightarrow> (clients w)(d := cleared i (clients w d)))"

lemma ec_clear_handler_ok:
  assumes "data_map (clients w d) i = Some x" "metadata_map (clients w d) i = Some m"
    "owner_map w i = Some d"
  shows "ec_clear_handler d i w = Inr (0, w\<lparr>clients := give_up i w\<rparr>)"
  using assms by (simp add: ec_clear_handler_def on_client_def give_up_def cleared_def)

text \<open>
  The server gets the extent back from its owner, if there is one other than the client that
  asks, and hands it to that client with the contents unchanged.
\<close>

lemma es_get_ok:
  assumes inv: "ext_inv w" and fs: "ext_fs w i = Some (t, x)" and rd: "ext_ready up c w i"
    and other: "owner_map w i \<noteq> Some c"
  shows "\<exists>im'. es_get up e c i w = Inr ((0, x),
      w\<lparr>im := im', owner_map := (owner_map w)(i \<mapsto> c), clients := give_up i w\<rparr>) \<and>
    im_inv im' \<and> files im' = (files (im w))(ucast i \<mapsto> (t, x)) \<and>
    (owner_map w i = None \<longrightarrow> free_ahead (im_bm im') = free_ahead (im_bm (im w)))"
proof -
  from contents_SomeD [OF fs] obtain y where v: "ext_valid i"
    and y: "files (im w) (ucast i) = Some (t, y)"
    and x: "owner_map w i = None \<Longrightarrow> x = y" by auto
  have iminv: "im_inv (im w)" using inv by (simp add: ext_inv_def)
  obtain im1 where flush: "(case owner_map w i of None \<Rightarrow> Inr w
      | Some d \<Rightarrow> guard Null_deref (up d)
          (and_then (ec_flush_handler (later e) d i w) (\<lambda>(r, w). Inr w)))
      = Inr (w\<lparr>im := im1, clients := give_up i w\<rparr>)"
    and im1: "im_inv im1" "files im1 = (files (im w))(ucast i \<mapsto> (t, x))"
      "owner_map w i = None \<Longrightarrow> free_ahead (im_bm im1) = free_ahead (im_bm (im w))"
  proof (cases "owner_map w i")
    case None
    with x y iminv that [of "im w"] show thesis by (simp add: give_up_def fun_upd_idem)
  next
    case (Some d)
    with other rd fs have up: "up d" and room: "length x \<le> MAXFILE * BLOCK_SIZE"
      "Suc (nblk (length x)) \<le> length (free_ahead (im_bm (im w)))" by (auto simp: ext_ready_def)
    obtain m where dm: "data_map (clients w d) i = Some \<lparr>dc_stat = OWN, dc_data = x\<rparr>"
      "metadata_map (clients w d) i = Some m" using owner_caches [OF inv fs Some] by blast
    obtain im1 where w1: "write_file (later e) (ucast i) x (int (length x)) (im w) = Inr im1"
      "im_inv im1" "files im1 = (files (im w))(ucast i \<mapsto> (t, x))"
      by (rule write_file_files [OF iminv y room, of "later e"])
    have "ec_flush_handler (later e) d i w = ec_clear_handler d i (w\<lparr>im := im1\<rparr>)"
      using dm w1(1) v by (simp add: ec_flush_handler_def ec_flush_def es_put_def valid_id)
    also have "\<dots> = Inr (0, w\<lparr>im := im1, clients := give_up i w\<rparr>)"
      using ec_clear_handler_ok [of "w\<lparr>im := im1\<rparr>" d i] dm Some by (simp add: give_up_def)
    finally show thesis using Some up w1 that [of im1] by simp
  qed
  have "files im1 (ucast i) = Some (t, x)" using im1(2) by simp
  from im1(1) this obtain b im2 where rf: "read_file e (ucast i) im1 = Inr ((b, word_of_nat (length x)), im2)"
    "take (length x) b = x" "im_inv im2" "files im2 = files im1"
    "free_ahead (im_bm im2) = free_ahead (im_bm im1)" "unat (word_of_nat (length x) :: u32) = length x" by (rule read_file_files [where e = e])
  have "length x < 2 ^ 31"
    using files_size(1) [OF im1(1) \<open>files im1 (ucast i) = _\<close>] by (simp add: NDIRECT_def)
  then have "es_get up e c i w = Inr ((0, x),
      w\<lparr>im := im2, owner_map := (owner_map w)(i \<mapsto> c), clients := give_up i w\<rparr>)"
    using flush rf(1,2,6) v unfolding es_get_def valid_id(1) [OF v] Let_def
    by (auto simp: unat_eq_0 [symmetric])
  then show ?thesis using rf(3-5) im1(2,3) by auto
qed

section \<open>Reading and writing\<close>

lemma ready_cong:
  assumes "owner_map w' i = owner_map w i" "ext_fs w' i = ext_fs w i" "im w' = im w"
  shows "ext_ready up c w' i = ext_ready up c w i"
  unfolding ext_ready_def assms ..

lemma ready_owner: "owner_map w i = Some c \<Longrightarrow> ext_ready up c w i"
  by (simp add: ext_ready_def)

text \<open>An empty cache entry for an extent the client does not own changes nothing.\<close>

lemma fresh_entry_ok:
  assumes inv: "ext_inv w" and v: "ext_valid i" and "owner_map w i \<noteq> Some c" and "dc_stat d \<noteq> OWN"
  defines "w' \<equiv> on_client c (\<lambda>k. k\<lparr>data_map := (data_map k)(i \<mapsto> d)\<rparr>) w"
  shows "ext_inv w'" "ext_fs w' = ext_fs w" "ext_ready up c w' j = ext_ready up c w j"
proof -
  have ok: "cell_ok (cell_of w i)" using inv v by (simp add: ext_inv_def)
  have "cell_ok (cell_of w' i)"
    using cell_ok_data [OF ok, of c d] assms(3,4) by (simp add: w'_def)
  moreover have "contents (cell_of w' i) = contents (cell_of w i)"
    using assms(3) by (cases "owner_map w i") (auto simp: w'_def contents_def)
  moreover have "cell_of w' j = cell_of w j" if "j \<noteq> i" for j using that by (simp add: w'_def)
  moreover have "im w' = im w" by (simp add: w'_def)
  moreover have "im_inv (im w)" using inv by (simp add: ext_inv_def)
  ultimately show "ext_inv w'" and fs: "ext_fs w' = ext_fs w"
    using one_cell [OF inv, of w' i] v by (auto simp: ext_fs_def)
  show "ext_ready up c w' j = ext_ready up c w j"
    by (rule ready_cong) (simp_all add: fs, simp_all add: w'_def)
qed

text \<open>The metadata step of \<open>get\<close>.\<close>

lemma getattr_keeps:
  assumes inv: "ext_inv w" and fs: "ext_fs w i = Some (t, x)"
    and m: "a_type (mc_metadata m) = scast t" "mc_stat m = OWN"
    and w': "im w' = im w" "\<And>j. cell_of w' j =
       (if j = i then (cell_of w i)\<lparr>c_meta := (c_meta (cell_of w i))(c \<mapsto> m)\<rparr> else cell_of w j)"
  shows "ext_inv w'" "ext_fs w' = ext_fs w" "owner_map w' = owner_map w"
    "ext_ready up d w' j = ext_ready up d w j"
proof -
  from contents_SomeD [OF fs] obtain y where v: "ext_valid i"
    and y: "files (im w) (ucast i) = Some (t, y)" by blast
  have ok: "cell_ok (cell_of w i)" using inv v by (simp add: ext_inv_def)
  have "cell_ok (cell_of w' i)"
    using cell_ok_meta [OF ok, of t y m c] m y by (simp add: w'(2))
  moreover have "contents (cell_of w' i) = contents (cell_of w i)"
    by (cases "owner_map w i") (simp_all add: w'(2) contents_def)
  moreover have "im_inv (im w)" using inv by (simp add: ext_inv_def)
  ultimately show "ext_inv w'" and fs: "ext_fs w' = ext_fs w"
    using one_cell [OF inv, of w' i] v w' by (auto simp: ext_fs_def)
  have "c_owner (cell_of w' j) = c_owner (cell_of w j)" for j by (simp add: w'(2))
  then show own: "owner_map w' = owner_map w" by (auto simp: fun_eq_iff)
  show "ext_ready up d w' j = ext_ready up d w j"
    by (rule ready_cong) (simp_all add: own fs w'(1))
qed

lemma get_meta_ok:
  assumes inv: "ext_inv w" and fs: "ext_fs w i = Some (t, x)" and rd: "ext_ready up c w i"
  obtains m w' where "(case metadata_map (clients w c) i of
       Some meta \<Rightarrow> if mc_stat meta = NONE
         then and_then (ec_getattr up e c i (mc_metadata meta) w) (\<lambda>((ret, a), w). Inr (ret, w))
         else Inr (0, w)
     | None \<Rightarrow> and_then (ec_getattr up e c i (mc_metadata (metadata_cache_new e)) w)
         (\<lambda>((ret, a), w). Inr (ret, w))) = Inr (0 :: int, w')"
    "a_type (mc_metadata m) = scast t" "mc_stat m = OWN" "im w' = im w"
    "\<And>j. cell_of w' j =
       (if j = i then (cell_of w i)\<lparr>c_meta := (c_meta (cell_of w i))(c \<mapsto> m)\<rparr> else cell_of w j)"
proof (cases "\<exists>m. metadata_map (clients w c) i = Some m \<and> mc_stat m = OWN")
  case True
  then obtain m where m: "metadata_map (clients w c) i = Some m" "mc_stat m = OWN" by blast
  from contents_SomeD [OF fs] obtain y where v: "ext_valid i"
    and y: "files (im w) (ucast i) = Some (t, y)" by blast
  have ok: "cell_ok (cell_of w i)" using inv v by (simp add: ext_inv_def)
  have "a_type (mc_metadata m) = scast t" using cell_okD(3) [OF ok, of c m t y] m y by simp
  moreover have "cell_of w i = (cell_of w i)\<lparr>c_meta := (c_meta (cell_of w i))(c \<mapsto> m)\<rparr>"
    using m by (simp add: cell_of_def fun_upd_idem)
  ultimately show thesis using that [of w m] m by simp
next
  case False
  note run = ec_getattr_ok [OF inv fs rd, of e]
  show thesis
  proof (cases "metadata_map (clients w c) i")
    case None
    from run [of "mc_metadata (metadata_cache_new e)"] obtain m w' where
      r: "ec_getattr up e c i (mc_metadata (metadata_cache_new e)) w = Inr ((0, mc_metadata m), w')"
      "a_type (mc_metadata m) = scast t" "mc_stat m = OWN" "im w' = im w"
      "\<And>j. cell_of w' j =
       (if j = i then (cell_of w i)\<lparr>c_meta := (c_meta (cell_of w i))(c \<mapsto> m)\<rparr> else cell_of w j)" by blast
    show thesis by (rule that [of w' m]) (simp_all add: None r)
  next
    case (Some meta)
    with False have "mc_stat meta = NONE" by (cases "mc_stat meta") auto
    from run [of "mc_metadata meta"] obtain m w' where
      r: "ec_getattr up e c i (mc_metadata meta) w = Inr ((0, mc_metadata m), w')"
      "a_type (mc_metadata m) = scast t" "mc_stat m = OWN" "im w' = im w"
      "\<And>j. cell_of w' j =
       (if j = i then (cell_of w i)\<lparr>c_meta := (c_meta (cell_of w i))(c \<mapsto> m)\<rparr> else cell_of w j)" by blast
    show thesis by (rule that [of w' m]) (simp_all add: Some \<open>mc_stat meta = NONE\<close> r)
  qed
qed

text \<open>An access to an extent without another owner leaves the free blocks alone.\<close>

definition free_kept :: "cid \<Rightarrow> extentid_t \<Rightarrow> extent_world \<Rightarrow> extent_world \<Rightarrow> bool" where
  "free_kept c i w w' \<longleftrightarrow> (owner_map w i = None \<or> owner_map w i = Some c \<longrightarrow>
     free_ahead (im_bm (im w')) = free_ahead (im_bm (im w)))"

definition same_but :: "extentid_t \<Rightarrow> extent_world \<Rightarrow> extent_world \<Rightarrow> bool" where
  "same_but i w w' \<longleftrightarrow> (\<forall>j. ext_valid j \<longrightarrow> j \<noteq> i \<longrightarrow> cell_of w' j = cell_of w j)"

lemma same_but_trans: "same_but i w w1 \<Longrightarrow> same_but i w1 w2 \<Longrightarrow> same_but i w w2"
  by (simp add: same_but_def)

lemma same_but_refl: "same_but i w w"
  by (simp add: same_but_def)

text \<open>The cell once client \<open>c\<close> has become the owner.\<close>

lemma handed_over:
  assumes inv: "ext_inv w" and fs: "ext_fs w i = Some (t, x)" and other: "owner_map w i \<noteq> Some c"
    and m: "metadata_map (clients w c) i = Some m" "mc_stat m = OWN" "a_type (mc_metadata m) = scast t"
    and im': "im_inv im'" "files im' = (files (im w))(ucast i \<mapsto> (t, x))"
  defines "w' \<equiv> on_client c (\<lambda>k. k\<lparr>data_map := (data_map k)(i \<mapsto> \<lparr>dc_stat = OWN, dc_data = x\<rparr>)\<rparr>)
    (w\<lparr>im := im', owner_map := (owner_map w)(i \<mapsto> c), clients := give_up i w\<rparr>)"
  shows "ext_inv w'" "ext_fs w' = ext_fs w" "same_but i w w'"
proof -
  from contents_SomeD [OF fs] obtain y where v: "ext_valid i"
    and y: "files (im w) (ucast i) = Some (t, y)" by blast
  have ok: "cell_ok (cell_of w i)" using inv v by (simp add: ext_inv_def)
  have data: "data_map (clients w' a) i = (if a = c then Some \<lparr>dc_stat = OWN, dc_data = x\<rparr>
      else if owner_map w i = Some a then map_option (\<lambda>d. d\<lparr>dc_stat := NONE\<rparr>) (data_map (clients w a) i)
      else data_map (clients w a) i)" for a
    using other by (auto simp: w'_def give_up_def cleared_def split: option.splits)
  have meta: "metadata_map (clients w' a) i = (if a \<noteq> c \<and> owner_map w i = Some a
      then map_option (\<lambda>m. m\<lparr>mc_stat := NONE\<rparr>) (metadata_map (clients w a) i)
      else metadata_map (clients w a) i)" for a
    using other by (auto simp: w'_def give_up_def cleared_def split: option.splits)
  have [simp]: "im w' = im'" "owner_map w' i = Some c" by (simp_all add: w'_def)
  have "cell_ok (cell_of w' i)"
  proof (rule cell_okI)
    fix a d assume "c_data (cell_of w' i) a = Some d" "dc_stat d = OWN"
    then show "c_owner (cell_of w' i) = Some a \<and> c_file (cell_of w' i) \<noteq> None"
      using cell_okD(1) [OF ok, of a d] im'(2) by (auto simp: data split: if_splits)
  next
    fix a assume "c_owner (cell_of w' i) = Some a"
    then show "\<exists>d n. c_data (cell_of w' i) a = Some d \<and> c_meta (cell_of w' i) a = Some n \<and>
        (c_file (cell_of w' i) \<noteq> None \<longrightarrow> dc_stat d = OWN \<and> mc_stat n = OWN)"
      using m by (simp add: data meta)
  next
    fix a n t' x' assume "c_meta (cell_of w' i) a = Some n" "mc_stat n = OWN"
      "c_file (cell_of w' i) = Some (t', x')"
    then show "a_type (mc_metadata n) = scast t'"
      using cell_okD(3) [OF ok, of a n t y] im'(2) y by (auto simp: meta split: if_splits)
  qed
  moreover have "contents (cell_of w' i) = Some (t, x)"
    using im'(2) by (simp add: contents_def data)
  moreover show same: "same_but i w w'"
    using v im'(2) valid_ucast_inj [of _ i]
    by (auto simp: same_but_def cell_of_def w'_def give_up_def cleared_def fun_eq_iff split: option.splits)
  ultimately show "ext_inv w'" "ext_fs w' = ext_fs w"
    using one_cell [OF inv, of w' i] v im'(1) fs by (auto simp: fun_upd_idem same_but_def)
qed

text \<open>\<open>get\<close> by the owner, and by a client that has to ask the server.\<close>

lemma ec_get_own:
  assumes inv: "ext_inv w" and fs: "ext_fs w i = Some (t, x)" and own: "owner_map w i = Some c"
  shows "\<exists>w'. ec_get up e c i w = Inr ((0, x), w') \<and> ext_inv w' \<and> ext_fs w' = ext_fs w \<and>
    owner_map w' = owner_map w \<and> same_but i w w' \<and> free_kept c i w w'"
proof -
  obtain m where c: "data_map (clients w c) i = Some \<lparr>dc_stat = OWN, dc_data = x\<rparr>"
    "metadata_map (clients w c) i = Some m" "mc_stat m = OWN" "a_type (mc_metadata m) = scast t"
    using owner_caches [OF inv fs own] by blast
  show ?thesis
  proof (cases "i = 1")
    case True
    with c inv show ?thesis by (simp add: ec_get_def same_but_refl free_kept_def)
  next
    case False
    let ?m = "m\<lparr>mc_metadata := (mc_metadata m)\<lparr>a_atime := clock e 0\<rparr>\<rparr>"
    let ?w = "on_client c (\<lambda>k. k\<lparr>metadata_map := (metadata_map k)(i \<mapsto> ?m)\<rparr>) w"
    have "ec_get up e c i w = Inr ((0, x), ?w)" using False c by (simp add: ec_get_def)
    moreover have "ext_inv ?w" "ext_fs ?w = ext_fs w"
      using getattr_keeps [OF inv fs, of ?m ?w c] c by simp_all
    moreover have "same_but i w ?w" "free_kept c i w ?w" by (simp_all add: same_but_def free_kept_def)
    ultimately show ?thesis by auto
  qed
qed

lemma ec_get_ask:
  assumes inv: "ext_inv w" and fs: "ext_fs w i = Some (t, x)" and rd: "ext_ready up c w i"
    and other: "owner_map w i \<noteq> Some c"
  shows "\<exists>w'. ec_get up e c i w = Inr ((0, x), w') \<and> ext_inv w' \<and> ext_fs w' = ext_fs w \<and>
    owner_map w' i = Some c \<and> same_but i w w' \<and> free_kept c i w w'"
proof -
  have v: "ext_valid i" using contents_SomeD [OF fs] by blast
  have ok: "cell_ok (cell_of w i)" using inv v by (simp add: ext_inv_def)
  define w0 where "w0 = (if data_map (clients w c) i = None
     then on_client c (\<lambda>k. k\<lparr>data_map := (data_map k)(i \<mapsto> data_cache_new)\<rparr>) w else w)"
  have new: "dc_stat data_cache_new \<noteq> OWN" by (simp add: data_cache_new_def)
  have w0: "ext_inv w0" "ext_fs w0 i = Some (t, x)" "ext_ready up c w0 i" "owner_map w0 i \<noteq> Some c"
    "ext_fs w0 = ext_fs w"
    using fresh_entry_ok [OF inv v other new] inv fs rd other by (auto simp: w0_def)
  obtain d where d: "data_map (clients w0 c) i = Some d" "dc_stat d \<noteq> OWN"
    using cell_okD(1) [OF ok, of c] other new by (cases "data_map (clients w c) i") (auto simp: w0_def)
  obtain m w1 where meta: "(case metadata_map (clients w0 c) i of
       Some meta \<Rightarrow> if mc_stat meta = NONE
         then and_then (ec_getattr up e c i (mc_metadata meta) w0) (\<lambda>((ret, a), w). Inr (ret, w))
         else Inr (0, w0)
     | None \<Rightarrow> and_then (ec_getattr up e c i (mc_metadata (metadata_cache_new e)) w0)
         (\<lambda>((ret, a), w). Inr (ret, w))) = Inr (0 :: int, w1)"
    and m: "a_type (mc_metadata m) = scast t" "mc_stat m = OWN" and w1: "im w1 = im w0"
    "\<And>j. cell_of w1 j =
       (if j = i then (cell_of w0 i)\<lparr>c_meta := (c_meta (cell_of w0 i))(c \<mapsto> m)\<rparr> else cell_of w0 j)"
    by (rule get_meta_ok [OF w0(1,2,3), of e]) (rule that)
  note k1 = getattr_keeps [OF w0(1,2) m w1]
  have mc: "metadata_map (clients w1 c) i = Some m" using arg_cong [OF w1(2) [of i], of c_meta]
    by (simp add: cell_of_def fun_eq_iff)
  have ready1: "ext_ready up c w1 i" and own1: "owner_map w1 i \<noteq> Some c" and fs1: "ext_fs w1 i = Some (t, x)"
    using k1 w0 by simp_all
  obtain im' where g: "es_get up (later e) c i w1 = Inr ((0, x),
      w1\<lparr>im := im', owner_map := (owner_map w1)(i \<mapsto> c), clients := give_up i w1\<rparr>)"
    "im_inv im'" "files im' = (files (im w1))(ucast i \<mapsto> (t, x))"
    "owner_map w1 i = None \<Longrightarrow> free_ahead (im_bm im') = free_ahead (im_bm (im w1))"
    using es_get_ok [OF k1(1) fs1 ready1 own1] by blast
  note fin = handed_over [OF k1(1) fs1 own1 mc m(2,1) g(2,3)]
  have run: "ec_get up e c i w = Inr ((0, x), on_client c (\<lambda>k. k\<lparr>data_map := (data_map k)(i \<mapsto> \<lparr>dc_stat = OWN, dc_data = x\<rparr>)\<rparr>)
    (w1\<lparr>im := im', owner_map := (owner_map w1)(i \<mapsto> c), clients := give_up i w1\<rparr>))"
    unfolding ec_get_def w0_def [symmetric] Let_def using d meta g(1) by simp
  have "same_but i w w0" "same_but i w0 w1" by (simp_all add: same_but_def w0_def w1(2))
  from same_but_trans [OF same_but_trans [OF this] fin(3)] show ?thesis
    unfolding run using fin(1,2) k1(2,3) w0(5) g(4) other w1(1) by (simp add: free_kept_def w0_def)
qed

lemma ec_get_ok:
  assumes "ext_inv w" "ext_fs w i = Some (t, x)" "ext_ready up c w i"
  shows "\<exists>w'. ec_get up e c i w = Inr ((0, x), w') \<and> ext_inv w' \<and> ext_fs w' = ext_fs w \<and>
    owner_map w' i = Some c \<and> same_but i w w' \<and> free_kept c i w w'"
proof (cases "owner_map w i = Some c")
  case True
  with ec_get_own [OF assms(1,2) True, of up e] show ?thesis by auto
next
  case False
  with ec_get_ask [OF assms False] show ?thesis by blast
qed

text \<open>Only the cell of the extent itself changes when a client gets or puts it.\<close>

lemma put_cell:
  fixes buf :: "byte list"
  assumes inv: "ext_inv w" and fs: "ext_fs w i = Some (t, x)" and own: "owner_map w i = Some c"
    and m: "mc_stat m = OWN" "a_type (mc_metadata m) = scast t"
  defines "w' \<equiv> on_client c (\<lambda>k. k\<lparr>metadata_map := (metadata_map k)(i \<mapsto> m),
      data_map := (data_map k)(i \<mapsto> \<lparr>dc_stat = OWN, dc_data = buf\<rparr>)\<rparr>) w"
  shows "ext_inv w'" "ext_fs w' = (ext_fs w)(i \<mapsto> (t, buf))" "owner_map w' = owner_map w"
    "same_but i w w'"
proof -
  from contents_SomeD [OF fs] obtain y where v: "ext_valid i"
    and y: "files (im w) (ucast i) = Some (t, y)" by blast
  have ok: "cell_ok (cell_of w i)" using inv v by (simp add: ext_inv_def)
  have cell: "cell_of w' j = (if j = i then (cell_of w i)
      \<lparr>c_data := (c_data (cell_of w i))(c \<mapsto> \<lparr>dc_stat = OWN, dc_data = buf\<rparr>),
       c_meta := (c_meta (cell_of w i))(c \<mapsto> m)\<rparr> else cell_of w j)" for j
    by (auto simp: w'_def cell_of_def fun_eq_iff)
  have "cell_ok (cell_of w' i)"
    by (rule cell_okI) (use cell_okD(1,3) [OF ok] own m y in \<open>auto simp: cell split: if_splits\<close>)
  moreover have "contents (cell_of w' i) = Some (t, buf)"
    using y own by (simp add: cell contents_def)
  moreover have "im_inv (im w')" using inv by (simp add: ext_inv_def w'_def)
  ultimately show "ext_inv w'" "ext_fs w' = (ext_fs w)(i \<mapsto> (t, buf))"
    using one_cell [OF inv, of w' i] v by (auto simp: cell)
  show "owner_map w' = owner_map w" by (simp add: w'_def)
  show "same_but i w w'" by (simp add: same_but_def cell)
qed

lemma ec_put_ok:
  assumes inv: "ext_inv w" and fs: "ext_fs w i = Some (t, x)" and rd: "ext_ready up c w i"
  shows "\<exists>w'. ec_put up e c i buf w = Inr (0, w') \<and> ext_inv w' \<and>
    ext_fs w' = (ext_fs w)(i \<mapsto> (t, buf)) \<and> owner_map w' i = Some c \<and> same_but i w w' \<and>
    free_kept c i w w'"
proof -
  have v: "ext_valid i" using contents_SomeD [OF fs] by blast
  have ok: "cell_ok (cell_of w i)" using inv v by (simp add: ext_inv_def)
  have new: "dc_stat data_cache_new \<noteq> OWN" by (simp add: data_cache_new_def)
  define w0 where "w0 = (if data_map (clients w c) i = None
     then on_client c (\<lambda>k. k\<lparr>data_map := (data_map k)(i \<mapsto> data_cache_new)\<rparr>) w else w)"
  have none: "data_map (clients w c) i = None \<Longrightarrow> owner_map w i \<noteq> Some c"
    using owner_caches [OF inv fs] by fastforce
  have w0: "ext_inv w0" "ext_fs w0 = ext_fs w" "ext_ready up c w0 i"
    using fresh_entry_ok [OF inv v none new] inv rd by (auto simp: w0_def)
  obtain d where d: "data_map (clients w0 c) i = Some d"
    by (cases "data_map (clients w c) i") (auto simp: w0_def)
  obtain w1 where w1: "(if dc_stat d \<noteq> OWN
      then and_then (ec_get up (later e) c i w0) (\<lambda>((r, b), w). Inr w) else Inr w0) = Inr w1"
    "ext_inv w1" "ext_fs w1 = ext_fs w" "owner_map w1 i = Some c" "same_but i w0 w1" "free_kept c i w0 w1"
  proof (cases "dc_stat d = OWN")
    case True
    moreover have "cell_ok (cell_of w0 i)" using w0(1) v by (simp add: ext_inv_def)
    ultimately have "owner_map w0 i = Some c" using cell_okD(1) [of "cell_of w0 i" c d] d by simp
    with True w0 that [of w0] show thesis by (simp add: same_but_refl free_kept_def)
  next
    case False
    have "ext_fs w0 i = Some (t, x)" using w0(2) fs by simp
    from ec_get_ok [OF w0(1) this w0(3), of "later e"] False w0(2) that show thesis by auto
  qed
  have fs1: "ext_fs w1 i = Some (t, x)" using w1(3) fs by simp
  obtain m where m: "data_map (clients w1 c) i = Some \<lparr>dc_stat = OWN, dc_data = x\<rparr>"
    "metadata_map (clients w1 c) i = Some m" "mc_stat m = OWN" "a_type (mc_metadata m) = scast t"
    using owner_caches [OF w1(2) fs1 w1(4)] by blast
  let ?m = "m\<lparr>mc_metadata := (mc_metadata m)\<lparr>a_size := word_of_nat (length buf),
      a_atime := clock e 0, a_ctime := clock e 1, a_mtime := clock e 2\<rparr>\<rparr>"
  have "ec_put up e c i buf w = Inr (0, on_client c (\<lambda>k. k\<lparr>metadata_map := (metadata_map k)(i \<mapsto> ?m),
      data_map := (data_map k)(i \<mapsto> \<lparr>dc_stat = OWN, dc_data = buf\<rparr>)\<rparr>) w1)"
    unfolding ec_put_def w0_def [symmetric] Let_def using d w1(1) m by simp
  moreover have "same_but i w w0" by (simp add: same_but_def w0_def)
  moreover have "free_kept c i w w1" using w1(6) by (simp add: free_kept_def w0_def split: if_splits)
  ultimately show ?thesis
    using put_cell [OF w1(2) fs1 w1(4), where m = ?m and buf = buf] m w1(3-5)
    by (auto intro: same_but_trans simp: free_kept_def)
qed

section \<open>Creating and removing\<close>

text \<open>
  A creation needs a free inode number, and no client and no owner entry that remembers an
  extent which is gone: the server reuses the number of a removed extent but keeps its
  \<open>owner_map\<close> entry.
\<close>

definition ext_room :: "extent_world \<Rightarrow> bool" where
  "ext_room w \<longleftrightarrow>
     (\<exists>j. 1 \<le> j \<and> j < INODE_NUM \<and> files (im w) j = None) \<and>
     (\<forall>i. ext_valid i \<longrightarrow> files (im w) (ucast i) = None \<longrightarrow> owner_map w i = None \<and>
        (\<forall>c. data_map (clients w c) i = None \<and> metadata_map (clients w c) i = None))"

lemma cell_eqD:
  assumes "cell_of w' i = cell_of w i"
  shows "files (im w') (ucast i) = files (im w) (ucast i)" "owner_map w' i = owner_map w i"
    "data_map (clients w' c) i = data_map (clients w c) i"
    "metadata_map (clients w' c) i = metadata_map (clients w c) i"
  using arg_cong [OF assms, of c_file] arg_cong [OF assms, of c_owner]
    fun_cong [OF arg_cong [OF assms, of c_data], of c] fun_cong [OF arg_cong [OF assms, of c_meta], of c]
  by simp_all

lemma valid_of_inum:
  assumes "i < INODE_NUM"
  shows "ext_valid (ucast i)" "ucast (ucast i :: u64) = i"
proof -
  have i: "unat i < 1024" using assms by (simp add: word_less_nat_alt)
  have up: "unat (ucast i :: u64) = unat i"
    unfolding unsigned_ucast_eq by (rule take_bit_nat_eq_self) (use i in simp)
  with i show "ext_valid (ucast i)" by (simp add: ext_valid_def word_less_nat_alt)
  have "unat (ucast (ucast i :: u64) :: u32) = unat i"
    unfolding unsigned_ucast_eq [of "ucast i :: u64"] up
    by (rule take_bit_nat_eq_self) (use i in simp)
  then show "ucast (ucast i :: u64) = i" by (simp add: word_unat_eq_iff)
qed

lemma room_keep:
  assumes "ext_fs w i \<noteq> None" "ext_fs w' i \<noteq> None" "same_but i w w'" "ext_room w"
  shows "ext_room w'"
proof -
  have v: "ext_valid i" and f: "files (im w) (ucast i) \<noteq> None" "files (im w') (ucast i) \<noteq> None"
    using assms(1,2) by (auto simp: ext_fs_def contents_def split: if_splits)
  have same: "cell_of w' j = cell_of w j" if "ext_valid j" "j \<noteq> i" for j
    using assms(3) that by (simp add: same_but_def)
  from assms(4) obtain j where j: "1 \<le> j" "j < INODE_NUM" "files (im w) j = None"
    unfolding ext_room_def by blast
  note vj = valid_of_inum [OF j(2)]
  have "ucast j \<noteq> i" using f(1) j(3) vj(2) by auto
  then have "files (im w') j = None" using cell_eqD(1) [OF same [OF vj(1)]] j(3) vj(2) by simp
  moreover have "owner_map w' k = None \<and> (\<forall>c. data_map (clients w' c) k = None \<and> metadata_map (clients w' c) k = None)"
    if k: "ext_valid k" "files (im w') (ucast k) = None" for k
  proof -
    have "k \<noteq> i" using f(2) k(2) by auto
    note eq = cell_eqD [OF same [OF k(1) this]]
    from assms(4) k eq(1) show ?thesis unfolding ext_room_def eq(2-4) by simp
  qed
  ultimately show ?thesis using j(1,2) unfolding ext_room_def by blast
qed

lemma ec_create_ok:
  assumes inv: "ext_inv w" and room: "ext_room w" and clean: "heap_clean e"
    and t: "(ucast type :: u16) \<noteq> 0"
  shows "\<exists>i w'. ec_create e c type w = Inr ((0, i), w') \<and> ext_fs w i = None \<and> ext_inv w' \<and>
    ext_fs w' = (ext_fs w)(i \<mapsto> (ucast type, [])) \<and> owner_map w' = owner_map w \<and> owner_map w i = None"
proof -
  from room obtain j where j: "1 \<le> j" "j < INODE_NUM" "files (im w) j = None"
    unfolding ext_room_def by blast
  have "im_inv (im w)" using inv by (simp add: ext_inv_def)
  from alloc_inode_ok [OF this clean t j] obtain i im' where al: "alloc_inode e type (im w) = Inr (i, im')"
    "i < INODE_NUM" "files (im w) i = None" "im_inv im'"
    "files im' = (files (im w))(i \<mapsto> (ucast type, []))" by blast
  note vi = valid_of_inum [OF al(2)]
  let ?w = "w\<lparr>im := im'\<rparr>" and ?i = "ucast i :: u64"
  have gone: "owner_map w ?i = None" "\<And>c. data_map (clients w c) ?i = None"
    "\<And>c. metadata_map (clients w c) ?i = None"
    using room vi al(3) unfolding ext_room_def by auto
  have "cell_ok (cell_of ?w ?i)" by (rule cell_okI) (simp_all add: gone)
  moreover have "contents (cell_of ?w ?i) = Some (ucast type, [])"
    using al(5) vi by (simp add: contents_def gone)
  moreover have "cell_of ?w k = cell_of w k" if "ext_valid k" "k \<noteq> ?i" for k
    using that al(5) vi valid_ucast_inj [OF that(1) vi(1)] by (auto simp: cell_of_def)
  ultimately have "ext_inv ?w" "ext_fs ?w = (ext_fs w)(?i \<mapsto> (ucast type, []))"
    using one_cell [OF inv, of ?w ?i] vi(1) al(4) by auto
  moreover have "ec_create e c type w = Inr ((0, ?i), ?w)"
    using al(1) by (simp add: ec_create_def es_create_def)
  moreover have "ext_fs w ?i = None" using al(3) vi by (simp add: ext_fs_def contents_def)
  ultimately show ?thesis using gone(1) by (intro exI [of _ ?i] exI [of _ ?w]) simp
qed

lemma ec_remove_ok:
  assumes inv: "ext_inv w" and fs: "ext_fs w i = Some (t, x)"
    and up: "\<And>d. owner_map w i = Some d \<Longrightarrow> up d"
  shows "\<exists>w'. ec_remove up e c i w = Inr (0, w') \<and> ext_inv w' \<and> ext_fs w' = (ext_fs w)(i := None) \<and>
    owner_map w' = owner_map w"
proof -
  from contents_SomeD [OF fs] obtain y where v: "ext_valid i"
    and y: "files (im w) (ucast i) = Some (t, y)" by blast
  have ok: "cell_ok (cell_of w i)" using inv v by (simp add: ext_inv_def)
  have iminv: "im_inv (im w)" using inv by (simp add: ext_inv_def)
  obtain im' where rm: "remove_file e (ucast i) (im w) = Inr im'" "im_inv im'"
    "files im' = (files (im w))(ucast i := None)" by (rule remove_file_files [OF iminv y, of e])
  have "(case owner_map w i of None \<Rightarrow> Inr w | Some d \<Rightarrow> guard Null_deref (up d)
      (and_then (ec_clear_handler d i w) (\<lambda>(r, w). Inr w))) = Inr (w\<lparr>clients := give_up i w\<rparr>)"
  proof (cases "owner_map w i")
    case (Some d)
    then obtain m where "data_map (clients w d) i = Some \<lparr>dc_stat = OWN, dc_data = x\<rparr>"
      "metadata_map (clients w d) i = Some m" using owner_caches [OF inv fs] by blast
    with Some up ec_clear_handler_ok [of w d i] show ?thesis by simp
  qed (simp add: give_up_def)
  then have run: "ec_remove up e c i w = Inr (0, w\<lparr>im := im', clients := give_up i w\<rparr>)"
    using rm(1) v by (simp add: ec_remove_def es_remove_def valid_id)
  let ?w = "w\<lparr>im := im', clients := give_up i w\<rparr>"
  have data: "data_map (give_up i w a) i = (if owner_map w i = Some a
      then map_option (\<lambda>d. d\<lparr>dc_stat := NONE\<rparr>) (data_map (clients w a) i) else data_map (clients w a) i)"
    and meta: "metadata_map (give_up i w a) i = (if owner_map w i = Some a
      then map_option (\<lambda>m. m\<lparr>mc_stat := NONE\<rparr>) (metadata_map (clients w a) i)
      else metadata_map (clients w a) i)" for a
    by (auto simp: give_up_def cleared_def split: option.splits)
  have "cell_ok (cell_of ?w i)"
  proof (rule cell_okI)
    fix a d assume "c_data (cell_of ?w i) a = Some d" "dc_stat d = OWN"
    then show "c_owner (cell_of ?w i) = Some a \<and> c_file (cell_of ?w i) \<noteq> None"
      using cell_okD(1) [OF ok, of a d] by (auto simp: data split: if_splits)
  next
    fix a assume "c_owner (cell_of ?w i) = Some a"
    then show "\<exists>d n. c_data (cell_of ?w i) a = Some d \<and> c_meta (cell_of ?w i) a = Some n \<and>
        (c_file (cell_of ?w i) \<noteq> None \<longrightarrow> dc_stat d = OWN \<and> mc_stat n = OWN)"
      using cell_okD(2) [OF ok, of a] rm(3) by (auto simp: data meta)
  qed (simp add: rm(3))
  moreover have "contents (cell_of ?w i) = None" by (simp add: contents_def rm(3))
  moreover have "cell_of ?w k = cell_of w k" if "ext_valid k" "k \<noteq> i" for k
    using that rm(3) v valid_ucast_inj [OF that(1) v]
    by (auto simp: cell_of_def give_up_def cleared_def fun_eq_iff split: option.splits)
  ultimately have "ext_inv ?w" "ext_fs ?w = (ext_fs w)(i := None)"
    using one_cell [OF inv, of ?w i] v rm(2) by auto
  with run show ?thesis by auto
qed

section \<open>The extent clients provide the extent service\<close>

text \<open>The operations of client \<open>c\<close>.\<close>

definition ec_ops :: "(cid \<Rightarrow> bool) \<Rightarrow> cid \<Rightarrow> extent_world ext_ops" where
  "ec_ops up c =
     \<lparr>x_create = (\<lambda>e type w. ec_create e c type w), x_get = (\<lambda>e i w. ec_get up e c i w),
      x_getattr = (\<lambda>e i a w. ec_getattr up e c i a w), x_put = (\<lambda>e i buf w. ec_put up e c i buf w),
      x_remove = (\<lambda>e i w. ec_remove up e c i w)\<rparr>"

definition ext_mine :: "cid \<Rightarrow> extent_world \<Rightarrow> extentid_t \<Rightarrow> bool" where
  "ext_mine c w i \<longleftrightarrow> ext_valid i \<and> owner_map w i = Some c"

definition ext_reach :: "(cid \<Rightarrow> bool) \<Rightarrow> extent_world \<Rightarrow> extentid_t \<Rightarrow> bool" where
  "ext_reach up w i \<longleftrightarrow> ext_valid i \<and> (\<forall>d. owner_map w i = Some d \<longrightarrow> up d)"

lemma reach_keep:
  assumes "same_but i w w'" "owner_map w' i = Some c" "up c" "ext_reach up w j"
  shows "ext_reach up w' j"
  using assms cell_eqD(2) [of w' j w] by (cases "j = i") (auto simp: ext_reach_def same_but_def)

lemma mine_keep:
  assumes "same_but i w w'" "owner_map w i = Some c \<Longrightarrow> owner_map w' i = Some c" "ext_mine c w j"
  shows "ext_mine c w' j"
  using assms cell_eqD(2) [of w' j w] by (cases "j = i") (auto simp: ext_mine_def same_but_def)

lemma ready_up:
  "ext_ready up c w i \<Longrightarrow> up c \<Longrightarrow> owner_map w i = Some d \<Longrightarrow> up d"
  by (auto simp: ext_ready_def)

lemma ready_keep:
  assumes "same_but i w w'" "free_kept c i w w'" "owner_map w' i = Some c" "ext_mine c w i"
    "\<And>j. j \<noteq> i \<Longrightarrow> ext_fs w' j = ext_fs w j" "ext_ready up c w j" "ext_fs w j \<noteq> None"
  shows "ext_ready up c w' j"
proof (cases "j = i")
  case True
  then show ?thesis using assms(3) by (simp add: ext_ready_def)
next
  case False
  from assms(7) have "ext_valid j" using contents_SomeD [of w j] by (cases "ext_fs w j") auto
  then have own: "owner_map w' j = owner_map w j"
    using assms(1) False cell_eqD(2) [of w' j w] by (simp add: same_but_def)
  have free: "free_ahead (im_bm (im w')) = free_ahead (im_bm (im w))"
    using assms(2,4) by (simp add: free_kept_def ext_mine_def)
  show ?thesis using assms(6) unfolding ext_ready_def assms(5) [OF False] own free .
qed

interpretation ecs: extent_service "ec_ops up c" "\<lambda>w. ext_inv w \<and> up c" ext_fs "ext_ready up c"
  "ext_mine c" "ext_reach up" ext_room for up c
proof (unfold_locales, goal_cases)
  case (1 w i)
  then show ?case by (simp add: ready_owner ext_mine_def)
next
  case (2 w i t d e)
  then have v: "ext_valid i" using contents_SomeD by blast
  from 2 obtain w' where w': "ec_get up e c i w = Inr ((0, d), w')" "ext_inv w'" "ext_fs w' = ext_fs w"
    "owner_map w' i = Some c" "same_but i w w'" "free_kept c i w w'" using ec_get_ok by blast
  have "ext_mine c w' j" if "ext_mine c w j" for j using mine_keep [OF w'(5)] w'(4) that by blast
  moreover have "ext_reach up w' j" if "ext_reach up w j" for j
    using reach_keep [OF w'(5,4) _ that] 2(1) by blast
  moreover have "ext_room w \<Longrightarrow> ext_room w'" using room_keep [OF _ _ w'(5)] 2(2) w'(3) by simp
  moreover have "ext_ready up c w' j" if "ext_mine c w i" "ext_ready up c w j" "ext_fs w j \<noteq> None" for j
    using ready_keep [OF w'(5,6,4) that(1) _ that(2,3)] w'(3) by simp
  ultimately show ?case using w' v 2(1) by (auto simp: ec_ops_def ext_mine_def)
next
  case (3 w i t d e a0)
  from 3 obtain m w' where w': "ec_getattr up e c i a0 w = Inr ((0, mc_metadata m), w')"
    "a_type (mc_metadata m) = scast t" "mc_stat m = OWN" "im w' = im w" and
    cell: "\<And>j. cell_of w' j =
       (if j = i then (cell_of w i)\<lparr>c_meta := (c_meta (cell_of w i))(c \<mapsto> m)\<rparr> else cell_of w j)"
    using ec_getattr_ok by blast
  have inv: "ext_inv w" using 3 by simp
  note keep = getattr_keeps [OF inv 3(2) w'(2,3,4) cell]
  have same: "same_but i w w'" by (simp add: same_but_def cell)
  have "ext_room w \<Longrightarrow> ext_room w'" using room_keep [OF _ _ same] 3(2) keep(2) by simp
  then show ?case using w'(1,2) keep 3(1) by (auto simp: ec_ops_def ext_mine_def ext_reach_def)
next
  case (4 w i t d e buf)
  then have v: "ext_valid i" using contents_SomeD by blast
  from 4 obtain w' where w': "ec_put up e c i buf w = Inr (0, w')" "ext_inv w'"
    "ext_fs w' = (ext_fs w)(i \<mapsto> (t, buf))" "owner_map w' i = Some c" "same_but i w w'"
    "free_kept c i w w'" using ec_put_ok by blast
  have "ext_mine c w' j" if "ext_mine c w j" for j using mine_keep [OF w'(5)] w'(4) that by blast
  moreover have "ext_room w \<Longrightarrow> ext_room w'" using room_keep [OF _ _ w'(5)] 4(2) w'(3) by simp
  moreover have "ext_ready up c w' j" if "ext_mine c w i" "ext_ready up c w j" "ext_fs w j \<noteq> None" for j
    using ready_keep [OF w'(5,6,4) that(1) _ that(2,3)] w'(3) by simp
  ultimately show ?case using w' v 4(1) by (auto simp: ec_ops_def ext_mine_def)
next
  case (5 w e type)
  then obtain i w' where w': "ec_create e c type w = Inr ((0, i), w')" "ext_fs w i = None" "ext_inv w'"
    "ext_fs w' = (ext_fs w)(i \<mapsto> (ucast type, []))" "owner_map w' = owner_map w" "owner_map w i = None"
    using ec_create_ok by blast
  then show ?case using 5(1) by (auto simp: ec_ops_def ext_mine_def ext_ready_def)
next
  case (6 w i t d e)
  have inv: "ext_inv w" using 6 by simp
  obtain w' where "ec_remove up e c i w = Inr (0, w')" "ext_inv w'"
    "ext_fs w' = (ext_fs w)(i := None)" "owner_map w' = owner_map w"
    using ec_remove_ok [OF inv 6(2), of up e c] 6(3) unfolding ext_reach_def by blast
  then show ?case using 6(1) by (auto simp: ec_ops_def ext_mine_def)
qed

end
