(* ===== verification/Extent_Props.thy ===== *)
theory Extent_Props
  imports Extent_Correct
begin

text \<open>
  Properties of the extent layer: the caches of all clients together behave like one map of
  extents, what one client writes another reads, and the two places where the protocol
  between server and clients goes wrong: cached attributes are not invalidated, and the
  number of a removed extent keeps its owner.
\<close>

section \<open>Runs of several clients\<close>

text \<open>An operation of a client with its arguments and what it returned.\<close>

datatype ext_op =
  X_create u32 extentid_t | X_get extentid_t "byte list" | X_type extentid_t u32
| X_put extentid_t "byte list" | X_remove extentid_t

type_synonym ext_map = "extentid_t \<rightharpoonup> (u16 \<times> byte list)"

fun ext_apply :: "ext_op \<Rightarrow> ext_map \<Rightarrow> ext_map option" where
  "ext_apply (X_create type i) m = (if m i = None then Some (m(i \<mapsto> (ucast type, []))) else None)"
| "ext_apply (X_get i b) m =
     (case m i of Some (t, d) \<Rightarrow> if d = b then Some m else None | None \<Rightarrow> None)"
| "ext_apply (X_type i a) m =
     (case m i of Some (t, d) \<Rightarrow> if a = scast t then Some m else None | None \<Rightarrow> None)"
| "ext_apply (X_put i b) m =
     (case m i of Some (t, d) \<Rightarrow> Some (m(i \<mapsto> (t, b))) | None \<Rightarrow> None)"
| "ext_apply (X_remove i) m = (case m i of Some x \<Rightarrow> Some (m(i := None)) | None \<Rightarrow> None)"

fun ext_apply_all :: "ext_op list \<Rightarrow> ext_map \<Rightarrow> ext_map option" where
  "ext_apply_all [] m = Some m"
| "ext_apply_all (op # ops) m = Option.bind (ext_apply op m) (ext_apply_all ops)"

text \<open>
  One operation by one of the clients. An access is to an extent that exists and is ready
  for that client; a creation has room and a clean heap; the clients that act can be called
  back.
\<close>

inductive ext_step :: "(cid \<Rightarrow> bool) \<Rightarrow> extent_world \<Rightarrow> ext_op \<Rightarrow> extent_world \<Rightarrow> bool" for up where
  s_create: "up c \<Longrightarrow> ext_room w \<Longrightarrow> heap_clean e \<Longrightarrow> (ucast type :: u16) \<noteq> 0 \<Longrightarrow>
    ec_create e c type w = Inr ((r, i), w') \<Longrightarrow> ext_step up w (X_create type i) w'"
| s_get: "up c \<Longrightarrow> ext_fs w i \<noteq> None \<Longrightarrow> ext_ready up c w i \<Longrightarrow>
    ec_get up e c i w = Inr ((r, b), w') \<Longrightarrow> ext_step up w (X_get i b) w'"
| s_getattr: "up c \<Longrightarrow> ext_fs w i \<noteq> None \<Longrightarrow> ext_ready up c w i \<Longrightarrow>
    ec_getattr up e c i a0 w = Inr ((r, a), w') \<Longrightarrow> ext_step up w (X_type i (a_type a)) w'"
| s_put: "up c \<Longrightarrow> ext_fs w i \<noteq> None \<Longrightarrow> ext_ready up c w i \<Longrightarrow>
    ec_put up e c i b w = Inr (r, w') \<Longrightarrow> ext_step up w (X_put i b) w'"
| s_remove: "up c \<Longrightarrow> ext_fs w i \<noteq> None \<Longrightarrow> ext_ready up c w i \<Longrightarrow>
    ec_remove up e c i w = Inr (r, w') \<Longrightarrow> ext_step up w (X_remove i) w'"

inductive ext_run :: "(cid \<Rightarrow> bool) \<Rightarrow> extent_world \<Rightarrow> ext_op list \<Rightarrow> extent_world \<Rightarrow> bool" for up where
  run_nil: "ext_run up w [] w"
| run_cons: "ext_step up w op w1 \<Longrightarrow> ext_run up w1 ops w2 \<Longrightarrow> ext_run up w (op # ops) w2"

lemma ext_step_sim:
  assumes "ext_step up w op w'" "ext_inv w"
  shows "ext_inv w' \<and> ext_apply op (ext_fs w) = Some (ext_fs w')"
  using assms(1)
proof cases
  case (s_create c e type r i)
  with ecs.create_law [of w up c e type] assms(2) show ?thesis by (fastforce simp: ec_ops_def)
next
  case (s_get c i e r b)
  then obtain t d where "ext_fs w i = Some (t, d)" by auto
  with s_get ecs.get_law [of w up c i t d e] assms(2) show ?thesis by (fastforce simp: ec_ops_def)
next
  case (s_getattr c i e a0 r a)
  then obtain t d where "ext_fs w i = Some (t, d)" by auto
  with s_getattr ecs.getattr_law [of w up c i t d e a0] assms(2) show ?thesis
    by (fastforce simp: ec_ops_def)
next
  case (s_put c i e b r)
  then obtain t d where "ext_fs w i = Some (t, d)" by auto
  with s_put ecs.put_law [of w up c i t d e b] assms(2) show ?thesis by (fastforce simp: ec_ops_def)
next
  case (s_remove c i e r)
  then obtain t d where "ext_fs w i = Some (t, d)" by auto
  moreover have "ext_reach up w i"
    using ready_up [OF s_remove(4,2)] contents_SomeD [OF calculation] by (simp add: ext_reach_def)
  ultimately show ?thesis
    using s_remove ecs.remove_law [of w up c i t d e] assms(2) by (fastforce simp: ec_ops_def)
qed

lemma ext_run_sim:
  "ext_run up w ops w' \<Longrightarrow> ext_inv w \<Longrightarrow> ext_inv w' \<and> ext_apply_all ops (ext_fs w) = Some (ext_fs w')"
proof (induction rule: ext_run.induct)
  case (run_cons w op w1 ops w2)
  with ext_step_sim [OF run_cons(1)] show ?case by simp
qed simp

text \<open>A server just started: the root directory, no owner, empty caches.\<close>

lemma ext_boot:
  obtains w where "es_new env0 0 = Inr w" "ext_inv w" "ext_fs w = [1 \<mapsto> (1, [])]" "ext_room w"
    "owner_map w = Map.empty" "length (free_ahead (im_bm (im w))) = 30704"
proof -
  obtain i where i: "im_new env0 0 = Inr i" "im_inv i" "files i = [1 \<mapsto> (1, [])]"
    "length (free_ahead (im_bm i)) = 30704" by (rule boot)
  let ?w = "\<lparr>im = i, owner_map = Map.empty,
    clients = (\<lambda>_. \<lparr>data_map = Map.empty, metadata_map = Map.empty\<rparr>)\<rparr>"
  have "es_new env0 0 = Inr ?w" using i(1) by (simp add: es_new_def)
  moreover have "ext_inv ?w" using i(2) by (auto simp: ext_inv_def intro!: cell_okI)
  moreover have "ext_fs ?w = [1 \<mapsto> (1, [])]"
  proof (rule ext)
    fix k show "ext_fs ?w k = [1 \<mapsto> (1, [])] k"
    proof (cases "k = 1")
      case False
      then have "ucast k \<noteq> (1 :: u32)" if "ext_valid k"
        using valid_ucast_inj [OF that, of 1] by (auto simp: ext_valid_def)
      with False i(3) show ?thesis by (auto simp: ext_fs_def contents_def)
    qed (simp add: ext_fs_def contents_def ext_valid_def i(3))
  qed
  moreover have "ext_room ?w" using i(3) by (auto simp: ext_room_def intro!: exI [of _ 2])
  ultimately show thesis using that [of ?w] i(4) by auto
qed

section \<open>Properties\<close>


text \<open>A run of two clients: \<open>a\<close> writes the root extent, \<open>b\<close> reads it.\<close>

lemma ext_run_two:
  obtains w w1 w2 where "es_new env0 0 = Inr w" "ext_inv w" "ec_put (\<lambda>_. True) env0 ''a'' 1 [7] w = Inr (0, w1)"
    "ext_ready (\<lambda>_. True) ''b'' w1 1" "ext_inv w1" "ext_fs w = [1 \<mapsto> (1, [])]" "ext_ready (\<lambda>_. True) ''a'' w 1"
    "ext_run (\<lambda>_. True) w [X_put 1 [7], X_get 1 [7]] w2"
proof -
  let ?up = "\<lambda>_ :: cid. True"
  obtain w where w: "es_new env0 0 = Inr w" "ext_inv w" "ext_fs w = [1 \<mapsto> (1, [])]"
    "owner_map w = Map.empty" "length (free_ahead (im_bm (im w))) = 30704" by (rule ext_boot)
  have f: "ext_fs w 1 = Some (1, [])" and rd: "ext_ready ?up ''a'' w 1"
    using w(3,4) by (simp_all add: ext_ready_def)
  obtain w1 where w1: "ec_put ?up env0 ''a'' 1 [7] w = Inr (0, w1)" "ext_inv w1"
    "ext_fs w1 = (ext_fs w)(1 \<mapsto> (1, [7]))" "owner_map w1 1 = Some ''a''" "free_kept ''a'' 1 w w1"
    using ec_put_ok [OF w(2) f rd, of env0 "[7]"] by blast
  have f1: "ext_fs w1 1 = Some (1, [7])" using w1(3) by simp
  have rd1: "ext_ready ?up ''b'' w1 1"
    using w1(3-5) w(4,5) by (simp add: ext_ready_def free_kept_def NDIRECT_def nblk_def)
  obtain w2 where w2: "ec_get ?up env0 ''b'' 1 w1 = Inr ((0, [7]), w2)"
    using ec_get_ok [OF w1(2) f1 rd1, of env0] by blast
  have "ext_run ?up w [X_put 1 [7], X_get 1 [7]] w2"
    by (rule run_cons [OF s_put [OF _ _ rd w1(1)] run_cons [OF s_get [OF _ _ rd1 w2] run_nil]])
      (simp_all add: f f1)
  then show thesis using that [OF w(1,2) w1(1) rd1 w1(2) w(3) rd] by blast
qed


text \<open>
  What one client puts another gets: after a \<open>put\<close> by client \<open>c\<close>, which reaches only its
  cache, a \<open>get\<close> by any client \<open>d\<close> returns the new contents; the server takes them back from
  \<open>c\<close> on the way.
\<close>

theorem put_visible:
  assumes "ext_inv w" and "ext_fs w i = Some (t, x)" and "ext_ready up c w i"
    and "ec_put up e c i buf w = Inr (r, w1)" and "ext_ready up d w1 i"
  shows "\<exists>w2. ec_get up e' d i w1 = Inr ((0, buf), w2) \<and> owner_map w2 i = Some d \<and>
    ext_fs w2 = (ext_fs w)(i \<mapsto> (t, buf))"
proof -
  have w1: "ext_inv w1" "ext_fs w1 = (ext_fs w)(i \<mapsto> (t, buf))"
    using ec_put_ok [OF assms(1-3), of e buf] assms(4) by auto
  have "ext_fs w1 i = Some (t, buf)" using w1(2) by simp
  from ec_get_ok [OF w1(1) this assms(5), of e'] w1(2) show ?thesis by auto
qed

theorem put_visible_witness:
  "\<exists>w w1 w2. es_new env0 0 = Inr w \<and> ec_put (\<lambda>_. True) env0 ''a'' 1 [7] w = Inr (0, w1) \<and>
    ec_get (\<lambda>_. True) env0 ''b'' 1 w1 = Inr ((0, [7]), w2)"
proof -
  obtain w w1 where w: "es_new env0 0 = Inr w" "ext_inv w"
    "ec_put (\<lambda>_. True) env0 ''a'' 1 [7] w = Inr (0, w1)" "ext_ready (\<lambda>_. True) ''b'' w1 1"
    "ext_fs w = [1 \<mapsto> (1, [])]" "ext_ready (\<lambda>_. True) ''a'' w 1" by (rule ext_run_two)
  have "ext_fs w 1 = Some (1, [])" using w(5) by simp
  from put_visible [OF w(2) this w(6,3,4), of env0] w(1,3) show ?thesis by blast
qed

text \<open>
  C36. Cached attributes go stale: a client that has fetched the attributes of an extent keeps
  them for good. After any \<open>put\<close> by the owner, \<open>getattr\<close> of the other client still returns
  the attributes it had, the old size included, without asking the server.
\<close>

theorem stale_attributes:
  assumes "ext_inv w" and "ext_fs w i = Some (t, x)" and "owner_map w i = Some c" and "d \<noteq> c"
    and "metadata_map (clients w d) i = Some m" and "mc_stat m = OWN"
  shows "\<exists>w1. ec_put up e c i buf w = Inr (0, w1) \<and> ext_fs w1 i = Some (t, buf) \<and>
    ec_getattr up e' d i a0 w1 = Inr ((0, mc_metadata m), w1)"
proof -
  obtain n where n: "data_map (clients w c) i = Some \<lparr>dc_stat = OWN, dc_data = x\<rparr>"
    "metadata_map (clients w c) i = Some n" "mc_stat n = OWN" "a_type (mc_metadata n) = scast t"
    using owner_caches [OF assms(1-3)] by blast
  let ?n = "n\<lparr>mc_metadata := (mc_metadata n)\<lparr>a_size := word_of_nat (length buf),
      a_atime := clock e 0, a_ctime := clock e 1, a_mtime := clock e 2\<rparr>\<rparr>"
  let ?w = "on_client c (\<lambda>k. k\<lparr>metadata_map := (metadata_map k)(i \<mapsto> ?n),
      data_map := (data_map k)(i \<mapsto> \<lparr>dc_stat = OWN, dc_data = buf\<rparr>)\<rparr>) w"
  have "ec_put up e c i buf w = Inr (0, ?w)" using n by (simp add: ec_put_def Let_def)
  moreover have "ext_fs ?w i = Some (t, buf)"
    using put_cell(2) [OF assms(1-3), where m = ?n and buf = buf] n by simp
  moreover have "ec_getattr up e' d i a0 ?w = Inr ((0, mc_metadata m), ?w)"
    using assms(4-6) by (simp add: ec_getattr_def)
  ultimately show ?thesis by blast
qed

theorem stale_attributes_witness:
  "\<exists>w w1 m. ext_inv w \<and> metadata_map (clients w ''b'') 1 = Some m \<and> ext_fs w 1 = Some (1, []) \<and>
    ec_put (\<lambda>_. True) env0 ''a'' 1 [7] w = Inr (0, w1) \<and> ext_fs w1 1 = Some (1, [7]) \<and>
    ec_getattr (\<lambda>_. True) env0 ''b'' 1 attr_zero w1 = Inr ((0, mc_metadata m), w1)"
proof -
  let ?up = "\<lambda>_ :: cid. True"
  obtain w where w: "ext_inv w" "ext_fs w = [1 \<mapsto> (1, [])]" "owner_map w = Map.empty" by (rule ext_boot)
  have f: "ext_fs w 1 = Some (1, [])" "ext_ready ?up ''a'' w 1" using w(2,3) by (simp_all add: ext_ready_def)
  obtain w1 where w1: "ec_get ?up env0 ''a'' 1 w = Inr ((0, []), w1)" "ext_inv w1" "ext_fs w1 = ext_fs w"
    "owner_map w1 1 = Some ''a''" "free_kept ''a'' 1 w w1" using ec_get_ok [OF w(1) f, of env0] by blast
  have f1: "ext_fs w1 1 = Some (1, [])" using w1(3) f(1) by simp
  have up: "?up d" if "owner_map w1 1 = Some d" for d by simp
  obtain a where a: "es_getattr ?up env0 ''b'' 1 w1 = Inr (0, a)" "a_type a = scast (1 :: u16)"
    using es_getattr_ok [OF w1(2) f1, of ?up env0 "''b''"] by auto
  let ?m = "\<lparr>mc_stat = OWN, mc_metadata = a\<rparr>"
  let ?w = "on_client ''b'' (\<lambda>k. k\<lparr>metadata_map := (metadata_map k)(1 \<mapsto> ?m)\<rparr>) w1"
  note keep = getattr_keeps [OF w1(2) f1, where m = ?m and w' = ?w and c = "''b''"]
  have inv: "ext_inv ?w" and fs: "ext_fs ?w = ext_fs w1" and own: "owner_map ?w = owner_map w1"
    using keep a(2) by simp_all
  have fs1: "ext_fs ?w 1 = Some (1, [])" and own1: "owner_map ?w 1 = Some ''a''"
    using fs own f1 w1(4) by simp_all
  have m: "metadata_map (clients ?w ''b'') 1 = Some ?m" "mc_stat ?m = OWN" by simp_all
  have "''b'' \<noteq> ''a''" by simp
  from stale_attributes [OF inv fs1 own1 this m, of ?up env0 "[7]" env0 attr_zero] inv fs1 m(1)
  show ?thesis by blast
qed

text \<open>
  C37. A removed extent keeps its owner: \<open>remove\<close> tells the owner to drop its cache but leaves
  the \<open>owner_map\<close> entry. Whatever happens to the inode table afterwards, in particular when
  the number is given to a new file, a \<open>get\<close> of that number by the former owner makes the
  server ask it for a flush, and the client exits.
\<close>

theorem removed_extent_keeps_owner:
  assumes "ext_inv w" and "ext_fs w i = Some (t, x)" and "owner_map w i = Some c" and "up c"
    and "ec_remove up e d i w = Inr (r, w1)"
  shows "ec_get up e' c i (w1\<lparr>im := im'\<rparr>) = Inl Exit"
proof -
  have v: "ext_valid i" using contents_SomeD [OF assms(2)] by blast
  have up: "\<And>d. owner_map w i = Some d \<Longrightarrow> up d" using assms(3,4) by simp
  have w1: "ext_inv w1" "ext_fs w1 = (ext_fs w)(i := None)" "owner_map w1 = owner_map w"
    using ec_remove_ok [where up = up and e = e and c = d, OF assms(1,2) up] assms(5) by auto
  then have ok: "cell_ok (cell_of w1 i)" and own: "owner_map w1 i = Some c"
    using v assms(3) by (simp_all add: ext_inv_def)
  have "ext_fs w1 i = None" using w1(2) by simp
  then have gone: "files (im w1) (ucast i) = None" using v by (simp add: ext_fs_def contents_def)
  obtain a m where am: "data_map (clients w1 c) i = Some a" "metadata_map (clients w1 c) i = Some m"
    using cell_okD(2) [OF ok, of c] own by auto
  then have "dc_stat a \<noteq> OWN" using cell_okD(1) [OF ok, of c a] gone by auto
  then show ?thesis
    using am own v assms(4)
    by (auto simp: ec_get_def ec_getattr_def es_getattr_def es_get_def ec_sync_meta_handler_def
        ec_flush_handler_def ec_flush_def valid_id Let_def)
qed

theorem removed_extent_keeps_owner_witness:
  "\<exists>w1 w2. owner_map w1 1 = Some ''a'' \<and> ec_remove (\<lambda>_. True) env0 ''a'' 1 w1 = Inr (0, w2) \<and>
    ec_get (\<lambda>_. True) env0 ''a'' 1 (w2\<lparr>im := im w1\<rparr>) = Inl Exit"
proof -
  let ?up = "\<lambda>_ :: cid. True"
  obtain w where w: "ext_inv w" "ext_fs w = [1 \<mapsto> (1, [])]" "owner_map w = Map.empty" by (rule ext_boot)
  have f: "ext_fs w 1 = Some (1, [])" "ext_ready ?up ''a'' w 1" using w(2,3) by (simp_all add: ext_ready_def)
  obtain w1 where w1: "ext_inv w1" "ext_fs w1 = ext_fs w" "owner_map w1 1 = Some ''a''"
    using ec_get_ok [OF w(1) f, of env0] by blast
  have f1: "ext_fs w1 1 = Some (1, [])" using w1(2) f(1) by simp
  obtain w2 where w2: "ec_remove ?up env0 ''a'' 1 w1 = Inr (0, w2)"
    using ec_remove_ok [OF w1(1) f1, of ?up env0 "''a''"] by blast
  from removed_extent_keeps_owner [OF w1(1) f1 w1(3) TrueI w2, of env0 "im w1"] w1(3) w2
  show ?thesis by blast
qed

end
