(* ===== verification/Yfs_Dir.thy ===== *)
theory Yfs_Dir
  imports Yfs_Client
begin

text \<open>
  The directory format of \<open>yfs_client.cc\<close>: a directory is a row of 80-byte entries, and stands
  for the association list of its names and inode numbers. Appending an entry, searching for
  a name and rebuilding the row without an entry are the list operations.
\<close>

definition entry_pair :: "entry \<Rightarrow> byte list \<times> inum" where
  "entry_pair it = (take (unat (en_name_length it)) (en_name it), en_inum it)"

definition dir_list :: "byte list \<Rightarrow> (byte list \<times> inum) list" where
  "dir_list buf = map entry_pair (parse_dir buf)"

definition entries_ok :: "entry list \<Rightarrow> bool" where
  "entries_ok es \<longleftrightarrow> (\<forall>it \<in> set es. unat (en_name_length it) \<le> MAX_LENGTH)"

definition dir_ok :: "byte list \<Rightarrow> bool" where
  "dir_ok buf \<longleftrightarrow> ENTRY_BYTES dvd length buf \<and> entries_ok (parse_dir buf)"

lemma entry_name_eq: "unat (en_name_length it) \<le> MAX_LENGTH \<Longrightarrow> entry_name it = Inr (fst (entry_pair it))"
  by (simp add: entry_name_def entry_pair_def)

lemma entries_ok_Cons [simp]:
  "entries_ok [] = True"
  "entries_ok (it # es) = (unat (en_name_length it) \<le> MAX_LENGTH \<and> entries_ok es)"
  "entries_ok (es @ es') = (entries_ok es \<and> entries_ok es')"
  by (auto simp: entries_ok_def)

section \<open>Parsing\<close>

lemma parse_dir_Nil [simp]: "parse_dir [] = []"
  by (simp add: parse_dir_def)

lemma parse_dir_append:
  assumes "ENTRY_BYTES dvd length a"
  shows "parse_dir (a @ b) = parse_dir a @ parse_dir b"
proof -
  obtain k where k: "length a = ENTRY_BYTES * k" using assms by (rule dvdE)
  have len: "length (a @ b) div ENTRY_BYTES = k + length b div ENTRY_BYTES"
    using k by simp
  have left: "load_entry (bytes_at (i * ENTRY_BYTES) ENTRY_BYTES (a @ b))
      = load_entry (bytes_at (i * ENTRY_BYTES) ENTRY_BYTES a)" if "i < k" for i
  proof -
    have "i * ENTRY_BYTES + ENTRY_BYTES \<le> length a" using that k by (simp add: algebra_simps)
    then show ?thesis by (simp add: bytes_at_def)
  qed
  have right: "bytes_at ((i + k) * ENTRY_BYTES) ENTRY_BYTES (a @ b) = bytes_at (i * ENTRY_BYTES) ENTRY_BYTES b" for i
    using k by (simp add: bytes_at_def algebra_simps)
  have "[0..<k + length b div ENTRY_BYTES] = [0..<k] @ map (\<lambda>i. i + k) [0..<length b div ENTRY_BYTES]"
    by (simp only: upt_add_eq_append [OF le0] map_add_upt add.commute)
  then show ?thesis
    unfolding parse_dir_def len using k left right by simp
qed

lemma length_parse_dir: "length (parse_dir buf) = length buf div ENTRY_BYTES"
  by (simp add: parse_dir_def)

text \<open>An entry that is written is read back, whatever the stack held around it.\<close>

lemma make_entry_ok:
  assumes "length name \<le> MAX_LENGTH"
  obtains b it where "make_entry e i name = Inr b" "length b = ENTRY_BYTES" "parse_dir b = [it]"
    "entry_pair it = (name, i)" "unat (en_name_length it) \<le> MAX_LENGTH"
proof -
  let ?b1 = "memcpy 0 (le_enc 8 (unat i)) (local_buf e ENTRY_BYTES)"
  let ?b2 = "put_u32 72 (word_of_nat (length name)) ?b1"
  let ?b = "memcpy 8 name ?b2"
  let ?it = "load_entry ?b"
  have l1: "length ?b1 = 80" by (simp add: buf_simps)
  have l2: "length ?b2 = 80" using l1 by (simp add: buf_simps)
  have l: "length ?b = 80" using l2 assms by (simp add: buf_simps)
  have "bytes_at 0 8 ?b = bytes_at 0 8 ?b2"
    using l2 assms by (intro bytes_at_memcpy_other) simp_all
  also have "\<dots> = bytes_at 0 8 ?b1"
    unfolding put_u32_def using l1 by (intro bytes_at_memcpy_other) simp_all
  also have "\<dots> = le_enc 8 (unat i)" by (intro bytes_at_memcpy_same) simp_all
  finally have inum: "en_inum ?it = i" by (simp add: load_entry_def)
  have "get_u32 72 ?b = get_u32 72 ?b2"
    unfolding get_u32_def using l2 assms by (subst bytes_at_memcpy_other) simp_all
  also have "\<dots> = word_of_nat (length name)" using l1 by (simp add: buf_simps)
  finally have nl: "unat (en_name_length ?it) = length name"
    using assms by (simp add: load_entry_def unat_of_nat)
  have "take (length name) (bytes_at 8 MAX_LENGTH ?b) = bytes_at 8 (length name) ?b"
    using assms by (simp add: bytes_at_def min_def)
  also have "\<dots> = name" using l2 assms by (intro bytes_at_memcpy_same) simp_all
  finally have pair: "entry_pair ?it = (name, i)" using inum nl by (simp add: entry_pair_def) (simp add: load_entry_def)
  have "parse_dir ?b = [?it]" using l by (simp add: parse_dir_def bytes_at_def)
  then show thesis
    using that [of ?b ?it] l assms pair nl by (simp add: make_entry_def)
qed

section \<open>Searching\<close>

lemma find_entry_eq:
  "entries_ok es \<Longrightarrow> find_entry name es = Inr (map_of (map entry_pair es) name)"
  by (induction es) (auto simp: entry_name_eq, auto simp: entry_pair_def)

lemma dirents_eq: "entries_ok es \<Longrightarrow> dirents es = Inr (map entry_pair es)"
  by (induction es) (auto simp: entry_name_eq, auto simp: entry_pair_def)

text \<open>Removing the first entry of a name from an association list.\<close>

fun remove_first :: "'k \<Rightarrow> ('k \<times> 'v) list \<Rightarrow> ('k \<times> 'v) list" where
  "remove_first k [] = []"
| "remove_first k ((a, v) # ps) = (if a = k then ps else (a, v) # remove_first k ps)"

lemma map_of_remove_first:
  "distinct (map fst ps) \<Longrightarrow> map_of (remove_first k ps) = (map_of ps)(k := None)"
proof (induction ps)
  case (Cons p ps)
  then show ?case
    by (cases p) (auto simp: fun_eq_iff map_of_eq_None_iff)
qed auto

lemma remove_first_subset: "set (remove_first k ps) \<subseteq> set ps"
  by (induction k ps rule: remove_first.induct) auto

lemma distinct_remove_first: "distinct (map fst ps) \<Longrightarrow> distinct (map fst (remove_first k ps))"
proof (induction k ps rule: remove_first.induct)
  case (2 k a v ps)
  then show ?case using remove_first_subset [of k ps] by auto
qed simp

lemma split_entry_eq:
  assumes "entries_ok es"
  shows "case split_entry name es of
      Inl f \<Rightarrow> False
    | Inr None \<Rightarrow> map_of (map entry_pair es) name = None
    | Inr (Some (pre, it, post)) \<Rightarrow> es = pre @ it # post \<and>
        map_of (map entry_pair es) name = Some (en_inum it) \<and>
        map entry_pair (pre @ post) = remove_first name (map entry_pair es)"
  using assms
proof (induction es)
  case (Cons it es)
  obtain n i where p: "entry_pair it = (n, i)" "en_inum it = i" by (simp add: entry_pair_def)
  from Cons.prems have "entry_name it = Inr n" using p by (simp add: entry_name_eq)
  with Cons p show ?case
    by (cases "split_entry name es") (auto split: option.splits prod.splits)
qed simp

lemma rebuild_ok:
  assumes "entries_ok es"
  obtains b where "rebuild e es = Inr b" "ENTRY_BYTES dvd length b" "entries_ok (parse_dir b)"
    "dir_list b = map entry_pair es"
  using assms
proof (induction es arbitrary: thesis)
  case Nil
  then show ?case by (simp add: dir_list_def)
next
  case (Cons it es)
  from Cons.prems obtain b where b: "rebuild e es = Inr b" "ENTRY_BYTES dvd length b"
    "entries_ok (parse_dir b)" "dir_list b = map entry_pair es" using Cons.IH by auto
  let ?n = "fst (entry_pair it)"
  have "length ?n \<le> MAX_LENGTH" using Cons.prems(2) by (simp add: entry_pair_def min_le_iff_disj)
  then obtain a jt where a: "make_entry e (en_inum it) ?n = Inr a" "length a = ENTRY_BYTES"
    "parse_dir a = [jt]" "entry_pair jt = (?n, en_inum it)" "unat (en_name_length jt) \<le> MAX_LENGTH"
    by (rule make_entry_ok)
  have "entry_pair jt = entry_pair it" using a(4) by (simp add: entry_pair_def)
  then show ?case
    using Cons.prems a b parse_dir_append [of a b]
    by (intro Cons.prems(1) [of "a @ b"]) (simp_all add: entry_name_eq dir_list_def)
qed

text \<open>Appending an entry.\<close>

lemma append_entry:
  assumes "dir_ok buf" "length b = ENTRY_BYTES" "parse_dir b = [it]" "unat (en_name_length it) \<le> MAX_LENGTH"
  shows "dir_ok (buf @ b)" "dir_list (buf @ b) = dir_list buf @ [entry_pair it]"
  using assms parse_dir_append [of buf b] by (auto simp: dir_ok_def dir_list_def)

end
