(* ===== verification/Yfs_Correct.thy ===== *)
theory Yfs_Correct
  imports Yfs_Dir Extent_Correct
begin

text \<open>
  The file system operations over any extent service: each of them acts on the map of extents
  as the corresponding operation on directories and byte strings, and gives back the locks it
  takes, except where the code returns without doing so.
\<close>

section \<open>Byte strings\<close>

text \<open>
  The reference for \<open>write\<close>: the bytes from \<open>off\<close> on are replaced, a gap before them is filled
  with zeros.
\<close>

definition pwrite :: "nat \<Rightarrow> byte list \<Rightarrow> byte list \<Rightarrow> byte list" where
  "pwrite off data old =
     take off old @ replicate (off - length old) 0 @ data @ drop (off + length data) old"

definition resized :: "nat \<Rightarrow> byte list \<Rightarrow> byte list" where
  "resized n old = take n old @ replicate (n - length old) 0"

lemma length_pwrite: "length (pwrite off data old) = max (length old) (off + length data)"
  by (simp add: pwrite_def)

lemma pwrite_read: "take (length data) (drop off (pwrite off data old)) = data"
  by (simp add: pwrite_def)

lemma str_resize_eq: "n < 2 ^ 63 \<Longrightarrow> str_resize n buf = Inr (resized (unat n) buf)"
  by (simp add: str_resize_def resized_def min_def)

lemma str_replace_eq:
  "unat pos \<le> length buf \<Longrightarrow> length str = unat len \<Longrightarrow>
   str_replace pos len str buf = Inr (pwrite (unat pos) str buf)"
  by (simp add: str_replace_def pwrite_def)

lemma pwrite_resized:
  "length old \<le> off \<Longrightarrow> pwrite off data (resized (off + length data) old) = pwrite off data old"
  by (simp add: pwrite_def resized_def)

lemma pwrite_nth:
  assumes "i < max (length old) (off + length data)"
  shows "pwrite off data old ! i =
    (if off \<le> i \<and> i < off + length data then data ! (i - off)
     else if i < length old then old ! i else 0)"
proof (cases "length old \<le> off")
  case True
  with assms show ?thesis by (auto simp: pwrite_def nth_append)
next
  case False
  with assms show ?thesis by (auto simp: pwrite_def nth_append min_def)
qed

lemma unat_small_cast:
  fixes off :: u64
  assumes "off < 2 ^ 32"
  shows "unat (ucast off :: u32) = unat off"
proof -
  have "unat off < 2 ^ 32" using assms by (simp add: word_less_nat_alt)
  then show ?thesis by (simp add: unsigned_ucast_eq take_bit_nat_eq_self)
qed

lemma unat_plus_small:
  fixes a b :: u64
  assumes "unat a + unat b < 2 ^ 63"
  shows "unat (a + b) = unat a + unat b" "a + b < 2 ^ 63"
proof -
  show "unat (a + b) = unat a + unat b" using assms by (simp add: unat_word_ariths)
  then show "a + b < 2 ^ 63" using assms by (simp add: word_less_nat_alt)
qed

text \<open>The two branches of \<open>write\<close> are one \<open>pwrite\<close>.\<close>

lemma replace_or_grow:
  fixes off sz :: u64
  assumes "off < 2 ^ 32" "length data = unat sz" "unat sz + unat off < 2 ^ 63"
  shows "(if unat (ucast off :: u32) \<le> length buf
          then and_then (str_replace off sz data buf) (\<lambda>buf. Inr (buf, sz))
          else and_then (str_resize (sz + off) buf) (\<lambda>buf'.
               and_then (str_replace off sz data buf') (\<lambda>buf''.
                 Inr (buf'', sz + off - word_of_nat (length buf))))) =
     Inr (pwrite (unat off) data buf, if unat off \<le> length buf then sz else sz + off - word_of_nat (length buf))"
proof (cases "unat off \<le> length buf")
  case True
  then show ?thesis using assms(2) by (simp add: str_replace_eq unat_small_cast [OF assms(1)])
next
  case False
  let ?b = "resized (unat (sz + off)) buf"
  have b: "unat off \<le> length ?b" "pwrite (unat off) data ?b = pwrite (unat off) data buf"
    using False unat_plus_small [OF assms(3)] assms(2) pwrite_resized [of buf "unat off" data]
    by (simp_all add: resized_def add.commute)
  have "str_resize (sz + off) buf = Inr ?b" by (rule str_resize_eq [OF unat_plus_small(2) [OF assms(3)]])
  moreover have "str_replace off sz data ?b = Inr (pwrite (unat off) data buf)"
    using str_replace_eq [OF b(1) assms(2)] b(2) by simp
  ultimately show ?thesis using False by (simp add: unat_small_cast [OF assms(1)])
qed

section \<open>Sequencing\<close>

lemma ec_call_Inr: "f (ext s) = Inr (r, w) \<Longrightarrow> ec_call f s = Inr (r, s\<lparr>ext := w\<rparr>)"
  by (simp add: ec_call_def)

lemma lc_acquire_free: "i \<notin> held s \<Longrightarrow> lc_acquire i s = Inr (s\<lparr>held := insert i (held s)\<rparr>)"
  by (simp add: lc_acquire_def)

lemma lc_acquire_held: "i \<in> held s \<Longrightarrow> lc_acquire i s = Inl Blocked"
  by (simp add: lc_acquire_def)

lemma lc_release_acquired [simp]:
  "i \<notin> held s \<Longrightarrow> lc_release i (s\<lparr>held := insert i (held s), ext := w\<rparr>) = s\<lparr>ext := w\<rparr>"
  by (cases s) (simp add: lc_release_def)

lemma heap_clean_later [simp]: "heap_clean (later e) = heap_clean e"
  by (simp add: heap_clean_def later_def malloc_def)

section \<open>Over any extent service\<close>

context extent_service
begin

lemma get_call:
  assumes "inv (ext s)" "fs (ext s) i = Some (t, d)" "ready (ext s) i"
  obtains w where "ec_call (x_get x e i) s = Inr ((0, d), s\<lparr>ext := w\<rparr>)" "inv w" "fs w = fs (ext s)"
    "mine w i" "\<And>j. mine (ext s) j \<Longrightarrow> mine w j" "\<And>j. reach (ext s) j \<Longrightarrow> reach w j"
    "room (ext s) \<Longrightarrow> room w"
    "\<And>j. mine (ext s) i \<Longrightarrow> ready (ext s) j \<Longrightarrow> fs (ext s) j \<noteq> None \<Longrightarrow> ready w j"
  using get_law [OF assms, of e] by (auto simp: ec_call_def)

lemma getattr_call:
  assumes "inv (ext s)" "fs (ext s) i = Some (t, d)" "ready (ext s) i"
  obtains a w where "ec_call (x_getattr x e i a0) s = Inr ((0, a), s\<lparr>ext := w\<rparr>)" "a_type a = scast t"
    "inv w" "fs w = fs (ext s)" "\<And>j. mine (ext s) j \<Longrightarrow> mine w j"
    "\<And>j. reach (ext s) j \<Longrightarrow> reach w j" "room (ext s) \<Longrightarrow> room w"
    "\<And>j. ready (ext s) j \<Longrightarrow> ready w j"
  using getattr_law [OF assms, of e a0] by (auto simp: ec_call_def)

lemma put_call:
  assumes "inv (ext s)" "fs (ext s) i = Some (t, d)" "ready (ext s) i"
  obtains w where "ec_call (x_put x e i buf) s = Inr (0, s\<lparr>ext := w\<rparr>)" "inv w"
    "fs w = (fs (ext s))(i \<mapsto> (t, buf))" "mine w i" "\<And>j. mine (ext s) j \<Longrightarrow> mine w j"
    "room (ext s) \<Longrightarrow> room w"
    "\<And>j. mine (ext s) i \<Longrightarrow> ready (ext s) j \<Longrightarrow> fs (ext s) j \<noteq> None \<Longrightarrow> ready w j"
  using put_law [OF assms, of e buf] by (auto simp: ec_call_def)

lemma create_call:
  assumes "inv (ext s)" "room (ext s)" "heap_clean e" "(ucast type :: u16) \<noteq> 0"
  obtains i w where "ec_call (x_create x e type) s = Inr ((0, i), s\<lparr>ext := w\<rparr>)" "fs (ext s) i = None"
    "inv w" "fs w = (fs (ext s))(i \<mapsto> (ucast type, []))" "ready w i" "\<And>j. mine (ext s) j \<Longrightarrow> mine w j"
  using create_law [OF assms] by (auto simp: ec_call_def)

lemma remove_call:
  assumes "inv (ext s)" "fs (ext s) i = Some (t, d)" "reach (ext s) i"
  obtains w where "ec_call (x_remove x e i) s = Inr (0, s\<lparr>ext := w\<rparr>)" "inv w"
    "fs w = (fs (ext s))(i := None)" "\<And>j. mine (ext s) j \<Longrightarrow> mine w j"
  using remove_law [OF assms, of e] by (auto simp: ec_call_def)

lemma yfs_is_ok:
  assumes "inv (ext s)" "fs (ext s) i = Some (t, d)" "ready (ext s) i" "i \<notin> held s"
  shows "\<exists>w. yfs_is x e type i s = Inr (scast t = type, s\<lparr>ext := w\<rparr>) \<and> inv w \<and> fs w = fs (ext s) \<and>
    ready w i"
proof -
  let ?s = "s\<lparr>held := insert i (held s)\<rparr>"
  have pre: "inv (ext ?s)" "fs (ext ?s) i = Some (t, d)" "ready (ext ?s) i" using assms by simp_all
  from getattr_call [OF pre, of e "stack_attr e"] obtain a w where
    a: "ec_call (x_getattr x e i (stack_attr e)) ?s = Inr ((0, a), ?s\<lparr>ext := w\<rparr>)" "a_type a = scast t"
    "inv w" "fs w = fs (ext ?s)" "ready w i" using pre(3) by metis
  then show ?thesis
    using assms(4) by (intro exI [of _ w]) (simp add: yfs_is_def lc_acquire_free)
qed

lemma getfile_ok:
  assumes "inv (ext s)" "fs (ext s) i = Some (t, d)" "ready (ext s) i" "i \<notin> held s"
  shows "\<exists>info w. getfile x e i fin s = Inr ((0, info), s\<lparr>ext := w\<rparr>) \<and> inv w \<and> fs w = fs (ext s) \<and> ready w i"
proof -
  let ?s = "s\<lparr>held := insert i (held s)\<rparr>"
  have pre: "inv (ext ?s)" "fs (ext ?s) i = Some (t, d)" "ready (ext ?s) i" using assms by simp_all
  from getattr_call [OF pre, of e "stack_attr e"] obtain a w where
    "ec_call (x_getattr x e i (stack_attr e)) ?s = Inr ((0, a), ?s\<lparr>ext := w\<rparr>)"
    "inv w" "fs w = fs (ext ?s)" "ready w i" using pre(3) by metis
  then show ?thesis
    using assms(4) by (intro exI [of _ w] exI) (simp add: getfile_def lc_acquire_free)
qed

lemma getdir_ok:
  assumes "inv (ext s)" "fs (ext s) i = Some (t, d)" "ready (ext s) i" "i \<notin> held s"
  shows "\<exists>info w. getdir x e i din s = Inr ((0, info), s\<lparr>ext := w\<rparr>) \<and> inv w \<and> fs w = fs (ext s) \<and> ready w i"
proof -
  let ?s = "s\<lparr>held := insert i (held s)\<rparr>"
  have pre: "inv (ext ?s)" "fs (ext ?s) i = Some (t, d)" "ready (ext ?s) i" using assms by simp_all
  from getattr_call [OF pre, of e "stack_attr e"] obtain a w where
    "ec_call (x_getattr x e i (stack_attr e)) ?s = Inr ((0, a), ?s\<lparr>ext := w\<rparr>)"
    "inv w" "fs w = fs (ext ?s)" "ready w i" using pre(3) by metis
  then show ?thesis
    using assms(4) by (intro exI [of _ w] exI) (simp add: getdir_def lc_acquire_free)
qed

lemma readdir0_ok:
  assumes "inv (ext s)" "fs (ext s) p = Some (1, buf)" "ready (ext s) p"
  obtains w where "readdir0 x e p s = Inr ((0, parse_dir buf), s\<lparr>ext := w\<rparr>)" "inv w" "fs w = fs (ext s)"
    "mine w p" "\<And>j. mine (ext s) j \<Longrightarrow> mine w j" "\<And>j. reach (ext s) j \<Longrightarrow> reach w j"
    "room (ext s) \<Longrightarrow> room w"
proof -
  obtain w1 where g: "ec_call (x_get x e p) s = Inr ((0, buf), s\<lparr>ext := w1\<rparr>)" "inv w1"
    "fs w1 = fs (ext s)" "mine w1 p" "\<And>j. mine (ext s) j \<Longrightarrow> mine w1 j"
    "\<And>j. reach (ext s) j \<Longrightarrow> reach w1 j" "room (ext s) \<Longrightarrow> room w1"
    "\<And>j. mine (ext s) p \<Longrightarrow> ready (ext s) j \<Longrightarrow> fs (ext s) j \<noteq> None \<Longrightarrow> ready w1 j"
    by (rule get_call [OF assms, of e]) (rule that)
  let ?s = "s\<lparr>ext := w1\<rparr>"
  have pre: "inv (ext ?s)" "fs (ext ?s) p = Some (1, buf)" "ready (ext ?s) p"
    using g(2-4) assms(2) mine_ready by simp_all
  obtain a w2 where h: "ec_call (x_getattr x (later e) p (stack_attr e)) ?s = Inr ((0, a), ?s\<lparr>ext := w2\<rparr>)"
    "a_type a = scast (1 :: u16)" "inv w2" "fs w2 = fs (ext ?s)"
    "\<And>j. mine (ext ?s) j \<Longrightarrow> mine w2 j" "\<And>j. reach (ext ?s) j \<Longrightarrow> reach w2 j"
    "room (ext ?s) \<Longrightarrow> room w2"
    "\<And>j. ready (ext ?s) j \<Longrightarrow> ready w2 j"
    by (rule getattr_call [OF pre, of "later e" "stack_attr e"]) (rule that)
  have "readdir0 x e p s = Inr ((0, parse_dir buf), s\<lparr>ext := w2\<rparr>)"
    using g(1) h(1,2) by (simp add: readdir0_def)
  then show thesis using that [of w2] g(3-7) h(3-7) by simp
qed

lemma lookup0_ok:
  assumes "inv (ext s)" "fs (ext s) p = Some (1, buf)" "ready (ext s) p" "dir_ok buf"
  obtains w where "lookup0 x e p name s = Inr ((if map_of (dir_list buf) name = None then 0 else 4,
      map_of (dir_list buf) name), s\<lparr>ext := w\<rparr>)" "inv w" "fs w = fs (ext s)"
    "mine w p" "\<And>j. mine (ext s) j \<Longrightarrow> mine w j" "room (ext s) \<Longrightarrow> room w"
proof -
  obtain w where w: "readdir0 x e p s = Inr ((0, parse_dir buf), s\<lparr>ext := w\<rparr>)" "inv w"
    "fs w = fs (ext s)" "mine w p" "\<And>j. mine (ext s) j \<Longrightarrow> mine w j" "room (ext s) \<Longrightarrow> room w"
    using readdir0_ok [OF assms(1-3)] by metis
  have "find_entry name (parse_dir buf) = Inr (map_of (dir_list buf) name)"
    using assms(4) find_entry_eq by (simp add: dir_ok_def dir_list_def)
  then show thesis using that [of w] w by (simp add: lookup0_def)
qed

lemma lookup_ok:
  assumes "inv (ext s)" "fs (ext s) p = Some (1, buf)" "ready (ext s) p" "dir_ok buf" "p \<notin> held s"
  shows "\<exists>w. lookup x e p name s = Inr ((if map_of (dir_list buf) name = None then 0 else 4,
      map_of (dir_list buf) name), s\<lparr>ext := w\<rparr>) \<and> inv w \<and> fs w = fs (ext s)"
proof -
  let ?s = "s\<lparr>held := insert p (held s)\<rparr>"
  have pre: "inv (ext ?s)" "fs (ext ?s) p = Some (1, buf)" "ready (ext ?s) p" using assms by simp_all
  obtain w where "lookup0 x e p name ?s = Inr ((if map_of (dir_list buf) name = None then 0 else 4,
      map_of (dir_list buf) name), ?s\<lparr>ext := w\<rparr>)" "inv w" "fs w = fs (ext ?s)"
    using lookup0_ok [OF pre assms(4)] by metis
  then show ?thesis
    using assms(5) by (intro exI [of _ w]) (simp add: lookup_def lc_acquire_free)
qed

lemma readdir_ok:
  assumes "inv (ext s)" "fs (ext s) p = Some (1, buf)" "ready (ext s) p" "dir_ok buf" "p \<notin> held s"
  shows "\<exists>w. readdir x e p s = Inr ((0, dir_list buf), s\<lparr>ext := w\<rparr>) \<and> inv w \<and> fs w = fs (ext s)"
proof -
  let ?s = "s\<lparr>held := insert p (held s)\<rparr>"
  have pre: "inv (ext ?s)" "fs (ext ?s) p = Some (1, buf)" "ready (ext ?s) p" using assms by simp_all
  obtain w where "readdir0 x e p ?s = Inr ((0, parse_dir buf), ?s\<lparr>ext := w\<rparr>)" "inv w" "fs w = fs (ext ?s)"
    using readdir0_ok [OF pre] by metis
  then show ?thesis
    using assms(4,5) dirents_eq [of "parse_dir buf"]
    by (intro exI [of _ w]) (simp add: readdir_def lc_acquire_free dir_ok_def dir_list_def)
qed

text \<open>Adding a name to a directory: what \<open>create\<close>, \<open>mkdir\<close> and \<open>symlink\<close> share.\<close>

lemma add_entry_call:
  assumes "inv (ext s)" "fs (ext s) p = Some (1, buf)" "ready (ext s) p" "dir_ok buf"
    and "length name \<le> MAX_LENGTH"
  obtains str buf' w where "make_entry e0 i name = Inr str"
    "ec_call (x_put x e p (buf @ str)) s = Inr (0, s\<lparr>ext := w\<rparr>)" "inv w"
    "fs w = (fs (ext s))(p \<mapsto> (1, buf'))" "dir_ok buf'" "dir_list buf' = dir_list buf @ [(name, i)]"
    "mine w p" "\<And>j. mine (ext s) j \<Longrightarrow> mine w j"
    "\<And>j. mine (ext s) p \<Longrightarrow> ready (ext s) j \<Longrightarrow> fs (ext s) j \<noteq> None \<Longrightarrow> ready w j"
proof -
  obtain str it where str: "make_entry e0 i name = Inr str" "length str = ENTRY_BYTES" "parse_dir str = [it]"
    "entry_pair it = (name, i)" "unat (en_name_length it) \<le> MAX_LENGTH" using make_entry_ok [OF assms(5)] by metis
  obtain w where "ec_call (x_put x e p (buf @ str)) s = Inr (0, s\<lparr>ext := w\<rparr>)" "inv w"
    "fs w = (fs (ext s))(p \<mapsto> (1, buf @ str))" "mine w p" "\<And>j. mine (ext s) j \<Longrightarrow> mine w j"
    "\<And>j. mine (ext s) p \<Longrightarrow> ready (ext s) j \<Longrightarrow> fs (ext s) j \<noteq> None \<Longrightarrow> ready w j" using put_call [OF assms(1-3)] by metis
  then show thesis
    using that [of str w "buf @ str"] str append_entry [OF assms(4) str(2,3,5)] by simp
qed

lemma create_node_exists:
  assumes "inv (ext s)" "fs (ext s) p = Some (1, buf)" "ready (ext s) p" "dir_ok buf" "p \<notin> held s"
    and "map_of (dir_list buf) name = Some j"
  shows "\<exists>w. create_node x e type p name ino s = Inr ((4, ino), s\<lparr>ext := w\<rparr>) \<and> inv w \<and> fs w = fs (ext s)"
proof -
  let ?s = "s\<lparr>held := insert p (held s)\<rparr>"
  have pre: "inv (ext ?s)" "fs (ext ?s) p = Some (1, buf)" "ready (ext ?s) p" using assms by simp_all
  obtain w where "lookup0 x e p name ?s = Inr ((4, Some j), ?s\<lparr>ext := w\<rparr>)" "inv w" "fs w = fs (ext ?s)"
    using lookup0_ok [OF pre assms(4), of e name] assms(6) by simp metis
  then show ?thesis
    using assms(5) by (intro exI [of _ w]) (simp add: create_node_def lc_acquire_free)
qed

lemma create_node_ok:
  assumes "inv (ext s)" "fs (ext s) p = Some (1, buf)" "ready (ext s) p" "dir_ok buf" "p \<notin> held s"
    and "map_of (dir_list buf) name = None" "length name \<le> MAX_LENGTH"
    and "room (ext s)" "heap_clean e" "(ucast type :: u16) \<noteq> 0"
  obtains i w buf' where "create_node x e type p name ino s = Inr ((0, i), s\<lparr>ext := w\<rparr>)" "inv w"
    "fs (ext s) i = None" "fs w = (fs (ext s))(i \<mapsto> (ucast type, []), p \<mapsto> (1, buf'))"
    "dir_ok buf'" "dir_list buf' = dir_list buf @ [(name, i)]" "mine w p" "ready w i"
proof -
  let ?s = "s\<lparr>held := insert p (held s)\<rparr>"
  have pre: "inv (ext ?s)" "fs (ext ?s) p = Some (1, buf)" "ready (ext ?s) p" using assms by simp_all
  obtain w1 where l: "lookup0 x e p name ?s = Inr ((0, None), ?s\<lparr>ext := w1\<rparr>)" "inv w1"
    "fs w1 = fs (ext s)" "mine w1 p" "room w1"
    using lookup0_ok [OF pre assms(4), of e name] assms(6,8) by simp metis
  let ?s1 = "?s\<lparr>ext := w1\<rparr>"
  obtain i w2 where c: "ec_call (x_create x (later e) type) ?s1 = Inr ((0, i), ?s1\<lparr>ext := w2\<rparr>)"
    "fs w1 i = None" "inv w2" "fs w2 = (fs w1)(i \<mapsto> (ucast type, []))" "mine w2 p" "ready w2 i"
    using create_call [of ?s1 "later e" type] l assms(9,10) by simp metis
  let ?s2 = "?s1\<lparr>ext := w2\<rparr>"
  have "i \<noteq> p" using c(2) l(3) assms(2) by auto
  then have pre2: "inv (ext ?s2)" "fs (ext ?s2) p = Some (1, buf)" "ready (ext ?s2) p"
    using c l assms(2) mine_ready by simp_all
  obtain w3 where g: "ec_call (x_get x (later (later e)) p) ?s2 = Inr ((0, buf), ?s2\<lparr>ext := w3\<rparr>)"
    "inv w3" "fs w3 = fs (ext ?s2)" "mine w3 p" "ready w3 i"
    using get_call [OF pre2, of "later (later e)"] c(4-6) by simp metis
  let ?s3 = "?s2\<lparr>ext := w3\<rparr>"
  have pre3: "inv (ext ?s3)" "fs (ext ?s3) p = Some (1, buf)" "ready (ext ?s3) p"
    using g pre2 mine_ready by simp_all
  obtain str buf' w4 where a: "make_entry e i name = Inr str"
    "ec_call (x_put x (later (later (later e))) p (buf @ str)) ?s3 = Inr (0, ?s3\<lparr>ext := w4\<rparr>)" "inv w4"
    "fs w4 = (fs (ext ?s3))(p \<mapsto> (1, buf'))" "dir_ok buf'" "dir_list buf' = dir_list buf @ [(name, i)]"
    "mine w4 p" "ready w4 i"
    using add_entry_call [OF pre3 assms(4,7), of e i "later (later (later e))"] g(3-5) c(4) by simp metis
  have "create_node x e type p name ino s = Inr ((0, i), s\<lparr>ext := w4\<rparr>)"
    using l(1) c(1) g(1) a(1,2) assms(5) by (simp add: create_node_def lc_acquire_free)
  then show thesis using that [of i w4 buf'] a(3-8) g(3) c(2,4) l(3) by simp
qed

text \<open>A name that does not fit an entry is copied past the end of the field.\<close>

lemma create_node_long_name:
  assumes "inv (ext s)" "fs (ext s) p = Some (1, buf)" "ready (ext s) p" "dir_ok buf" "p \<notin> held s"
    and "map_of (dir_list buf) name = None" "MAX_LENGTH < length name"
    and "room (ext s)" "heap_clean e" "(ucast type :: u16) \<noteq> 0"
  shows "create_node x e type p name ino s = Inl Out_of_bounds"
proof -
  let ?s = "s\<lparr>held := insert p (held s)\<rparr>"
  have pre: "inv (ext ?s)" "fs (ext ?s) p = Some (1, buf)" "ready (ext ?s) p" using assms by simp_all
  obtain w1 where l: "lookup0 x e p name ?s = Inr ((0, None), ?s\<lparr>ext := w1\<rparr>)" "inv w1"
    "fs w1 = fs (ext s)" "mine w1 p" "room w1"
    using lookup0_ok [OF pre assms(4), of e name] assms(6,8) by simp metis
  let ?s1 = "?s\<lparr>ext := w1\<rparr>"
  obtain i w2 where c: "ec_call (x_create x (later e) type) ?s1 = Inr ((0, i), ?s1\<lparr>ext := w2\<rparr>)"
    "fs w1 i = None" "inv w2" "fs w2 = (fs w1)(i \<mapsto> (ucast type, []))" "mine w2 p"
    using create_call [of ?s1 "later e" type] l assms(9,10) by simp metis
  let ?s2 = "?s1\<lparr>ext := w2\<rparr>"
  have "i \<noteq> p" using c(2) l(3) assms(2) by auto
  then have pre2: "inv (ext ?s2)" "fs (ext ?s2) p = Some (1, buf)" "ready (ext ?s2) p"
    using c l assms(2) mine_ready by simp_all
  obtain w3 where g: "ec_call (x_get x (later (later e)) p) ?s2 = Inr ((0, buf), ?s2\<lparr>ext := w3\<rparr>)"
    using get_call [OF pre2] by metis
  then show ?thesis
    using l(1) c(1) assms(5,7) by (simp add: create_node_def lc_acquire_free make_entry_def)
qed

lemma symlink_ok:
  assumes "inv (ext s)" "fs (ext s) p = Some (1, buf)" "ready (ext s) p" "dir_ok buf" "p \<notin> held s"
    and "map_of (dir_list buf) name = None" "length name \<le> MAX_LENGTH"
    and "room (ext s)" "heap_clean e"
  obtains i w buf' where "symlink x e p name link ino s = Inr ((0, i), s\<lparr>ext := w\<rparr>)" "inv w"
    "fs (ext s) i = None" "fs w = (fs (ext s))(i \<mapsto> (3, link), p \<mapsto> (1, buf'))"
    "dir_ok buf'" "dir_list buf' = dir_list buf @ [(name, i)]" "ready w i"
proof -
  let ?s = "s\<lparr>held := insert p (held s)\<rparr>"
  have pre: "inv (ext ?s)" "fs (ext ?s) p = Some (1, buf)" "ready (ext ?s) p" using assms by simp_all
  obtain w0 where g: "ec_call (x_get x e p) ?s = Inr ((0, buf), ?s\<lparr>ext := w0\<rparr>)" "inv w0"
    "fs w0 = fs (ext s)" "mine w0 p" "room w0" using get_call [OF pre, of e] assms(8) by simp metis
  let ?s0 = "?s\<lparr>ext := w0\<rparr>"
  have pre0: "inv (ext ?s0)" "fs (ext ?s0) p = Some (1, buf)" "ready (ext ?s0) p"
    using g assms(2) mine_ready by simp_all
  obtain w1 where l: "lookup0 x (later e) p name ?s0 = Inr ((0, None), ?s0\<lparr>ext := w1\<rparr>)" "inv w1"
    "fs w1 = fs (ext s)" "mine w1 p" "room w1"
    using lookup0_ok [OF pre0 assms(4), of "later e" name] assms(6) g(3,5) by simp metis
  let ?s1 = "?s0\<lparr>ext := w1\<rparr>"
  obtain i w2 where c: "ec_call (x_create x (later (later e)) T_SYMLINK) ?s1 = Inr ((0, i), ?s1\<lparr>ext := w2\<rparr>)"
    "fs w1 i = None" "inv w2" "fs w2 = (fs w1)(i \<mapsto> (3, []))" "ready w2 i" "mine w2 p"
    using create_call [of ?s1 "later (later e)" T_SYMLINK] l assms(9) by simp metis
  let ?s2 = "?s1\<lparr>ext := w2\<rparr>"
  have ne: "i \<noteq> p" using c(2) l(3) assms(2) by auto
  have pre2: "inv (ext ?s2)" "fs (ext ?s2) i = Some (3, [])" "ready (ext ?s2) i"
    using c(3-5) by simp_all
  obtain w3 where q: "ec_call (x_put x (later (later (later e))) i link) ?s2 = Inr (0, ?s2\<lparr>ext := w3\<rparr>)"
    "inv w3" "fs w3 = (fs w2)(i \<mapsto> (3, link))" "mine w3 p" "mine w3 i"
    using put_call [OF pre2, of "later (later (later e))" link] c(6) by simp metis
  let ?s3 = "?s2\<lparr>ext := w3\<rparr>"
  have pre3: "inv (ext ?s3)" "fs (ext ?s3) p = Some (1, buf)" "ready (ext ?s3) p"
    using q c(4) l(3) assms(2) ne mine_ready by simp_all
  obtain str buf' w4 where a: "make_entry e i name = Inr str"
    "ec_call (x_put x (later (later (later (later e)))) p (buf @ str)) ?s3 = Inr (0, ?s3\<lparr>ext := w4\<rparr>)" "inv w4"
    "fs w4 = (fs (ext ?s3))(p \<mapsto> (1, buf'))" "dir_ok buf'" "dir_list buf' = dir_list buf @ [(name, i)]"
    "mine w4 i" using add_entry_call [OF pre3 assms(4,7), of e i "later (later (later (later e)))"] q(5) by simp metis
  have "symlink x e p name link ino s = Inr ((0, i), s\<lparr>ext := w4\<rparr>)"
    using g(1) l(1) c(1) q(1) a(1,2) assms(5) by (simp add: symlink_def lc_acquire_free)
  then show thesis using that [of i w4 buf'] a(3-6) mine_ready [OF a(3,7)] q(3) c(2,4) l(3) by simp
qed

text \<open>Removing a name: the extent goes, and the first entry of that name with it.\<close>

lemma unlink_ok:
  assumes "inv (ext s)" "fs (ext s) p = Some (1, buf)" "ready (ext s) p" "dir_ok buf" "p \<notin> held s"
    and "map_of (dir_list buf) name = Some i" "fs (ext s) i = Some (t, d)" "reach (ext s) i" "i \<noteq> p"
  obtains w buf' where "unlink x e p name s = Inr (0, s\<lparr>ext := w\<rparr>)" "inv w"
    "fs w = (fs (ext s))(i := None, p \<mapsto> (1, buf'))"
    "dir_ok buf'" "dir_list buf' = remove_first name (dir_list buf)"
proof -
  let ?s = "s\<lparr>held := insert p (held s)\<rparr>"
  have pre: "inv (ext ?s)" "fs (ext ?s) p = Some (1, buf)" "ready (ext ?s) p" using assms by simp_all
  obtain w1 where l: "readdir0 x e p ?s = Inr ((0, parse_dir buf), ?s\<lparr>ext := w1\<rparr>)" "inv w1"
    "fs w1 = fs (ext s)" "mine w1 p" "reach w1 i"
    using readdir0_ok [OF pre, of e] assms(8) by simp metis
  let ?s1 = "?s\<lparr>ext := w1\<rparr>"
  have pre1: "inv (ext ?s1)" "fs (ext ?s1) i = Some (t, d)" "reach (ext ?s1) i"
    using l assms(7) by simp_all
  obtain w2 where r: "ec_call (x_remove x (later (later e)) i) ?s1 = Inr (0, ?s1\<lparr>ext := w2\<rparr>)"
    "inv w2" "fs w2 = (fs w1)(i := None)" "mine w2 p"
    using remove_call [OF pre1, of "later (later e)"] l(4) by simp metis
  let ?s2 = "?s1\<lparr>ext := w2\<rparr>"
  have ok: "entries_ok (parse_dir buf)" using assms(4) by (simp add: dir_ok_def)
  obtain pr it post where sp: "split_entry name (parse_dir buf) = Inr (Some (pr, it, post))"
    "parse_dir buf = pr @ it # post" "en_inum it = i"
    "map entry_pair (pr @ post) = remove_first name (dir_list buf)"
    using split_entry_eq [OF ok, of name] assms(6)
    by (auto simp: dir_list_def split: sum.splits option.splits prod.splits)
  have ok2: "entries_ok (pr @ post)" using ok sp(2) by simp
  obtain b where b: "rebuild e (pr @ post) = Inr b" "ENTRY_BYTES dvd length b" "entries_ok (parse_dir b)"
    "dir_list b = map entry_pair (pr @ post)" using rebuild_ok [OF ok2] by metis
  have pre2: "inv (ext ?s2)" "fs (ext ?s2) p = Some (1, buf)" "ready (ext ?s2) p"
    using r l(3) assms(2,9) mine_ready by simp_all
  obtain w3 where q: "ec_call (x_put x (later (later (later e))) p b) ?s2 = Inr (0, ?s2\<lparr>ext := w3\<rparr>)"
    "inv w3" "fs w3 = (fs w2)(p \<mapsto> (1, b))"
    using put_call [OF pre2, of "later (later (later e))" b] by simp metis
  have "unlink x e p name s = Inr (0, s\<lparr>ext := w3\<rparr>)"
    using l(1) r(1) sp(1,3) b(1) q(1) assms(5) by (simp add: unlink_def lc_acquire_free)
  then show thesis using that [of w3 b] q(2,3) r(3) l(3) b(2-4) sp(4) by (simp add: dir_ok_def)
qed

lemma unlink_missing:
  assumes "inv (ext s)" "fs (ext s) p = Some (1, buf)" "ready (ext s) p" "dir_ok buf" "p \<notin> held s"
    and "map_of (dir_list buf) name = None"
  shows "\<exists>w. unlink x e p name s = Inr (2, s\<lparr>ext := w\<rparr>) \<and> inv w \<and> fs w = fs (ext s)"
proof -
  let ?s = "s\<lparr>held := insert p (held s)\<rparr>"
  have pre: "inv (ext ?s)" "fs (ext ?s) p = Some (1, buf)" "ready (ext ?s) p" using assms by simp_all
  obtain w where l: "readdir0 x e p ?s = Inr ((0, parse_dir buf), ?s\<lparr>ext := w\<rparr>)" "inv w"
    "fs w = fs (ext s)" using readdir0_ok [OF pre, of e] by simp metis
  have ok: "entries_ok (parse_dir buf)" using assms(4) by (simp add: dir_ok_def)
  have "split_entry name (parse_dir buf) = Inr None"
    using split_entry_eq [OF ok, of name] assms(6)
    by (auto simp: dir_list_def split: sum.splits option.splits prod.splits)
  with l assms(5) show ?thesis
    by (intro exI [of _ w]) (simp add: unlink_def lc_acquire_free)
qed

text \<open>File contents.\<close>

lemma read_ok:
  assumes "inv (ext s)" "fs (ext s) i = Some (t, buf)" "ready (ext s) i" "i \<notin> held s"
    and "off < 2 ^ 32" "unat off < length buf"
  shows "\<exists>w. read x e i sz off data s = Inr ((0, take (unat sz) (drop (unat off) buf)), s\<lparr>ext := w\<rparr>) \<and>
    inv w \<and> fs w = fs (ext s)"
proof -
  let ?s = "s\<lparr>held := insert i (held s)\<rparr>"
  have pre: "inv (ext ?s)" "fs (ext ?s) i = Some (t, buf)" "ready (ext ?s) i" using assms by simp_all
  obtain w where "ec_call (x_get x e i) ?s = Inr ((0, buf), ?s\<lparr>ext := w\<rparr>)" "inv w" "fs w = fs (ext s)"
    using get_call [OF pre, of e] by simp metis
  then show ?thesis
    using assms(4,6) unat_small_cast [OF assms(5)]
    by (intro exI [of _ w]) (simp add: read_def lc_acquire_free)
qed

lemma read_past_end:
  assumes "inv (ext s)" "fs (ext s) i = Some (t, buf)" "ready (ext s) i" "i \<notin> held s"
    and "length buf \<le> unat (ucast off :: u32)"
  shows "\<exists>w. read x e i sz off data s = Inr ((0, []), s\<lparr>held := insert i (held s), ext := w\<rparr>) \<and>
    inv w \<and> fs w = fs (ext s)"
proof -
  let ?s = "s\<lparr>held := insert i (held s)\<rparr>"
  have pre: "inv (ext ?s)" "fs (ext ?s) i = Some (t, buf)" "ready (ext ?s) i" using assms by simp_all
  obtain w where "ec_call (x_get x e i) ?s = Inr ((0, buf), ?s\<lparr>ext := w\<rparr>)" "inv w" "fs w = fs (ext s)"
    using get_call [OF pre, of e] by simp metis
  then show ?thesis
    using assms(4,5) by (intro exI [of _ w]) (simp add: read_def lc_acquire_free)
qed

lemma write_ok:
  assumes "inv (ext s)" "fs (ext s) i = Some (t, buf)" "ready (ext s) i" "i \<notin> held s"
    and "off < 2 ^ 32" "length data = unat sz" "unat sz + unat off < 2 ^ 63"
  shows "\<exists>w. yfs_write x e i sz off data s =
      Inr ((0, if unat off \<le> length buf then sz else sz + off - word_of_nat (length buf)), s\<lparr>ext := w\<rparr>) \<and>
    inv w \<and> fs w = (fs (ext s))(i \<mapsto> (t, pwrite (unat off) data buf))"
proof -
  let ?s = "s\<lparr>held := insert i (held s)\<rparr>"
  have pre: "inv (ext ?s)" "fs (ext ?s) i = Some (t, buf)" "ready (ext ?s) i" using assms by simp_all
  obtain w1 where g: "ec_call (x_get x e i) ?s = Inr ((0, buf), ?s\<lparr>ext := w1\<rparr>)" "inv w1"
    "fs w1 = fs (ext s)" "mine w1 i" using get_call [OF pre, of e] by simp metis
  let ?s1 = "?s\<lparr>ext := w1\<rparr>"
  have pre1: "inv (ext ?s1)" "fs (ext ?s1) i = Some (t, buf)" "ready (ext ?s1) i"
    using g assms(2) mine_ready by simp_all
  obtain w2 where "ec_call (x_put x (later e) i (pwrite (unat off) data buf)) ?s1 = Inr (0, ?s1\<lparr>ext := w2\<rparr>)"
    "inv w2" "fs w2 = (fs w1)(i \<mapsto> (t, pwrite (unat off) data buf))"
    using put_call [OF pre1, of "later e" "pwrite (unat off) data buf"] by simp metis
  then show ?thesis
    using g(1,3) assms(4,6) replace_or_grow [OF assms(5-7), of buf]
    by (intro exI [of _ w2]) (simp add: yfs_write_def lc_acquire_free)
qed

lemma setattr_ok:
  assumes "inv (ext s)" "fs (ext s) i = Some (t, buf)" "ready (ext s) i" "i \<notin> held s" "sz < 2 ^ 63"
  shows "\<exists>w. setattr x e i sz s = Inr (0, s\<lparr>ext := w\<rparr>) \<and> inv w \<and>
    fs w = (fs (ext s))(i \<mapsto> (t, resized (unat sz) buf))"
proof -
  let ?s = "s\<lparr>held := insert i (held s)\<rparr>"
  have pre: "inv (ext ?s)" "fs (ext ?s) i = Some (t, buf)" "ready (ext ?s) i" using assms by simp_all
  obtain w1 where g: "ec_call (x_get x e i) ?s = Inr ((0, buf), ?s\<lparr>ext := w1\<rparr>)" "inv w1"
    "fs w1 = fs (ext s)" "mine w1 i" using get_call [OF pre, of e] by simp metis
  let ?s1 = "?s\<lparr>ext := w1\<rparr>"
  have pre1: "inv (ext ?s1)" "fs (ext ?s1) i = Some (t, buf)" "ready (ext ?s1) i"
    using g assms(2) mine_ready by simp_all
  obtain w2 where "ec_call (x_put x (later e) i (resized (unat sz) buf)) ?s1 = Inr (0, ?s1\<lparr>ext := w2\<rparr>)"
    "inv w2" "fs w2 = (fs w1)(i \<mapsto> (t, resized (unat sz) buf))"
    using put_call [OF pre1, of "later e" "resized (unat sz) buf"] by simp metis
  then show ?thesis
    using g(1,3) assms(4) str_resize_eq [OF assms(5), of buf]
    by (intro exI [of _ w2]) (simp add: setattr_def lc_acquire_free)
qed

lemma readlink_ok:
  assumes "inv (ext s)" "fs (ext s) i = Some (t, buf)" "ready (ext s) i" "i \<notin> held s"
  shows "\<exists>w. readlink x e i s = Inr ((0, buf), s\<lparr>ext := w\<rparr>) \<and> inv w \<and> fs w = fs (ext s)"
proof -
  let ?s = "s\<lparr>held := insert i (held s)\<rparr>"
  have pre: "inv (ext ?s)" "fs (ext ?s) i = Some (t, buf)" "ready (ext ?s) i" using assms by simp_all
  obtain w where "ec_call (x_get x e i) ?s = Inr ((0, buf), ?s\<lparr>ext := w\<rparr>)" "inv w" "fs w = fs (ext s)"
    using get_call [OF pre, of e] by simp metis
  then show ?thesis using assms(4) by (intro exI [of _ w]) (simp add: readlink_def lc_acquire_free)
qed

text \<open>The constructor.\<close>

lemma yfs_new_ok:
  assumes "inv w" "fs w 1 = Some (t, buf)" "ready w 1"
  shows "\<exists>w'. yfs_new x e w = Inr \<lparr>held = {}, ext = w'\<rparr> \<and> inv w' \<and> fs w' = (fs w)(1 \<mapsto> (t, [])) \<and>
    mine w' 1 \<and> (room w \<longrightarrow> room w')"
proof -
  let ?s = "\<lparr>held = {1}, ext = w\<rparr>"
  have pre: "inv (ext ?s)" "fs (ext ?s) 1 = Some (t, buf)" "ready (ext ?s) 1" using assms by simp_all
  obtain w' where "ec_call (x_put x e 1 []) ?s = Inr (0, ?s\<lparr>ext := w'\<rparr>)" "inv w'"
    "fs w' = (fs w)(1 \<mapsto> (t, []))" "mine w' 1" "room w \<longrightarrow> room w'"
    using put_call [OF pre, of e "[]"] by simp metis
  then show ?thesis by (intro exI [of _ w']) (simp add: yfs_new_def lc_acquire_def lc_release_def)
qed

text \<open>
  The comparison with the size of the file looks at the low 32 bits of the offset only, the
  replacement at all of it.
\<close>

lemma write_far:
  assumes "inv (ext s)" "fs (ext s) i = Some (t, buf)" "ready (ext s) i" "i \<notin> held s"
    and "unat (ucast off :: u32) \<le> length buf" "length buf < unat off" "length data = unat sz"
  shows "yfs_write x e i sz off data s = Inl Thrown"
proof -
  let ?s = "s\<lparr>held := insert i (held s)\<rparr>"
  have pre: "inv (ext ?s)" "fs (ext ?s) i = Some (t, buf)" "ready (ext ?s) i" using assms by simp_all
  obtain w where "ec_call (x_get x e i) ?s = Inr ((0, buf), ?s\<lparr>ext := w\<rparr>)"
    using get_call [OF pre, of e] by simp metis
  then show ?thesis
    using assms(4-7) by (simp add: yfs_write_def lc_acquire_free str_replace_def)
qed

end

end
