(* ===== verification/Yfs_Tree.thy ===== *)
theory Yfs_Tree
  imports Yfs_Correct
begin

text \<open>
  The abstract file system that \<open>yfs_client.cc\<close> implements: inode numbers mapped to
  directories, which list names, and to leaves, which hold bytes. The operations are labelled
  with what they return. \<open>tree_ok\<close> is the shape a file system has: names are unique in a
  directory, every entry leads to a node, no node has two entries, the root has none.
\<close>

datatype node = Dir "(byte list \<times> inum) list" | Leaf u16 "byte list"

type_synonym tree = "inum \<rightharpoonup> node"

datatype yfs_op =
  F_create u32 inum "byte list" inum
| F_symlink inum "byte list" "byte list" inum
| F_exist inum "byte list"
| F_lookup inum "byte list" "inum option"
| F_readdir inum "(byte list \<times> inum) list"
| F_unlink inum "byte list"
| F_noent inum "byte list"
| F_read inum nat nat "byte list"
| F_write inum nat "byte list"
| F_setattr inum nat
| F_readlink inum "byte list"

section \<open>From extents to nodes\<close>

definition node_of :: "u16 \<times> byte list \<Rightarrow> node" where
  "node_of td = (if fst td = 1 then Dir (dir_list (snd td)) else Leaf (fst td) (snd td))"

definition view :: "(extentid_t \<rightharpoonup> (u16 \<times> byte list)) \<Rightarrow> tree" where
  "view m i = map_option node_of (m i)"

definition fs_ok :: "(extentid_t \<rightharpoonup> (u16 \<times> byte list)) \<Rightarrow> bool" where
  "fs_ok m \<longleftrightarrow> (\<forall>i d. m i = Some (1, d) \<longrightarrow> dir_ok d)"

lemma node_of_simps [simp]:
  "node_of (1, d) = Dir (dir_list d)" "t \<noteq> 1 \<Longrightarrow> node_of (t, d) = Leaf t d"
  by (simp_all add: node_of_def)

lemma view_upd [simp]:
  "view (m(i \<mapsto> td)) = (view m)(i \<mapsto> node_of td)" "view (m(i := None)) = (view m)(i := None)"
  by (simp_all add: view_def fun_eq_iff)

lemma view_Some: "m i = Some td \<Longrightarrow> view m i = Some (node_of td)"
  by (simp add: view_def)

lemma view_None [simp]: "view m i = None \<longleftrightarrow> m i = None"
  by (simp add: view_def)

lemma dir_Nil [simp]: "dir_ok []" "dir_list [] = []"
  by (simp_all add: dir_ok_def dir_list_def)

lemma fs_ok_upd:
  "fs_ok m \<Longrightarrow> (t = 1 \<Longrightarrow> dir_ok d) \<Longrightarrow> fs_ok (m(i \<mapsto> (t, d)))"
  "fs_ok m \<Longrightarrow> fs_ok (m(i := None))"
  by (auto simp: fs_ok_def)

section \<open>Abstract operations\<close>

fun add_name :: "inum \<Rightarrow> byte list \<Rightarrow> inum \<Rightarrow> node \<Rightarrow> tree \<Rightarrow> tree option" where
  "add_name p n i x m =
     (case m p of
        Some (Dir es) \<Rightarrow>
          if m i = None \<and> map_of es n = None then Some (m(i \<mapsto> x, p \<mapsto> Dir (es @ [(n, i)]))) else None
      | _ \<Rightarrow> None)"

fun on_leaf :: "inum \<Rightarrow> (byte list \<Rightarrow> byte list option) \<Rightarrow> tree \<Rightarrow> tree option" where
  "on_leaf i f m =
     (case m i of
        Some (Leaf t b) \<Rightarrow> map_option (\<lambda>b'. m(i \<mapsto> Leaf t b')) (f b)
      | _ \<Rightarrow> None)"

definition check :: "'a \<Rightarrow> bool \<Rightarrow> 'a option" where
  "check x b = (if b then Some x else None)"

definition in_dir :: "inum \<Rightarrow> ((byte list \<times> inum) list \<Rightarrow> tree option) \<Rightarrow> tree \<Rightarrow> tree option" where
  "in_dir p f m = (case m p of Some (Dir es) \<Rightarrow> f es | _ \<Rightarrow> None)"

fun yfs_apply :: "yfs_op \<Rightarrow> tree \<Rightarrow> tree option" where
  "yfs_apply (F_create type p n i) m = add_name p n i (node_of (ucast type, [])) m"
| "yfs_apply (F_symlink p n link i) m = add_name p n i (Leaf 3 link) m"
| "yfs_apply (F_exist p n) m = in_dir p (\<lambda>es. check m (map_of es n \<noteq> None)) m"
| "yfs_apply (F_lookup p n r) m = in_dir p (\<lambda>es. check m (map_of es n = r)) m"
| "yfs_apply (F_readdir p ds) m = in_dir p (\<lambda>es. check m (es = ds)) m"
| "yfs_apply (F_unlink p n) m =
     in_dir p (\<lambda>es. case map_of es n of
         Some i \<Rightarrow> Some (m(i := None, p \<mapsto> Dir (remove_first n es))) | None \<Rightarrow> None) m"
| "yfs_apply (F_noent p n) m = in_dir p (\<lambda>es. check m (map_of es n = None)) m"
| "yfs_apply (F_read i sz off b) m = on_leaf i (\<lambda>d. check d (b = take sz (drop off d))) m"
| "yfs_apply (F_write i off b) m = on_leaf i (\<lambda>d. Some (pwrite off b d)) m"
| "yfs_apply (F_setattr i n) m = on_leaf i (\<lambda>d. Some (resized n d)) m"
| "yfs_apply (F_readlink i b) m = on_leaf i (\<lambda>d. check d (d = b)) m"

fun yfs_apply_all :: "yfs_op list \<Rightarrow> tree \<Rightarrow> tree option" where
  "yfs_apply_all [] m = Some m"
| "yfs_apply_all (op # ops) m = Option.bind (yfs_apply op m) (yfs_apply_all ops)"

section \<open>The shape of the tree\<close>

definition edge :: "tree \<Rightarrow> inum \<Rightarrow> byte list \<Rightarrow> inum \<Rightarrow> bool" where
  "edge m p n i \<longleftrightarrow> (\<exists>es. m p = Some (Dir es) \<and> (n, i) \<in> set es)"

definition tree_ok :: "tree \<Rightarrow> bool" where
  "tree_ok m \<longleftrightarrow>
     (\<exists>es. m 1 = Some (Dir es)) \<and>
     (\<forall>p es. m p = Some (Dir es) \<longrightarrow> distinct (map fst es)) \<and>
     (\<forall>p n i. edge m p n i \<longrightarrow> m i \<noteq> None \<and> i \<noteq> p \<and> i \<noteq> 1) \<and>
     (\<forall>p n q k i. edge m p n i \<longrightarrow> edge m q k i \<longrightarrow> p = q \<and> n = k)"

lemma tree_okD:
  assumes "tree_ok m"
  shows "\<exists>es. m 1 = Some (Dir es)" "m p = Some (Dir es) \<Longrightarrow> distinct (map fst es)"
    "edge m p n i \<Longrightarrow> m i \<noteq> None \<and> i \<noteq> p \<and> i \<noteq> 1" "edge m p n i \<Longrightarrow> edge m q k i \<Longrightarrow> p = q \<and> n = k"
  using assms unfolding tree_ok_def by blast+

lemma edge_upd:
  "edge (m(i \<mapsto> x)) p n j \<longleftrightarrow> (if p = i then \<exists>es. x = Dir es \<and> (n, j) \<in> set es else edge m p n j)"
  "edge (m(i := None)) p n j \<longleftrightarrow> p \<noteq> i \<and> edge m p n j"
  by (auto simp: edge_def)

lemma edge_dir: "m p = Some (Dir es) \<Longrightarrow> edge m p n i \<longleftrightarrow> (n, i) \<in> set es"
  by (simp add: edge_def)

lemma tree_ok_add:
  assumes "tree_ok m" "add_name p n i x m = Some m'" "x = Dir [] \<or> (\<exists>t b. x = Leaf t b)"
  shows "tree_ok m'"
proof -
  from assms(2) obtain es where es: "m p = Some (Dir es)" "m i = None" "map_of es n = None"
    and m': "m' = m(i \<mapsto> x, p \<mapsto> Dir (es @ [(n, i)]))"
    by (auto split: option.splits node.splits if_splits)
  have ip: "i \<noteq> p" using es by auto
  have i1: "i \<noteq> 1" using tree_okD(1) [OF assms(1)] es(2) by auto
  have fresh: "\<not> edge m q k i" for q k using tree_okD(3) [OF assms(1), of q k i] es(2) by auto
  have e: "edge m' q k j \<longleftrightarrow> q = p \<and> k = n \<and> j = i \<or> edge m q k j" for q k j
    using assms(3) ip es(1,2) unfolding m' by (auto simp: edge_upd edge_def)
  have "\<exists>es. m' 1 = Some (Dir es)" using tree_okD(1) [OF assms(1)] i1 m' by auto
  moreover have "distinct (map fst fs)" if "m' q = Some (Dir fs)" for q fs
    using that assms(3) tree_okD(2) [OF assms(1)] es(1,3) ip unfolding m'
    by (auto simp: map_of_eq_None_iff split: if_splits)
  moreover have "m' j \<noteq> None \<and> j \<noteq> q \<and> j \<noteq> 1" if "edge m' q k j" for q k j
    using that e tree_okD(3) [OF assms(1), of q k j] ip i1 m' by auto
  moreover have "q = r \<and> k = l" if "edge m' q k j" "edge m' r l j" for q k r l j
    using that e fresh tree_okD(4) [OF assms(1), of q k j r l] by auto
  ultimately show ?thesis unfolding tree_ok_def by blast
qed

lemma tree_ok_unlink:
  assumes "tree_ok m" "m p = Some (Dir es)" "map_of es n = Some i"
  shows "tree_ok (m(i := None, p \<mapsto> Dir (remove_first n es)))" (is "tree_ok ?m")
proof -
  have d: "distinct (map fst es)" by (rule tree_okD(2) [OF assms(1,2)])
  have ei: "edge m p n i" using assms(2,3) by (auto simp: edge_def dest: map_of_SomeD)
  then have i: "i \<noteq> p" "i \<noteq> 1" using tree_okD(3) [OF assms(1)] by auto
  have sub: "edge m q k j" "j \<noteq> i" if "edge ?m q k j" for q k j
  proof -
    show g: "edge m q k j"
      using that remove_first_subset [of n es] assms(2) by (auto simp: edge_upd edge_def split: if_splits)
    show "j \<noteq> i"
    proof
      assume "j = i"
      then have "q = p" "k = n" using tree_okD(4) [OF assms(1) g] ei by auto
      then have "(n, j) \<in> set (remove_first n es)" using that by (simp add: edge_upd)
      then have "map_of (remove_first n es) n \<noteq> None" using weak_map_of_SomeI by fastforce
      then show False using map_of_remove_first [OF d, of n] by simp
    qed
  qed
  have "\<exists>es. ?m 1 = Some (Dir es)" using tree_okD(1) [OF assms(1)] i(2) by auto
  moreover have "distinct (map fst fs)" if "?m q = Some (Dir fs)" for q fs
    using that tree_okD(2) [OF assms(1)] distinct_remove_first [OF d] by (auto split: if_splits)
  moreover have "?m j \<noteq> None \<and> j \<noteq> q \<and> j \<noteq> 1" if "edge ?m q k j" for q k j
    using sub [OF that] tree_okD(3) [OF assms(1), of q k j] by auto
  moreover have "q = r \<and> k = l" if "edge ?m q k j" "edge ?m r l j" for q k r l j
    using sub(1) [OF that(1)] sub(1) [OF that(2)] tree_okD(4) [OF assms(1)] by blast
  ultimately show ?thesis unfolding tree_ok_def by blast
qed

lemma tree_ok_leaf:
  assumes "tree_ok m" "on_leaf i f m = Some m'"
  shows "tree_ok m'"
proof -
  from assms(2) obtain t b b' where l: "m i = Some (Leaf t b)" "m' = m(i \<mapsto> Leaf t b')"
    by (auto split: option.splits node.splits)
  have e: "edge m' = edge m" using l by (auto simp: fun_eq_iff edge_upd edge_def)
  have d: "m' q = Some (Dir es) \<longleftrightarrow> m q = Some (Dir es)" for q es using l by auto
  have n: "m' q = None \<longleftrightarrow> m q = None" for q using l by auto
  show ?thesis using assms(1) unfolding tree_ok_def e d n .
qed

lemma in_dir_Some: "in_dir p f m = Some m' \<Longrightarrow> \<exists>es. m p = Some (Dir es) \<and> f es = Some m'"
  by (auto simp: in_dir_def split: option.splits node.splits)

lemma check_Some: "check x b = Some y \<longleftrightarrow> b \<and> y = x"
  by (auto simp: check_def)

lemma yfs_apply_tree_ok:
  assumes "yfs_apply op m = Some m'" "tree_ok m"
  shows "tree_ok m'"
proof (cases op)
  case (F_create type p n i)
  then have "add_name p n i (node_of (ucast type, [])) m = Some m'"
    using assms(1) by (simp del: add_name.simps)
  then show ?thesis using tree_ok_add [OF assms(2)] by (auto simp: node_of_def simp del: add_name.simps)
next
  case (F_symlink p n link i)
  then have "add_name p n i (Leaf 3 link) m = Some m'" using assms(1) by (simp del: add_name.simps)
  then show ?thesis using tree_ok_add [OF assms(2)] by blast
next
  case (F_unlink p n)
  with assms(1) obtain es where es: "m p = Some (Dir es)"
    "(case map_of es n of Some i \<Rightarrow> Some (m(i := None, p \<mapsto> Dir (remove_first n es))) | None \<Rightarrow> None) = Some m'"
    using in_dir_Some by fastforce
  then show ?thesis using tree_ok_unlink [OF assms(2) es(1)] by (cases "map_of es n") auto
qed (use assms in \<open>auto dest!: in_dir_Some simp: check_Some simp del: on_leaf.simps intro: tree_ok_leaf\<close>)

lemma yfs_apply_all_tree_ok: "yfs_apply_all ops m = Some m' \<Longrightarrow> tree_ok m \<Longrightarrow> tree_ok m'"
  by (induction ops arbitrary: m) (auto simp: bind_eq_Some_conv intro: yfs_apply_tree_ok)

end
