(* ===== verification/Yfs_Run.thy ===== *)
theory Yfs_Run
  imports Yfs_Tree Extent_Props
begin

text \<open>
  The file system over the extent layer of this repository: several clients, each with its own
  caches, operate on one set of extents, and every run of theirs is a run of the abstract tree
  (\<open>Yfs_Tree\<close>).
\<close>

section \<open>Runs of several clients\<close>

abbreviation at_rest :: "extent_world \<Rightarrow> extent_world yfs" where
  "at_rest w \<equiv> \<lparr>held = {}, ext = w\<rparr>"

text \<open>
  One file system operation by one client. It accesses a node of the right kind that is ready
  for the client; a new name fits an entry, and its creation has room; what is unlinked can be
  reached; offsets fit 32 bits and a read starts before the end of the file.
\<close>

definition dir_at :: "(cid \<Rightarrow> bool) \<Rightarrow> cid \<Rightarrow> extent_world \<Rightarrow> inum \<Rightarrow> (byte list \<times> inum) list \<Rightarrow> bool" where
  "dir_at up c w p es \<longleftrightarrow> up c \<and> ext_ready up c w p \<and> view (ext_fs w) p = Some (Dir es)"

definition leaf_at :: "(cid \<Rightarrow> bool) \<Rightarrow> cid \<Rightarrow> extent_world \<Rightarrow> inum \<Rightarrow> byte list \<Rightarrow> bool" where
  "leaf_at up c w i b \<longleftrightarrow> up c \<and> ext_ready up c w i \<and> (\<exists>t. view (ext_fs w) i = Some (Leaf t b))"

definition can_add :: "extent_world \<Rightarrow> env \<Rightarrow> byte list \<Rightarrow> bool" where
  "can_add w e n \<longleftrightarrow> ext_room w \<and> heap_clean e \<and> length n \<le> MAX_LENGTH"

inductive yfs_step :: "(cid \<Rightarrow> bool) \<Rightarrow> extent_world \<Rightarrow> yfs_op \<Rightarrow> extent_world \<Rightarrow> bool" for up where
  y_create: "dir_at up c w p es \<Longrightarrow> can_add w e n \<Longrightarrow>
    create (ec_ops up c) e p n ino (at_rest w) = Inr ((0, i), s) \<Longrightarrow>
    yfs_step up w (F_create T_FILE p n i) (ext s)"
| y_mkdir: "dir_at up c w p es \<Longrightarrow> can_add w e n \<Longrightarrow>
    mkdir (ec_ops up c) e p n ino (at_rest w) = Inr ((0, i), s) \<Longrightarrow>
    yfs_step up w (F_create T_DIR p n i) (ext s)"
| y_symlink: "dir_at up c w p es \<Longrightarrow> can_add w e n \<Longrightarrow> map_of es n = None \<Longrightarrow>
    symlink (ec_ops up c) e p n link ino (at_rest w) = Inr ((r, i), s) \<Longrightarrow>
    yfs_step up w (F_symlink p n link i) (ext s)"
| y_exist: "dir_at up c w p es \<Longrightarrow> can_add w e n \<Longrightarrow>
    create (ec_ops up c) e p n ino (at_rest w) = Inr ((4, i), s) \<Longrightarrow>
    yfs_step up w (F_exist p n) (ext s)"
| y_lookup: "dir_at up c w p es \<Longrightarrow>
    lookup (ec_ops up c) e p n (at_rest w) = Inr ((r, found), s) \<Longrightarrow>
    yfs_step up w (F_lookup p n found) (ext s)"
| y_readdir: "dir_at up c w p es \<Longrightarrow>
    readdir (ec_ops up c) e p (at_rest w) = Inr ((r, ds), s) \<Longrightarrow>
    yfs_step up w (F_readdir p ds) (ext s)"
| y_unlink: "dir_at up c w p es \<Longrightarrow> (\<And>i. map_of es n = Some i \<Longrightarrow> ext_reach up w i) \<Longrightarrow>
    unlink (ec_ops up c) e p n (at_rest w) = Inr (0, s) \<Longrightarrow>
    yfs_step up w (F_unlink p n) (ext s)"
| y_noent: "dir_at up c w p es \<Longrightarrow> (\<And>i. map_of es n = Some i \<Longrightarrow> ext_reach up w i) \<Longrightarrow>
    unlink (ec_ops up c) e p n (at_rest w) = Inr (2, s) \<Longrightarrow>
    yfs_step up w (F_noent p n) (ext s)"
| y_read: "leaf_at up c w i b \<Longrightarrow> off < 2 ^ 32 \<Longrightarrow> unat off < length b \<Longrightarrow>
    read (ec_ops up c) e i sz off d0 (at_rest w) = Inr ((r, d), s) \<Longrightarrow>
    yfs_step up w (F_read i (unat sz) (unat off) d) (ext s)"
| y_write: "leaf_at up c w i b \<Longrightarrow> off < 2 ^ 32 \<Longrightarrow> length d = unat sz \<Longrightarrow> unat sz + unat off < 2 ^ 63 \<Longrightarrow>
    yfs_write (ec_ops up c) e i sz off d (at_rest w) = Inr ((r, n), s) \<Longrightarrow>
    yfs_step up w (F_write i (unat off) d) (ext s)"
| y_setattr: "leaf_at up c w i b \<Longrightarrow> sz < 2 ^ 63 \<Longrightarrow>
    setattr (ec_ops up c) e i sz (at_rest w) = Inr (r, s) \<Longrightarrow>
    yfs_step up w (F_setattr i (unat sz)) (ext s)"
| y_readlink: "leaf_at up c w i b \<Longrightarrow>
    readlink (ec_ops up c) e i (at_rest w) = Inr ((r, d), s) \<Longrightarrow>
    yfs_step up w (F_readlink i d) (ext s)"

inductive yfs_run :: "(cid \<Rightarrow> bool) \<Rightarrow> extent_world \<Rightarrow> yfs_op list \<Rightarrow> extent_world \<Rightarrow> bool" for up where
  yr_nil: "yfs_run up w [] w"
| yr_cons: "yfs_step up w op w1 \<Longrightarrow> yfs_run up w1 ops w2 \<Longrightarrow> yfs_run up w (op # ops) w2"

section \<open>Simulation\<close>

definition yfs_inv :: "extent_world \<Rightarrow> bool" where
  "yfs_inv w \<longleftrightarrow> ext_inv w \<and> fs_ok (ext_fs w) \<and> tree_ok (view (ext_fs w))"

lemma dir_atD:
  assumes "dir_at up c w p es" "yfs_inv w"
  obtains buf where "ext_inv w \<and> up c" "ext_fs w p = Some (1, buf)" "ext_ready up c w p" "dir_ok buf"
    "es = dir_list buf"
proof -
  from assms(1) obtain t buf where b: "ext_fs w p = Some (t, buf)" "node_of (t, buf) = Dir es"
    by (auto simp: dir_at_def view_def)
  then have "t = 1" "es = dir_list buf" by (auto simp: node_of_def split: if_splits)
  then show thesis using that [of buf] b assms by (auto simp: yfs_inv_def dir_at_def fs_ok_def)
qed

lemma leaf_atD:
  assumes "leaf_at up c w i b" "yfs_inv w"
  obtains t where "ext_inv w \<and> up c" "ext_fs w i = Some (t, b)" "ext_ready up c w i" "t \<noteq> 1"
proof -
  from assms(1) obtain t d u where b: "ext_fs w i = Some (t, d)" "node_of (t, d) = Leaf u b"
    by (auto simp: leaf_at_def view_def)
  then have "t \<noteq> 1" "d = b" by (auto simp: node_of_def split: if_splits)
  then show thesis using that [of t] b(1) assms by (auto simp: yfs_inv_def leaf_at_def)
qed

definition sim :: "extent_world \<Rightarrow> yfs_op \<Rightarrow> extent_world \<Rightarrow> bool" where
  "sim w op w' \<longleftrightarrow> ext_inv w' \<and> fs_ok (ext_fs w') \<and>
     yfs_apply op (view (ext_fs w)) = Some (view (ext_fs w'))"

lemma sim_inv: "yfs_inv w \<Longrightarrow> sim w op w' \<Longrightarrow> yfs_inv w'"
  by (auto simp: yfs_inv_def sim_def intro: yfs_apply_tree_ok)

lemma sim_stutter:
  assumes "yfs_inv w" "ext_inv w'" "ext_fs w' = ext_fs w" "ext_fs w p = Some (1, buf)"
  shows "map_of (dir_list buf) n \<noteq> None \<Longrightarrow> sim w (F_exist p n) w'"
    "map_of (dir_list buf) n = None \<Longrightarrow> sim w (F_noent p n) w'"
    "sim w (F_lookup p n (map_of (dir_list buf) n)) w'" "sim w (F_readdir p (dir_list buf)) w'"
  using assms by (simp_all add: sim_def yfs_inv_def in_dir_def check_def view_Some)

lemma sim_add:
  assumes "yfs_inv w" "ext_inv w'" "ext_fs w p = Some (1, buf)" "ext_fs w i = None"
    "map_of (dir_list buf) n = None" "ext_fs w' = (ext_fs w)(i \<mapsto> (t, d), p \<mapsto> (1, buf'))"
    "dir_ok buf'" "dir_list buf' = dir_list buf @ [(n, i)]"
  shows "t = ucast type \<Longrightarrow> d = [] \<Longrightarrow> sim w (F_create type p n i) w'"
    "t = 3 \<Longrightarrow> sim w (F_symlink p n d i) w'"
proof -
  have "fs_ok (ext_fs w')" if "t = 1 \<Longrightarrow> dir_ok d"
    using assms that by (auto simp: yfs_inv_def intro!: fs_ok_upd)
  moreover have "(3 :: u16) \<noteq> 1" by simp
  ultimately show "t = ucast type \<Longrightarrow> d = [] \<Longrightarrow> sim w (F_create type p n i) w'"
    "t = 3 \<Longrightarrow> sim w (F_symlink p n d i) w'"
    using assms by (auto simp: sim_def view_Some)
qed

lemma sim_unlink:
  assumes "yfs_inv w" "ext_inv w'" "ext_fs w p = Some (1, buf)" "map_of (dir_list buf) n = Some i"
    "ext_fs w' = (ext_fs w)(i := None, p \<mapsto> (1, buf'))" "dir_ok buf'"
    "dir_list buf' = remove_first n (dir_list buf)"
  shows "sim w (F_unlink p n) w'"
  using assms by (simp add: sim_def yfs_inv_def view_Some fs_ok_upd in_dir_def)

lemma sim_leaf:
  assumes "yfs_inv w" "ext_inv w'" "ext_fs w i = Some (t, b)" "t \<noteq> 1"
    "ext_fs w' = (ext_fs w)(i \<mapsto> (t, b'))"
  shows "b' = b \<Longrightarrow> sim w (F_read i sz off (take sz (drop off b))) w'"
    "b' = b \<Longrightarrow> sim w (F_readlink i b) w'"
    "b' = pwrite off d b \<Longrightarrow> sim w (F_write i off d) w'"
    "b' = resized n b \<Longrightarrow> sim w (F_setattr i n) w'"
  using assms by (simp_all add: sim_def yfs_inv_def view_Some fs_ok_upd check_def)

lemma edge_exists:
  assumes "yfs_inv w" "ext_fs w p = Some (1, buf)" "map_of (dir_list buf) n = Some i"
  obtains t d where "ext_fs w i = Some (t, d)" "i \<noteq> p"
proof -
  have "edge (view (ext_fs w)) p n i"
    using assms(2,3) by (auto simp: edge_def view_Some dest: map_of_SomeD)
  then have "view (ext_fs w) i \<noteq> None" "i \<noteq> p"
    using assms(1) tree_okD(3) unfolding yfs_inv_def by blast+
  then show thesis using that by (auto simp: view_def)
qed

lemma create_at:
  assumes "yfs_inv w" "dir_at up c w p es" "can_add w e n" "(ucast type :: u16) \<noteq> 0" "map_of es n = None"
  obtains i w' where "create_node (ec_ops up c) e type p n ino (at_rest w) = Inr ((0, i), at_rest w')"
    "sim w (F_create type p n i) w'" "ext_mine c w' p" "ext_ready up c w' i"
proof -
  obtain buf where pre: "ext_inv w \<and> up c" "ext_fs w p = Some (1, buf)" "ext_ready up c w p" "dir_ok buf"
    and es: "es = dir_list buf" by (rule dir_atD [OF assms(2,1)])
  have add: "length n \<le> MAX_LENGTH" "ext_room w" "heap_clean e"
    and none: "map_of (dir_list buf) n = None" using assms(3,5) es by (simp_all add: can_add_def)
  obtain j w' buf' where w': "create_node (ec_ops up c) e type p n ino (at_rest w) = Inr ((0, j), at_rest w')"
    "ext_inv w'" "ext_fs w j = None" "ext_fs w' = (ext_fs w)(j \<mapsto> (ucast type, []), p \<mapsto> (1, buf'))"
    "dir_ok buf'" "dir_list buf' = dir_list buf @ [(n, j)]" "ext_mine c w' p"
    "ext_ready up c w' j" using ecs.create_node_ok [where s = "at_rest w" and ino = ino, simplified yfs.simps, OF pre _ none add assms(4)]
    by blast
  from that [OF w'(1) sim_add(1) [OF assms(1) w'(2) pre(2) w'(3) none w'(4-6) refl refl] w'(7,8)] show thesis .
qed

lemma symlink_at:
  assumes "yfs_inv w" "dir_at up c w p es" "can_add w e n" "map_of es n = None"
  obtains i w' where "symlink (ec_ops up c) e p n link ino (at_rest w) = Inr ((0, i), at_rest w')"
    "sim w (F_symlink p n link i) w'" "ext_ready up c w' i"
proof -
  obtain buf where pre: "ext_inv w \<and> up c" "ext_fs w p = Some (1, buf)" "ext_ready up c w p" "dir_ok buf"
    and es: "es = dir_list buf" by (rule dir_atD [OF assms(2,1)])
  have add: "length n \<le> MAX_LENGTH" "ext_room w" "heap_clean e"
    and none: "map_of (dir_list buf) n = None" using assms(3,4) es by (simp_all add: can_add_def)
  obtain j w' buf' where w': "symlink (ec_ops up c) e p n link ino (at_rest w) = Inr ((0, j), at_rest w')"
    "ext_inv w'" "ext_fs w j = None" "ext_fs w' = (ext_fs w)(j \<mapsto> (3, link), p \<mapsto> (1, buf'))"
    "dir_ok buf'" "dir_list buf' = dir_list buf @ [(n, j)]" "ext_ready up c w' j"
    using ecs.symlink_ok [where s = "at_rest w" and ino = ino, simplified yfs.simps, OF pre _ none add]
    by blast
  from that [OF w'(1) sim_add(2) [OF assms(1) w'(2) pre(2) w'(3) none w'(4-6) refl] w'(7)] show thesis .
qed

lemma unlink_at:
  assumes "yfs_inv w" "dir_at up c w p es" "map_of es n = Some i" "ext_reach up w i"
  obtains w' where "unlink (ec_ops up c) e p n (at_rest w) = Inr (0, at_rest w')"
    "sim w (F_unlink p n) w'"
    "view (ext_fs w') = (view (ext_fs w))(i := None, p \<mapsto> Dir (remove_first n es))" "i \<noteq> p"
proof -
  obtain buf where pre: "ext_inv w \<and> up c" "ext_fs w p = Some (1, buf)" "ext_ready up c w p" "dir_ok buf"
    and es: "es = dir_list buf" by (rule dir_atD [OF assms(2,1)])
  have ni: "map_of (dir_list buf) n = Some i" using assms(3) es by simp
  obtain t x where i: "ext_fs w i = Some (t, x)" "i \<noteq> p" by (rule edge_exists [OF assms(1) pre(2) ni])
  obtain w' buf' where w': "unlink (ec_ops up c) e p n (at_rest w) = Inr (0, at_rest w')"
    "ext_inv w'" "ext_fs w' = (ext_fs w)(i := None, p \<mapsto> (1, buf'))" "dir_ok buf'"
    "dir_list buf' = remove_first n (dir_list buf)"
    using ecs.unlink_ok [of "at_rest w" up c p buf n i t x e] pre ni i assms(4) by auto
  have "view (ext_fs w') = (view (ext_fs w))(i := None, p \<mapsto> Dir (remove_first n es))"
    using w'(3,5) es by simp
  from that [OF w'(1) sim_unlink [OF assms(1) w'(2) pre(2) ni w'(3-5)] this i(2)] show thesis .
qed

lemma create_sim:
  assumes "yfs_inv w" "dir_at up c w p es" "can_add w e n" "(ucast type :: u16) \<noteq> 0"
    "create_node (ec_ops up c) e type p n ino (at_rest w) = Inr ((r, i), s)"
  shows "r = 0 \<and> sim w (F_create type p n i) (ext s) \<or> r = 4 \<and> sim w (F_exist p n) (ext s)"
proof (cases "map_of es n")
  case None
  obtain j w' where "create_node (ec_ops up c) e type p n ino (at_rest w) = Inr ((0, j), at_rest w')"
    "sim w (F_create type p n j) w'" by (rule create_at [OF assms(1-4) None])
  with assms(5) show ?thesis by auto
next
  case (Some j)
  obtain buf where pre: "ext_inv w \<and> up c" "ext_fs w p = Some (1, buf)" "ext_ready up c w p" "dir_ok buf"
    and es: "es = dir_list buf" by (rule dir_atD [OF assms(2,1)])
  from ecs.create_node_exists [of "at_rest w" up c p buf n j e type ino] pre Some es assms(5)
    sim_stutter(1) [OF assms(1) _ _ pre(2), of _ n] show ?thesis by auto
qed

lemma yfs_step_sim:
  assumes "yfs_step up w op w'" "yfs_inv w"
  shows "sim w op w'"
  using assms(1)
proof cases
  case (y_create c p es e n ino i s)
  with create_sim [OF assms(2), of up c p es e n T_FILE ino 0 i s] show ?thesis by (simp add: create_def)
next
  case (y_mkdir c p es e n ino i s)
  with create_sim [OF assms(2), of up c p es e n T_DIR ino 0 i s] show ?thesis by (simp add: mkdir_def)
next
  case (y_exist c p es e n ino i s)
  with create_sim [OF assms(2), of up c p es e n T_FILE ino 4 i s] show ?thesis by (simp add: create_def)
next
  case (y_symlink c p es e n link ino r i s)
  obtain j v where "symlink (ec_ops up c) e p n link ino (at_rest w) = Inr ((0, j), at_rest v)"
    "sim w (F_symlink p n link j) v" by (rule symlink_at [OF assms(2) y_symlink(3-5)])
  with y_symlink show ?thesis by auto
next
  case (y_lookup c p es e n r found s)
  obtain buf where pre: "ext_inv w \<and> up c" "ext_fs w p = Some (1, buf)" "ext_ready up c w p" "dir_ok buf"
    by (rule dir_atD [OF y_lookup(3) assms(2)])
  from ecs.lookup_ok [of "at_rest w" up c p buf e n] pre y_lookup sim_stutter(3) [OF assms(2) _ _ pre(2), of _ n]
  show ?thesis by auto
next
  case (y_readdir c p es e r ds s)
  obtain buf where pre: "ext_inv w \<and> up c" "ext_fs w p = Some (1, buf)" "ext_ready up c w p" "dir_ok buf"
    by (rule dir_atD [OF y_readdir(3) assms(2)])
  from ecs.readdir_ok [of "at_rest w" up c p buf e] pre y_readdir sim_stutter(4) [OF assms(2) _ _ pre(2)]
  show ?thesis by auto
next
  case (y_unlink c p es n e s)
  obtain buf where pre: "ext_inv w \<and> up c" "ext_fs w p = Some (1, buf)" "ext_ready up c w p" "dir_ok buf"
    and es: "es = dir_list buf" by (rule dir_atD [OF y_unlink(3) assms(2)])
  show ?thesis
  proof (cases "map_of es n")
    case None
    with ecs.unlink_missing [of "at_rest w" up c p buf n e] pre y_unlink es show ?thesis by auto
  next
    case (Some i)
    obtain v where "unlink (ec_ops up c) e p n (at_rest w) = Inr (0, at_rest v)" "sim w (F_unlink p n) v"
      by (rule unlink_at [OF assms(2) y_unlink(3) Some y_unlink(4) [OF Some]])
    with y_unlink show ?thesis by auto
  qed
next
  case (y_noent c p es n e s)
  obtain buf where pre: "ext_inv w \<and> up c" "ext_fs w p = Some (1, buf)" "ext_ready up c w p" "dir_ok buf"
    and es: "es = dir_list buf" by (rule dir_atD [OF y_noent(3) assms(2)])
  show ?thesis
  proof (cases "map_of es n")
    case None
    with ecs.unlink_missing [of "at_rest w" up c p buf n e] pre y_noent es
      sim_stutter(2) [OF assms(2) _ _ pre(2), of _ n] show ?thesis by auto
  next
    case (Some i)
    obtain v where "unlink (ec_ops up c) e p n (at_rest w) = Inr (0, at_rest v)"
      by (rule unlink_at [OF assms(2) y_noent(3) Some y_noent(4) [OF Some]])
    with y_noent show ?thesis by auto
  qed
next
  case (y_read c i b off e sz d0 r d s)
  obtain t where pre: "ext_inv w \<and> up c" "ext_fs w i = Some (t, b)" "ext_ready up c w i" "t \<noteq> 1"
    by (rule leaf_atD [OF y_read(3) assms(2)])
  from ecs.read_ok [of "at_rest w" up c i t b off e sz d0] pre y_read
    sim_leaf(1) [OF assms(2) _ pre(2,4), of _ b] show ?thesis by (auto simp: fun_upd_idem)
next
  case (y_write c i b off d sz e r n s)
  obtain t where pre: "ext_inv w \<and> up c" "ext_fs w i = Some (t, b)" "ext_ready up c w i" "t \<noteq> 1"
    by (rule leaf_atD [OF y_write(3) assms(2)])
  from ecs.write_ok [of "at_rest w" up c i t b off d sz e] pre y_write
    sim_leaf(3) [OF assms(2) _ pre(2,4), of _ _ "unat off" d] show ?thesis by auto
next
  case (y_setattr c i b sz e r s)
  obtain t where pre: "ext_inv w \<and> up c" "ext_fs w i = Some (t, b)" "ext_ready up c w i" "t \<noteq> 1"
    by (rule leaf_atD [OF y_setattr(3) assms(2)])
  from ecs.setattr_ok [of "at_rest w" up c i t b sz e] pre y_setattr
    sim_leaf(4) [OF assms(2) _ pre(2,4), of _ _ "unat sz"] show ?thesis by auto
next
  case (y_readlink c i b e r d s)
  obtain t where pre: "ext_inv w \<and> up c" "ext_fs w i = Some (t, b)" "ext_ready up c w i" "t \<noteq> 1"
    by (rule leaf_atD [OF y_readlink(3) assms(2)])
  from ecs.readlink_ok [of "at_rest w" up c i t b e] pre y_readlink
    sim_leaf(2) [OF assms(2) _ pre(2,4), of _ b] show ?thesis by (auto simp: fun_upd_idem)
qed

lemma yfs_run_sim:
  "yfs_run up w ops w' \<Longrightarrow> yfs_inv w \<Longrightarrow>
   yfs_inv w' \<and> yfs_apply_all ops (view (ext_fs w)) = Some (view (ext_fs w'))"
proof (induction rule: yfs_run.induct)
  case (yr_cons w op w1 ops w2)
  have s: "sim w op w1" by (rule yfs_step_sim [OF yr_cons(1,4)])
  with yr_cons(3) [OF sim_inv [OF yr_cons(4) s]] show ?case by (simp add: sim_def)
qed simp

end
