(* ===== verification/Fuse.thy ===== *)
theory Fuse
  imports Yfs_Run
begin

text \<open>
  The FUSE request handlers of \<open>fuse.cc\<close>. A handler is a function from its request and the
  state of the file system client to the reply it sends. What the handlers need of libfuse is
  a parameter: \<open>fuse_dirent_size\<close> and \<open>fuse_add_dirent\<close>, which lay out a directory entry.
\<close>

unbundle bit_operations_syntax

section \<open>Data\<close>

record stat =
  st_ino :: u64
  st_mode :: u32
  st_nlink :: u64
  st_size :: u64
  st_atim :: u64
  st_mtim :: u64
  st_ctim :: u64

text \<open>\<open>bzero(&st, sizeof(st))\<close>.\<close>

definition stat_zero :: stat where
  "stat_zero = \<lparr>st_ino = 0, st_mode = 0, st_nlink = 0, st_size = 0, st_atim = 0, st_mtim = 0, st_ctim = 0\<rparr>"

text \<open>\<open>struct fuse_entry_param\<close>; the time-outs are only ever set to \<open>0.0\<close>.\<close>

record fuse_entry_param =
  ep_ino :: u64
  ep_generation :: u64
  ep_attr :: stat
  ep_attr_timeout :: int
  ep_entry_timeout :: int

datatype reply =
  R_err int | R_attr stat | R_buf "byte list" | R_write u64 | R_create fuse_entry_param
| R_entry fuse_entry_param | R_open | R_statfs u64 u64 | R_readlink "byte list"

text \<open>Constants of the C library and of libfuse (Linux).\<close>

definition ENOENT :: int where [simp]: "ENOENT = 2"
definition EEXIST :: int where [simp]: "EEXIST = 17"
definition ENOTDIR :: int where [simp]: "ENOTDIR = 20"
definition ENOSYS :: int where [simp]: "ENOSYS = 38"
definition ENOTEMPTY :: int where [simp]: "ENOTEMPTY = 39"
definition S_IFREG :: u32 where "S_IFREG = 0x8000"
definition S_IFDIR :: u32 where "S_IFDIR = 0x4000"
definition S_IFLNK :: u32 where "S_IFLNK = 0xA000"
definition FUSE_SET_ATTR_SIZE :: u32 where "FUSE_SET_ATTR_SIZE = 8"

text \<open>Local variables of the handlers, not yet written to.\<close>

definition stack_u64 :: "env \<Rightarrow> nat \<Rightarrow> u64" where
  "stack_u64 e off = word_of_nat (le_dec (bytes_at off 8 (local_buf e 128)))"

definition stack_fileinfo :: "env \<Rightarrow> fileinfo" where
  "stack_fileinfo e = \<lparr>fi_size = stack_u64 e 0, fi_atime = stack_u64 e 8, fi_mtime = stack_u64 e 16,
     fi_ctime = stack_u64 e 24\<rparr>"

definition stack_dirinfo :: "env \<Rightarrow> dirinfo" where
  "stack_dirinfo e = \<lparr>di_atime = stack_u64 e 0, di_mtime = stack_u64 e 8, di_ctime = stack_u64 e 16\<rparr>"

text \<open>A C string ends before its first zero byte.\<close>

definition c_str :: "byte list \<Rightarrow> byte list" where
  "c_str b = takeWhile (\<lambda>c. c \<noteq> 0) b"

text \<open>The environment of the \<open>k\<close>-th call of a handler.\<close>

definition nth_call :: "nat \<Rightarrow> env \<Rightarrow> env" where
  "nth_call k e = ((later ^^ (8 * k)) e)"

section \<open>Attributes\<close>

definition stat_file :: "u32 \<Rightarrow> fileinfo \<Rightarrow> stat \<Rightarrow> stat" where
  "stat_file mode info st = st\<lparr>st_mode := mode, st_nlink := 1, st_atim := fi_atime info,
     st_mtim := fi_mtime info, st_ctim := fi_ctime info, st_size := fi_size info\<rparr>"

definition stat_dir :: "dirinfo \<Rightarrow> stat \<Rightarrow> stat" where
  "stat_dir info st = st\<lparr>st_mode := S_IFDIR OR 0x1FF, st_nlink := 2, st_atim := di_atime info,
     st_mtim := di_mtime info, st_ctim := di_ctime info\<rparr>"

text \<open>\<open>getattr\<close>; its first \<open>isfile\<close> is for the message it prints.\<close>

definition fs_getattr :: "'w ext_ops \<Rightarrow> env \<Rightarrow> inum \<Rightarrow> 'w yfs \<Rightarrow> ((int \<times> stat) \<times> 'w yfs) res" where
  "fs_getattr x e i s =
     (let st = stat_zero\<lparr>st_ino := i\<rparr>
      in and_then (isfile x e i s) (\<lambda>(_, s).
         and_then (isfile x (nth_call 1 e) i s) (\<lambda>(b, s).
           if b then
             and_then (getfile x (nth_call 2 e) i (stack_fileinfo e) s) (\<lambda>((ret, info), s).
               if ret \<noteq> Y_OK then Inr ((ret, st), s)
               else Inr ((Y_OK, stat_file (S_IFREG OR 0x1B6) info st), s))
           else and_then (isdir x (nth_call 2 e) i s) (\<lambda>(b, s).
             if b then
               and_then (getdir x (nth_call 3 e) i (stack_dirinfo e) s) (\<lambda>((ret, info), s).
                 if ret \<noteq> Y_OK then Inr ((ret, st), s) else Inr ((Y_OK, stat_dir info st), s))
             else and_then (issymlink x (nth_call 3 e) i s) (\<lambda>(b, s).
               if b then
                 and_then (getfile x (nth_call 4 e) i (stack_fileinfo e) s) (\<lambda>((ret, info), s).
                   if ret \<noteq> Y_OK then Inr ((ret, st), s)
                   else Inr ((Y_OK, stat_file (S_IFLNK OR 0x1FF) info st), s))
               else Inr ((Y_OK, st), s))))))"

definition fuseserver_getattr :: "'w ext_ops \<Rightarrow> env \<Rightarrow> u64 \<Rightarrow> 'w yfs \<Rightarrow> (reply \<times> 'w yfs) res" where
  "fuseserver_getattr x e ino s =
     and_then (fs_getattr x e ino s) (\<lambda>((ret, st), s).
       if ret \<noteq> Y_OK then Inr (R_err ENOENT, s) else Inr (R_attr st, s))"

text \<open>The status of \<open>setattr\<close> and of \<open>getattr\<close> is not looked at.\<close>

definition fuseserver_setattr ::
    "'w ext_ops \<Rightarrow> env \<Rightarrow> u64 \<Rightarrow> u64 \<Rightarrow> u32 \<Rightarrow> 'w yfs \<Rightarrow> (reply \<times> 'w yfs) res" where
  "fuseserver_setattr x e ino sz to_set s =
     (if FUSE_SET_ATTR_SIZE AND to_set \<noteq> 0
      then and_then
        (if to_set AND FUSE_SET_ATTR_SIZE \<noteq> 0
         then and_then (setattr x e ino sz s) (\<lambda>(r, s). Inr s) else Inr s)
        (\<lambda>s. and_then (fs_getattr x (nth_call 1 e) ino s) (\<lambda>((ret, st), s). Inr (R_attr st, s)))
      else Inr (R_err ENOSYS, s))"

section \<open>File contents\<close>

definition fuseserver_read ::
    "'w ext_ops \<Rightarrow> env \<Rightarrow> u64 \<Rightarrow> u64 \<Rightarrow> u64 \<Rightarrow> 'w yfs \<Rightarrow> (reply \<times> 'w yfs) res" where
  "fuseserver_read x e ino sz off s =
     and_then (read x e ino sz off [] s) (\<lambda>((r, buf), s).
       if r = Y_OK then Inr (R_buf buf, s) else Inr (R_err ENOENT, s))"

text \<open>\<open>size\<close> is both the number of bytes to write and where \<open>write\<close> leaves its count.\<close>

definition fuseserver_write ::
    "'w ext_ops \<Rightarrow> env \<Rightarrow> u64 \<Rightarrow> byte list \<Rightarrow> u64 \<Rightarrow> u64 \<Rightarrow> 'w yfs \<Rightarrow> (reply \<times> 'w yfs) res" where
  "fuseserver_write x e ino buf sz off s =
     and_then (yfs_write x e ino sz off buf s) (\<lambda>((r, sz), s).
       if r = Y_OK then Inr (R_write sz, s) else Inr (R_err ENOENT, s))"

section \<open>Names\<close>

text \<open>\<open>p\<close> is the structure \<open>e\<close> points to.\<close>

definition fuseserver_createhelper ::
    "'w ext_ops \<Rightarrow> env \<Rightarrow> u64 \<Rightarrow> byte list \<Rightarrow> fuse_entry_param \<Rightarrow> u32 \<Rightarrow> 'w yfs \<Rightarrow>
     ((int \<times> fuse_entry_param) \<times> 'w yfs) res" where
  "fuseserver_createhelper x e parent name p type s =
     (let p = p\<lparr>ep_attr_timeout := 0, ep_entry_timeout := 0, ep_generation := 0\<rparr>
      in and_then
        (if type = T_FILE then create x e parent name (stack_u64 e 0) s
         else mkdir x e parent name (stack_u64 e 0) s)
        (\<lambda>((ret, inum), s).
          if ret \<noteq> Y_OK then Inr ((ret, p), s)
          else and_then (fs_getattr x (nth_call 1 e) inum s) (\<lambda>((ret, st), s).
            Inr ((ret, p\<lparr>ep_ino := inum, ep_attr := st\<rparr>), s))))"

definition stack_stat :: "env \<Rightarrow> stat" where
  "stack_stat e = \<lparr>st_ino = stack_u64 e 32, st_mode = ucast (stack_u64 e 40), st_nlink = stack_u64 e 48,
     st_size = stack_u64 e 56, st_atim = stack_u64 e 64, st_mtim = stack_u64 e 72, st_ctim = stack_u64 e 80\<rparr>"

definition stack_ep :: "env \<Rightarrow> fuse_entry_param" where
  "stack_ep e = \<lparr>ep_ino = stack_u64 e 0, ep_generation = stack_u64 e 8, ep_attr = stack_stat e,
     ep_attr_timeout = sint (stack_u64 e 16), ep_entry_timeout = sint (stack_u64 e 24)\<rparr>"

definition create_error :: "int \<Rightarrow> reply" where
  "create_error ret = (if ret = Y_EXIST then R_err EEXIST else R_err ENOENT)"

definition fuseserver_create :: "'w ext_ops \<Rightarrow> env \<Rightarrow> u64 \<Rightarrow> byte list \<Rightarrow> 'w yfs \<Rightarrow> (reply \<times> 'w yfs) res" where
  "fuseserver_create x e parent name s =
     and_then (fuseserver_createhelper x e parent name (stack_ep e) T_FILE s) (\<lambda>((ret, p), s).
       if ret = Y_OK then Inr (R_create p, s) else Inr (create_error ret, s))"

definition fuseserver_mknod :: "'w ext_ops \<Rightarrow> env \<Rightarrow> u64 \<Rightarrow> byte list \<Rightarrow> 'w yfs \<Rightarrow> (reply \<times> 'w yfs) res" where
  "fuseserver_mknod x e parent name s =
     and_then (fuseserver_createhelper x e parent name (stack_ep e) T_FILE s) (\<lambda>((ret, p), s).
       if ret = Y_OK then Inr (R_entry p, s) else Inr (create_error ret, s))"

definition fuseserver_mkdir :: "'w ext_ops \<Rightarrow> env \<Rightarrow> u64 \<Rightarrow> byte list \<Rightarrow> 'w yfs \<Rightarrow> (reply \<times> 'w yfs) res" where
  "fuseserver_mkdir x e parent name s =
     (let p = (stack_ep e)\<lparr>ep_attr_timeout := 0, ep_entry_timeout := 0, ep_generation := 0\<rparr>
      in and_then (fuseserver_createhelper x e parent name p T_DIR s) (\<lambda>((ret, p), s).
        if ret = Y_OK then Inr (R_entry p, s) else Inr (create_error ret, s)))"

definition fuseserver_lookup :: "'w ext_ops \<Rightarrow> env \<Rightarrow> u64 \<Rightarrow> byte list \<Rightarrow> 'w yfs \<Rightarrow> (reply \<times> 'w yfs) res" where
  "fuseserver_lookup x e parent name s =
     (let p = (stack_ep e)\<lparr>ep_attr_timeout := 0, ep_entry_timeout := 0, ep_generation := 0\<rparr>
      in and_then (lookup x e parent name s) (\<lambda>((r, found), s).
        case found of
          Some ino \<Rightarrow>
            and_then (fs_getattr x (nth_call 1 e) ino s) (\<lambda>((ret, st), s).
              Inr (R_entry (p\<lparr>ep_ino := ino, ep_attr := st\<rparr>), s))
        | None \<Rightarrow> Inr (R_err ENOENT, s)))"

definition fuseserver_unlink :: "'w ext_ops \<Rightarrow> env \<Rightarrow> u64 \<Rightarrow> byte list \<Rightarrow> 'w yfs \<Rightarrow> (reply \<times> 'w yfs) res" where
  "fuseserver_unlink x e parent name s =
     and_then (unlink x e parent name s) (\<lambda>(r, s).
       if r = Y_OK then Inr (R_err 0, s)
       else if r = Y_NOENT then Inr (R_err ENOENT, s)
       else Inr (R_err ENOTEMPTY, s))"

definition fuseserver_readlink :: "'w ext_ops \<Rightarrow> env \<Rightarrow> u64 \<Rightarrow> 'w yfs \<Rightarrow> (reply \<times> 'w yfs) res" where
  "fuseserver_readlink x e ino s =
     and_then (readlink x e ino s) (\<lambda>((ret, buf), s).
       if ret \<noteq> Y_OK then Inr (R_err ENOENT, s) else Inr (R_readlink (c_str buf), s))"

definition fuseserver_symlink ::
    "'w ext_ops \<Rightarrow> env \<Rightarrow> byte list \<Rightarrow> u64 \<Rightarrow> byte list \<Rightarrow> 'w yfs \<Rightarrow> (reply \<times> 'w yfs) res" where
  "fuseserver_symlink x e link parent name s =
     and_then (symlink x e parent name link (stack_u64 e 0) s) (\<lambda>((ret, id), s).
       if ret \<noteq> Y_OK then Inr (create_error ret, s)
       else
         let p = (stack_ep e)\<lparr>ep_ino := id, ep_attr_timeout := 0, ep_entry_timeout := 0, ep_generation := 0\<rparr>
         in and_then (fs_getattr x (nth_call 1 e) id s) (\<lambda>((ret, st), s).
           if ret \<noteq> Y_OK then Inr (R_err ENOENT, s)
           else Inr (R_entry (p\<lparr>ep_attr := st\<rparr>), s)))"

section \<open>Listing a directory\<close>

record dirbuf =
  db_p :: "byte list"
  db_size :: u64

text \<open>\<open>dsize\<close> and \<open>add\<close> are \<open>fuse_dirent_size\<close> and \<open>fuse_add_dirent\<close>.\<close>

definition dirbuf_add ::
    "(nat \<Rightarrow> nat) \<Rightarrow> (byte list \<Rightarrow> stat \<Rightarrow> u64 \<Rightarrow> byte list) \<Rightarrow> env \<Rightarrow> byte list \<Rightarrow> u64 \<Rightarrow> dirbuf \<Rightarrow> dirbuf res" where
  "dirbuf_add dsize add e name ino b =
     (let oldsize = db_size b;
          sz = oldsize + word_of_nat (dsize (length name));
          p = take (unat sz) (db_p b @ drop (length (db_p b)) (malloc e (unat sz)));
          d = add name (stat_zero\<lparr>st_ino := ino\<rparr>) sz
      in guard Out_of_bounds (unat oldsize + length d \<le> length p)
           (Inr \<lparr>db_p = memcpy (unat oldsize) d p, db_size = sz\<rparr>))"

definition reply_buf_limited :: "byte list \<Rightarrow> u64 \<Rightarrow> u64 \<Rightarrow> u64 \<Rightarrow> reply res" where
  "reply_buf_limited buf bufsize off maxsize =
     (if off < bufsize
      then guard Out_of_bounds (unat bufsize \<le> length buf)
        (Inr (R_buf (take (unat (if bufsize - off < maxsize then bufsize - off else maxsize))
                          (drop (unat off) buf))))
      else Inr (R_buf []))"

definition fuseserver_readdir ::
    "(nat \<Rightarrow> nat) \<Rightarrow> (byte list \<Rightarrow> stat \<Rightarrow> u64 \<Rightarrow> byte list) \<Rightarrow> 'w ext_ops \<Rightarrow> env \<Rightarrow>
     u64 \<Rightarrow> u64 \<Rightarrow> u64 \<Rightarrow> 'w yfs \<Rightarrow> (reply \<times> 'w yfs) res" where
  "fuseserver_readdir dsize add x e ino sz off s =
     and_then (isdir x e ino s) (\<lambda>(d, s).
       if \<not> d then Inr (R_err ENOTDIR, s)
       else and_then (readdir x (nth_call 1 e) ino s) (\<lambda>((r, entries), s).
         and_then (for_each (\<lambda>(name, i) b. dirbuf_add dsize add e (c_str name) i b) entries
                     \<lparr>db_p = [], db_size = 0\<rparr>) (\<lambda>b.
         and_then (reply_buf_limited (db_p b) (db_size b) off sz) (\<lambda>rep. Inr (rep, s)))))"

section \<open>Requests\<close>

definition fuseserver_statfs :: "'w yfs \<Rightarrow> (reply \<times> 'w yfs) res" where
  "fuseserver_statfs s = Inr (R_statfs 255 512, s)"

definition fuseserver_open :: "u64 \<Rightarrow> 'w yfs \<Rightarrow> (reply \<times> 'w yfs) res" where
  "fuseserver_open ino s = Inr (R_open, s)"

datatype fuse_request =
  Q_getattr u64 | Q_statfs | Q_readdir u64 u64 u64 | Q_lookup u64 "byte list"
| Q_create u64 "byte list" | Q_mknod u64 "byte list" | Q_open u64 | Q_read u64 u64 u64
| Q_write u64 "byte list" u64 u64 | Q_setattr u64 u64 u32 | Q_unlink u64 "byte list"
| Q_mkdir u64 "byte list" | Q_symlink "byte list" u64 "byte list" | Q_readlink u64

text \<open>The table of handlers that \<open>main\<close> fills in.\<close>

fun fuseserver_oper ::
    "(nat \<Rightarrow> nat) \<Rightarrow> (byte list \<Rightarrow> stat \<Rightarrow> u64 \<Rightarrow> byte list) \<Rightarrow> 'w ext_ops \<Rightarrow> env \<Rightarrow> fuse_request \<Rightarrow>
     'w yfs \<Rightarrow> (reply \<times> 'w yfs) res" where
  "fuseserver_oper dsize add x e (Q_getattr ino) s = fuseserver_getattr x e ino s"
| "fuseserver_oper dsize add x e Q_statfs s = fuseserver_statfs s"
| "fuseserver_oper dsize add x e (Q_readdir ino sz off) s = fuseserver_readdir dsize add x e ino sz off s"
| "fuseserver_oper dsize add x e (Q_lookup parent name) s = fuseserver_lookup x e parent name s"
| "fuseserver_oper dsize add x e (Q_create parent name) s = fuseserver_create x e parent name s"
| "fuseserver_oper dsize add x e (Q_mknod parent name) s = fuseserver_mknod x e parent name s"
| "fuseserver_oper dsize add x e (Q_open ino) s = fuseserver_open ino s"
| "fuseserver_oper dsize add x e (Q_read ino sz off) s = fuseserver_read x e ino sz off s"
| "fuseserver_oper dsize add x e (Q_write ino buf sz off) s = fuseserver_write x e ino buf sz off s"
| "fuseserver_oper dsize add x e (Q_setattr ino sz to_set) s = fuseserver_setattr x e ino sz to_set s"
| "fuseserver_oper dsize add x e (Q_unlink parent name) s = fuseserver_unlink x e parent name s"
| "fuseserver_oper dsize add x e (Q_mkdir parent name) s = fuseserver_mkdir x e parent name s"
| "fuseserver_oper dsize add x e (Q_symlink link parent name) s = fuseserver_symlink x e link parent name s"
| "fuseserver_oper dsize add x e (Q_readlink ino) s = fuseserver_readlink x e ino s"

end
