(* ===== verification/Yfs_Props.thy ===== *)
theory Yfs_Props
  imports Yfs_Run
begin

text \<open>
  Properties of the file system operations: they implement one tree for all clients, the tree
  keeps its shape, names and file contents behave as they should; and the calls that fault,
  block or destroy data.
\<close>

section \<open>A file system just started\<close>

text \<open>The extent server starts, then the first client.\<close>

lemma yfs_boot:
  obtains w0 w where "es_new env0 0 = Inr w0" "yfs_new (ec_ops (\<lambda>_. True) c) env0 w0 = Inr (at_rest w)"
    "yfs_inv w" "ext_fs w = [1 \<mapsto> (1, [])]" "ext_room w" "ext_mine c w 1"
proof -
  obtain w0 where w0: "es_new env0 0 = Inr w0" "ext_inv w0" "ext_fs w0 = [1 \<mapsto> (1, [])]" "ext_room w0"
    "owner_map w0 = Map.empty" by (rule ext_boot)
  have "ext_fs w0 1 = Some (1, [])" "ext_ready (\<lambda>_. True) c w0 1"
    using w0(3,5) by (simp_all add: ext_ready_def)
  from ecs.yfs_new_ok [OF _ this, of env0] w0 obtain w where
    w: "yfs_new (ec_ops (\<lambda>_. True) c) env0 w0 = Inr (at_rest w)" "ext_inv w" "ext_fs w = [1 \<mapsto> (1, [])]"
    "ext_mine c w 1" "ext_room w" by auto
  have "yfs_inv w" using w(2,3) by (auto simp: yfs_inv_def fs_ok_def tree_ok_def edge_def view_def split: if_splits)
  then show thesis using that w0(1) w by blast
qed

lemma dir_at_mine:
  "yfs_inv w \<Longrightarrow> up c \<Longrightarrow> ext_mine c w p \<Longrightarrow> view (ext_fs w) p = Some (Dir es) \<Longrightarrow> dir_at up c w p es"
  using ecs.mine_ready [of w up c p] by (simp add: dir_at_def yfs_inv_def)

lemma lookup_at:
  assumes "yfs_inv w" "dir_at up d w p es"
  shows "\<exists>w'. lookup (ec_ops up d) e p n (at_rest w) =
      Inr ((if map_of es n = None then 0 else 4, map_of es n), at_rest w') \<and> ext_inv w' \<and> ext_fs w' = ext_fs w"
proof -
  obtain buf where "ext_inv w \<and> up d" "ext_fs w p = Some (1, buf)" "ext_ready up d w p" "dir_ok buf"
    and "es = dir_list buf" by (rule dir_atD [OF assms(2,1)])
  then show ?thesis using ecs.lookup_ok [of "at_rest w" up d p buf e n] by auto
qed

text \<open>A first run: a client makes a file under the root and looks it up.\<close>

lemma yfs_first_run:
  assumes "length n \<le> MAX_LENGTH"
  obtains w0 w i w1 w2 where "es_new env0 0 = Inr w0"
    "yfs_new (ec_ops (\<lambda>_. True) c) env0 w0 = Inr (at_rest w)" "yfs_inv w" "ext_mine c w 1" "ext_room w"
    "ext_fs w = [1 \<mapsto> (1, [])]"
    "create (ec_ops (\<lambda>_. True) c) env0 1 n 0 (at_rest w) = Inr ((0, i), at_rest w1)" "yfs_inv w1"
    "view (ext_fs w1) = [i \<mapsto> Leaf 2 [], 1 \<mapsto> Dir [(n, i)]]" "i \<noteq> 1" "ext_mine c w1 1"
    "yfs_run (\<lambda>_. True) w [F_create T_FILE 1 n i, F_lookup 1 n (Some i)] w2"
proof -
  let ?up = "\<lambda>_ :: cid. True"
  obtain w0 w where w: "es_new env0 0 = Inr w0" "yfs_new (ec_ops ?up c) env0 w0 = Inr (at_rest w)"
    "yfs_inv w" "ext_fs w = [1 \<mapsto> (1, [])]" "ext_room w" "ext_mine c w 1" by (rule yfs_boot)
  have v: "view (ext_fs w) = [1 \<mapsto> Dir []]" using w(4) by (auto simp: view_def fun_eq_iff)
  then have d: "dir_at ?up c w 1 []" using dir_at_mine [OF w(3) TrueI w(6)] by simp
  have add: "can_add w env0 n" using w(5) assms by (simp add: can_add_def)
  have ty: "(ucast T_FILE :: u16) \<noteq> 0" "(ucast T_FILE :: u16) = 2" by simp_all
  obtain i w1 where c: "create_node (ec_ops ?up c) env0 T_FILE 1 n 0 (at_rest w) = Inr ((0, i), at_rest w1)"
    "sim w (F_create T_FILE 1 n i) w1" "ext_mine c w1 1"
    by (rule create_at [OF w(3) d add ty(1)]) simp
  have inv1: "yfs_inv w1" by (rule sim_inv [OF w(3) c(2)])
  have i: "i \<noteq> 1" and v1: "view (ext_fs w1) = [i \<mapsto> Leaf 2 [], 1 \<mapsto> Dir [(n, i)]]"
    using c(2) v by (auto simp: sim_def node_of_def split: if_splits)
  have d1: "dir_at ?up c w1 1 [(n, i)]" using dir_at_mine [OF inv1 TrueI c(3)] v1 by simp
  obtain w2 where l: "lookup (ec_ops ?up c) env0 1 n (at_rest w1) = Inr ((4, Some i), at_rest w2)"
    using lookup_at [OF inv1 d1, of env0 n] by auto
  have cr: "create (ec_ops ?up c) env0 1 n 0 (at_rest w) = Inr ((0, i), at_rest w1)"
    using c(1) by (simp add: create_def)
  have "yfs_run ?up w [F_create T_FILE 1 n i, F_lookup 1 n (Some i)] w2"
    using yr_cons [OF y_create [OF d add cr] yr_cons [OF y_lookup [where s = "at_rest w2"] yr_nil], simplified yfs.simps, OF d1 l] .
  then show thesis using that [OF w(1,2,3,6,5,4) cr inv1 v1 i c(3)] by blast
qed

text \<open>An empty file that has just been made.\<close>

lemma new_file:
  obtains w i where "yfs_inv w" "leaf_at (\<lambda>_. True) c w i []"
proof -
  let ?up = "\<lambda>_ :: cid. True"
  obtain w0 where w0: "ext_inv w0" "ext_fs w0 = [1 \<mapsto> (1, [])]" "ext_room w0" by (rule ext_boot)
  have ty: "(ucast T_FILE :: u16) \<noteq> 0" "(ucast T_FILE :: u16) = 2" by simp_all
  obtain i w where w: "ext_inv w" "ext_fs w0 i = None" "ext_fs w = (ext_fs w0)(i \<mapsto> (ucast T_FILE, []))"
    "ext_ready ?up c w i" using ecs.create_law [of w0 ?up c env0 T_FILE] w0(1,3) ty by auto
  have i: "i \<noteq> 1" using w(2) w0(2) by auto
  have fs: "ext_fs w = [1 \<mapsto> (1, []), i \<mapsto> (2, [])]" using w(3) w0(2) by simp
  have "yfs_inv w"
    using w(1) i unfolding yfs_inv_def fs
    by (auto simp: fs_ok_def tree_ok_def edge_def view_def split: if_splits)
  moreover have "leaf_at ?up c w i []" using w(4) fs by (simp add: leaf_at_def view_def)
  ultimately show thesis by (rule that)
qed

section \<open>Properties\<close>







text \<open>
  C25. A file that is created is found: \<open>create\<close> of a new name returns a number that was not
  in use, adds exactly an empty file and one entry, and gives the lock back; a \<open>lookup\<close> by any
  client \<open>d\<close> then returns that number.
\<close>

theorem create_then_lookup:
  assumes "yfs_inv w" and "dir_at up c w p es" and "can_add w e n" and "map_of es n = None"
  shows "\<exists>i w'. create (ec_ops up c) e p n ino (at_rest w) = Inr ((0, i), at_rest w') \<and>
    view (ext_fs w) i = None \<and>
    view (ext_fs w') = (view (ext_fs w))(i \<mapsto> Leaf 2 [], p \<mapsto> Dir (es @ [(n, i)])) \<and>
    (up d \<and> ext_ready up d w' p \<longrightarrow>
       (\<exists>w''. lookup (ec_ops up d) e' p n (at_rest w') = Inr ((4, Some i), at_rest w'')))"
proof -
  have ty: "(ucast T_FILE :: u16) \<noteq> 0" "(ucast T_FILE :: u16) = 2" by simp_all
  obtain i w' where c: "create_node (ec_ops up c) e T_FILE p n ino (at_rest w) = Inr ((0, i), at_rest w')"
    "sim w (F_create T_FILE p n i) w'" by (rule create_at [OF assms(1-3) ty(1) assms(4)])
  have v: "view (ext_fs w) p = Some (Dir es)" using assms(2) by (simp add: dir_at_def)
  then have i: "view (ext_fs w) i = None"
    "view (ext_fs w') = (view (ext_fs w))(i \<mapsto> Leaf 2 [], p \<mapsto> Dir (es @ [(n, i)]))"
    using c(2) assms(4) by (auto simp: sim_def node_of_def split: if_splits)
  have "\<exists>w''. lookup (ec_ops up d) e' p n (at_rest w') = Inr ((4, Some i), at_rest w'')"
    if "up d" "ext_ready up d w' p"
    using lookup_at [OF sim_inv [OF assms(1) c(2)], of up d p "es @ [(n, i)]" e' n] that i(2) assms(4)
    by (auto simp: dir_at_def map_add_def)
  then show ?thesis using c(1) i by (auto simp: create_def)
qed

theorem create_then_lookup_witness:
  "\<exists>w i w'. create (ec_ops (\<lambda>_. True) ''a'') env0 1 [97] 0 (at_rest w) = Inr ((0, i), at_rest w') \<and>
    view (ext_fs w') = [i \<mapsto> Leaf 2 [], 1 \<mapsto> Dir [([97], i)]]"
proof -
  obtain w where w: "yfs_inv w" "ext_fs w = [1 \<mapsto> (1, [])]" "ext_room w" "ext_mine ''a'' w 1"
    by (rule yfs_boot)
  have v: "view (ext_fs w) = [1 \<mapsto> Dir []]" using w(2) by (auto simp: view_def fun_eq_iff)
  then have d: "dir_at (\<lambda>_. True) ''a'' w 1 []" using dir_at_mine [OF w(1) TrueI w(4)] by simp
  have "can_add w env0 [97]" "map_of [] [97 :: byte] = None" using w(3) by (simp_all add: can_add_def)
  from create_then_lookup [OF w(1) d this, of 0] v show ?thesis by fastforce
qed

text \<open>
  C26. A name that is unlinked is gone: \<open>unlink\<close> removes the extent and its entry and nothing
  else, and a \<open>lookup\<close> by any client \<open>d\<close> then finds nothing.
\<close>

theorem unlink_then_lookup:
  assumes "yfs_inv w" and "dir_at up c w p es" and "map_of es n = Some i" and "ext_reach up w i"
  shows "\<exists>w'. unlink (ec_ops up c) e p n (at_rest w) = Inr (0, at_rest w') \<and>
    view (ext_fs w') = (view (ext_fs w))(i := None, p \<mapsto> Dir (remove_first n es)) \<and>
    (up d \<and> ext_ready up d w' p \<longrightarrow>
       (\<exists>w''. lookup (ec_ops up d) e' p n (at_rest w') = Inr ((0, None), at_rest w'')))"
proof -
  obtain w' where w': "unlink (ec_ops up c) e p n (at_rest w) = Inr (0, at_rest w')"
    and s: "sim w (F_unlink p n) w'"
    and v: "view (ext_fs w') = (view (ext_fs w))(i := None, p \<mapsto> Dir (remove_first n es))"
    by (rule unlink_at [OF assms])
  have "view (ext_fs w) p = Some (Dir es)" using assms(2) by (simp add: dir_at_def)
  then have "distinct (map fst es)" using assms(1) tree_okD(2) unfolding yfs_inv_def by blast
  then have gone: "map_of (remove_first n es) n = None" by (simp add: map_of_remove_first)
  have "\<exists>w''. lookup (ec_ops up d) e' p n (at_rest w') = Inr ((0, None), at_rest w'')"
    if "up d" "ext_ready up d w' p"
    using lookup_at [OF sim_inv [OF assms(1) s], of up d p "remove_first n es" e' n] that v gone
    by (auto simp: dir_at_def)
  with w' v show ?thesis by blast
qed

theorem unlink_then_lookup_witness:
  "\<exists>w i w'. view (ext_fs w) = [i \<mapsto> Leaf 2 [], 1 \<mapsto> Dir [([97], i)]] \<and>
    unlink (ec_ops (\<lambda>_. True) ''a'') env0 1 [97] (at_rest w) = Inr (0, at_rest w') \<and>
    view (ext_fs w') = [1 \<mapsto> Dir []]"
proof -
  have "length [97 :: byte] \<le> MAX_LENGTH" by simp
  then obtain i w where w: "yfs_inv w" "view (ext_fs w) = [i \<mapsto> Leaf 2 [], 1 \<mapsto> Dir [([97], i)]]" "i \<noteq> 1"
    "ext_mine ''a'' w 1" by (rule yfs_first_run [where c = "''a''"])
  have d: "dir_at (\<lambda>_. True) ''a'' w 1 [([97], i)]" using dir_at_mine [OF w(1) TrueI w(4)] w(2) by simp
  have "view (ext_fs w) i \<noteq> None" using w(2,3) by simp
  then obtain t x where "ext_fs w i = Some (t, x)" by auto
  then have r: "ext_reach (\<lambda>_. True) w i" using contents_SomeD by (auto simp: ext_reach_def)
  have "map_of [([97 :: byte], i)] [97] = Some i" by simp
  from unlink_then_lookup [OF w(1) d this r, of env0] w(2,3) show ?thesis by fastforce
qed

text \<open>
  C17. \<open>write\<close> is equivalent to a positional write, byte by byte: for offsets below \<open>2 ^ 32\<close> and
  any size, the file afterwards has the new bytes from \<open>off\<close> on, its old bytes everywhere else
  and zeros in a gap; nothing else changes and the lock is given back. The count returned is
  the size, plus the gap when there is one.
\<close>

theorem write_equiv_pwrite:
  assumes "yfs_inv w" and "leaf_at up c w i b" and "off < 2 ^ 32" and "length d = unat sz"
    and "unat sz + unat off < 2 ^ 63"
  shows "\<exists>w' t b'. yfs_write (ec_ops up c) e i sz off d (at_rest w) =
      Inr ((0, if unat off \<le> length b then sz else sz + off - word_of_nat (length b)), at_rest w') \<and>
    view (ext_fs w) i = Some (Leaf t b) \<and> view (ext_fs w') = (view (ext_fs w))(i \<mapsto> Leaf t b') \<and>
    length b' = max (length b) (unat off + length d) \<and>
    (\<forall>j < length b'. b' ! j = (if unat off \<le> j \<and> j < unat off + length d then d ! (j - unat off)
                              else if j < length b then b ! j else 0))"
proof -
  obtain t where pre: "ext_inv w \<and> up c" "ext_fs w i = Some (t, b)" "ext_ready up c w i" "t \<noteq> 1"
    by (rule leaf_atD [OF assms(2,1)])
  obtain w' where w': "yfs_write (ec_ops up c) e i sz off d (at_rest w) =
      Inr ((0, if unat off \<le> length b then sz else sz + off - word_of_nat (length b)), at_rest w')"
    "ext_fs w' = (ext_fs w)(i \<mapsto> (t, pwrite (unat off) d b))"
    using ecs.write_ok [of "at_rest w" up c i t b off d sz e] pre assms(3-5) by auto
  have v: "view (ext_fs w) i = Some (Leaf t b)"
    "view (ext_fs w') = (view (ext_fs w))(i \<mapsto> Leaf t (pwrite (unat off) d b))"
    using w'(2) pre(2,4) by (simp_all add: view_Some)
  show ?thesis
    by (rule exI [of _ w'], rule exI [of _ t], rule exI [of _ "pwrite (unat off) d b"])
      (use w'(1) v length_pwrite pwrite_nth in simp)
qed

theorem write_equiv_pwrite_witness:
  "\<exists>w i w' t b'. yfs_write (ec_ops (\<lambda>_. True) ''a'') env0 i 1 2 [7] (at_rest w) = Inr ((0, 3), at_rest w') \<and>
    length b' = 3 \<and> view (ext_fs w') i = Some (Leaf t b') \<and> b' ! 0 = 0 \<and> b' ! 1 = 0 \<and> b' ! 2 = 7"
proof -
  obtain w i where w: "yfs_inv w" "leaf_at (\<lambda>_. True) ''a'' w i []" by (rule new_file)
  have off: "(2 :: u64) < 2 ^ 32" "length [7 :: byte] = unat (1 :: u64)" "unat (1 :: u64) + unat (2 :: u64) < 2 ^ 63"
    by (simp_all add: word_less_nat_alt)
  from write_equiv_pwrite [OF w off, of env0] obtain w' t b' where
    r: "yfs_write (ec_ops (\<lambda>_. True) ''a'') env0 i 1 2 [7] (at_rest w) = Inr ((0, 3), at_rest w')"
    "view (ext_fs w') i = Some (Leaf t b')" "length b' = 3"
    and b: "\<forall>j < 3. b' ! j = (if 2 \<le> j \<and> j < 3 then [7] ! (j - 2) else 0)" by auto
  have "b' ! 0 = 0 \<and> b' ! 1 = 0 \<and> b' ! 2 = 7" using b by simp
  with r show ?thesis by blast
qed

text \<open>
  C34. A read at or past the end of a file keeps the lock: it returns no bytes and status OK
  but leaves the inode locked, and every later call of this client on the inode blocks.
\<close>

theorem read_past_end_keeps_lock:
  assumes "yfs_inv w" and "leaf_at up c w i b" and "length b \<le> unat (ucast off :: u32)"
  shows "\<exists>w'. read (ec_ops up c) e i sz off d0 (at_rest w) = Inr ((0, []), \<lparr>held = {i}, ext = w'\<rparr>) \<and>
    read (ec_ops up c) e' i sz' off' d1 \<lparr>held = {i}, ext = w'\<rparr> = Inl Blocked \<and>
    yfs_write (ec_ops up c) e' i sz' off' d1 \<lparr>held = {i}, ext = w'\<rparr> = Inl Blocked \<and>
    getfile (ec_ops up c) e' i fin \<lparr>held = {i}, ext = w'\<rparr> = Inl Blocked \<and>
    setattr (ec_ops up c) e' i sz' \<lparr>held = {i}, ext = w'\<rparr> = Inl Blocked"
proof -
  obtain t where pre: "ext_inv w \<and> up c" "ext_fs w i = Some (t, b)" "ext_ready up c w i" "t \<noteq> 1"
    by (rule leaf_atD [OF assms(2,1)])
  obtain w' where "read (ec_ops up c) e i sz off d0 (at_rest w) = Inr ((0, []), \<lparr>held = {i}, ext = w'\<rparr>)"
    using ecs.read_past_end [of "at_rest w" up c i t b off e sz d0] pre assms(3) by auto
  then show ?thesis
    by (auto simp: read_def [of _ e'] yfs_write_def getfile_def setattr_def lc_acquire_held)
qed

theorem read_past_end_keeps_lock_witness:
  "\<exists>w i w'. read (ec_ops (\<lambda>_. True) ''a'') env0 i 1 0 [] (at_rest w) = Inr ((0, []), \<lparr>held = {i}, ext = w'\<rparr>) \<and>
    read (ec_ops (\<lambda>_. True) ''a'') env0 i 1 0 [] \<lparr>held = {i}, ext = w'\<rparr> = Inl Blocked"
proof -
  obtain w i where w: "yfs_inv w" "leaf_at (\<lambda>_. True) ''a'' w i []" by (rule new_file)
  have "length [] \<le> unat (ucast (0 :: u64) :: u32)" by simp
  from read_past_end_keeps_lock [OF w this, of env0 1 "[]" env0 1 0 "[]"] show ?thesis by blast
qed

text \<open>
  C38. A name longer than the 64 bytes of an entry is not refused: \<open>create\<close> and \<open>mkdir\<close> copy it
  past the end of \<open>entry.name\<close>.
\<close>

theorem long_name_overflows:
  assumes "yfs_inv w" and "dir_at up c w p es" and "ext_room w" and "heap_clean e"
    and "map_of es n = None" and "MAX_LENGTH < length n"
  shows "create (ec_ops up c) e p n ino (at_rest w) = Inl Out_of_bounds \<and>
    mkdir (ec_ops up c) e p n ino (at_rest w) = Inl Out_of_bounds"
proof -
  obtain buf where pre: "ext_inv w \<and> up c" "ext_fs w p = Some (1, buf)" "ext_ready up c w p" "dir_ok buf"
    and es: "es = dir_list buf" by (rule dir_atD [OF assms(2,1)])
  then show ?thesis
    using ecs.create_node_long_name [where s = "at_rest w" and e = e and p = p and buf = buf and name = n and ino = ino] assms
    by (simp add: create_def mkdir_def)
qed

theorem long_name_overflows_witness:
  "\<exists>w. yfs_inv w \<and> create (ec_ops (\<lambda>_. True) ''a'') env0 1 (replicate 65 97) 0 (at_rest w) = Inl Out_of_bounds"
proof -
  obtain w where w: "yfs_inv w" "ext_fs w = [1 \<mapsto> (1, [])]" "ext_room w" "ext_mine ''a'' w 1"
    by (rule yfs_boot)
  have "view (ext_fs w) 1 = Some (Dir [])" using w(2) by (simp add: view_def)
  then have d: "dir_at (\<lambda>_. True) ''a'' w 1 []" using dir_at_mine [OF w(1) TrueI w(4)] by simp
  have n: "map_of [] (replicate 65 97 :: byte list) = None" "MAX_LENGTH < length (replicate 65 (97 :: byte))"
    by simp_all
  from long_name_overflows [OF w(1) d w(3) env0_clean n, of 0] w(1) show ?thesis by blast
qed

text \<open>
  Large offsets: a write at an offset past the end of the file whose low 32 bits are within
  the file takes the branch that does not grow the file, and \<open>std::string::replace\<close> throws.
\<close>

theorem far_write_throws:
  assumes "yfs_inv w" and "leaf_at up c w i b" and "unat (ucast off :: u32) \<le> length b"
    and "length b < unat off" and "length d = unat sz"
  shows "yfs_write (ec_ops up c) e i sz off d (at_rest w) = Inl Thrown"
proof -
  obtain t where pre: "ext_inv w \<and> up c" "ext_fs w i = Some (t, b)" "ext_ready up c w i" "t \<noteq> 1"
    by (rule leaf_atD [OF assms(2,1)])
  then show ?thesis using ecs.write_far [of "at_rest w" up c i t b off d sz e] assms(3-5) by simp
qed

theorem far_write_throws_witness:
  "\<exists>w i. leaf_at (\<lambda>_. True) ''a'' w i [] \<and>
    yfs_write (ec_ops (\<lambda>_. True) ''a'') env0 i 1 0x100000000 [7] (at_rest w) = Inl Thrown"
proof -
  obtain w i where w: "yfs_inv w" "leaf_at (\<lambda>_. True) ''a'' w i []" by (rule new_file)
  have "unat (ucast (0x100000000 :: u64) :: u32) \<le> length []" "length [] < unat (0x100000000 :: u64)"
    "length [7 :: byte] = unat (1 :: u64)" by simp_all
  from far_write_throws [OF w this, of env0] w(2) show ?thesis by blast
qed

text \<open>
  C35. Every client that starts empties the root directory: the constructor of \<open>yfs_client\<close>
  puts an empty root whatever the file system holds. All names below the root are lost to all
  clients; the files themselves stay, without a name.
\<close>

theorem yfs_new_wipes_root:
  assumes "yfs_inv w" and "up c" and "ext_ready up c w 1"
  shows "\<exists>w'. yfs_new (ec_ops up c) e w = Inr (at_rest w') \<and>
    view (ext_fs w') = (view (ext_fs w))(1 \<mapsto> Dir [])"
proof -
  obtain es where "view (ext_fs w) 1 = Some (Dir es)"
    using assms(1) tree_okD(1) unfolding yfs_inv_def by blast
  then have "dir_at up c w 1 es" using assms by (simp add: dir_at_def)
  then obtain buf where "ext_inv w \<and> up c" "ext_fs w 1 = Some (1, buf)" "ext_ready up c w 1"
    using dir_atD [OF _ assms(1)] by blast
  from ecs.yfs_new_ok [OF this, of e] show ?thesis by auto
qed

theorem yfs_new_wipes_root_witness:
  "\<exists>w i w'. view (ext_fs w) = [i \<mapsto> Leaf 2 [], 1 \<mapsto> Dir [([97], i)]] \<and>
    yfs_new (ec_ops (\<lambda>_. True) ''a'') env0 w = Inr (at_rest w') \<and>
    view (ext_fs w') = [i \<mapsto> Leaf 2 [], 1 \<mapsto> Dir []]"
proof -
  have "length [97 :: byte] \<le> MAX_LENGTH" by simp
  then obtain i w where w: "yfs_inv w" "view (ext_fs w) = [i \<mapsto> Leaf 2 [], 1 \<mapsto> Dir [([97], i)]]" "i \<noteq> 1"
    "ext_mine ''a'' w 1" by (rule yfs_first_run [where c = "''a''"])
  have "ext_ready (\<lambda>_. True) ''a'' w 1" using dir_at_mine [OF w(1) TrueI w(4)] w(2) by (simp add: dir_at_def)
  from yfs_new_wipes_root [OF w(1) TrueI this, of env0] w(2) show ?thesis by fastforce
qed

text \<open>
  C27. The directory format round-trips: entries written by the loop of \<open>unlink\<close> take 80 bytes
  each, and reading them back, by \<open>readdir\<close> or by the search of \<open>lookup\<close>, gives the same names
  and numbers, whatever the stack held in the unused bytes.
\<close>

theorem dir_roundtrip:
  assumes "entries_ok es"
  shows "\<exists>b. rebuild e es = Inr b \<and> length b = ENTRY_BYTES * length es \<and>
    dirents (parse_dir b) = Inr (map entry_pair es) \<and>
    find_entry n (parse_dir b) = Inr (map_of (map entry_pair es) n)"
proof -
  obtain b where b: "rebuild e es = Inr b" "ENTRY_BYTES dvd length b" "entries_ok (parse_dir b)"
    "dir_list b = map entry_pair es" by (rule rebuild_ok [OF assms])
  have "length (parse_dir b) = length es" using arg_cong [OF b(4), of length] by (simp add: dir_list_def)
  then have "length b = ENTRY_BYTES * length es"
    using b(2) length_parse_dir [of b] by (metis dvd_mult_div_cancel)
  with b dirents_eq [OF b(3)] find_entry_eq [OF b(3), of n] show ?thesis by (simp add: dir_list_def)
qed

theorem dir_roundtrip_witness:
  "\<exists>b. rebuild env0 [\<lparr>en_inum = 5, en_name = replicate 64 97, en_name_length = 1\<rparr>] = Inr b \<and>
    length b = 80 \<and> find_entry [97] (parse_dir b) = Inr (Some 5)"
proof -
  let ?es = "[\<lparr>en_inum = 5, en_name = replicate 64 97, en_name_length = 1\<rparr>]"
  have "entries_ok ?es" by simp
  from dir_roundtrip [OF this, of env0 "[97]"] show ?thesis by (auto simp: entry_pair_def)
qed

end
