(* ===== verification/Fuse_Props.thy ===== *)
theory Fuse_Props
  imports Fuse Yfs_Props
begin

text \<open>
  What the FUSE handlers answer: the replies to requests that create, list and remove names,
  over any extent service and then over the one of this repository.
\<close>

section \<open>Attributes\<close>

definition mode_of :: "u16 \<Rightarrow> u32" where
  "mode_of t = (if t = 2 then S_IFREG OR 0x1B6 else if t = 1 then S_IFDIR OR 0x1FF
     else if t = 3 then S_IFLNK OR 0x1FF else 0)"

lemma scast_16_32_inj: "(scast (a :: u16) :: u32) = scast b \<longleftrightarrow> a = b"
proof
  assume "(scast a :: u32) = scast b"
  then have "(ucast (scast a :: u32) :: u16) = ucast (scast b :: u32)" by simp
  moreover have "(ucast (scast c :: u32) :: u16) = c" for c :: u16
    by (rule bit_word_eqI) (auto simp: bit_ucast_iff bit_signed_iff)
  ultimately show "a = b" by simp
qed simp

lemma scast_types:
  "(scast (t :: u16) :: u32) = T_FILE \<longleftrightarrow> t = 2" "(scast (t :: u16) :: u32) = T_DIR \<longleftrightarrow> t = 1"
  "(scast (t :: u16) :: u32) = T_SYMLINK \<longleftrightarrow> t = 3"
  using scast_16_32_inj [of t 2] scast_16_32_inj [of t 1] scast_16_32_inj [of t 3] by simp_all

lemma heap_clean_nth_call [simp]: "heap_clean (nth_call k e) = heap_clean e"
proof -
  have "heap_clean ((later ^^ n) e) = heap_clean e" for n by (induction n) simp_all
  then show ?thesis by (simp add: nth_call_def)
qed

context extent_service
begin

lemma is_type_ok:
  assumes "inv (ext s)" "fs (ext s) i = Some (t, d)" "ready (ext s) i" "i \<notin> held s"
  shows "\<exists>w. isfile x e i s = Inr (t = 2, s\<lparr>ext := w\<rparr>) \<and> inv w \<and> fs w i = Some (t, d) \<and> fs w = fs (ext s) \<and> ready w i"
    "\<exists>w. isdir x e i s = Inr (t = 1, s\<lparr>ext := w\<rparr>) \<and> inv w \<and> fs w i = Some (t, d) \<and> fs w = fs (ext s) \<and> ready w i"
    "\<exists>w. issymlink x e i s = Inr (t = 3, s\<lparr>ext := w\<rparr>) \<and> inv w \<and> fs w i = Some (t, d) \<and> fs w = fs (ext s) \<and> ready w i"
  using yfs_is_ok [OF assms, of e T_FILE] yfs_is_ok [OF assms, of e T_DIR] yfs_is_ok [OF assms, of e T_SYMLINK]
  unfolding isfile_def isdir_def issymlink_def scast_types using assms(2) by metis+

text \<open>\<open>getattr\<close> of an existing node returns its number and the mode of its type.\<close>

lemma fs_getattr_ok:
  assumes "inv (ext s)" "fs (ext s) i = Some (t, d)" "ready (ext s) i" "i \<notin> held s"
  shows "\<exists>st w. fs_getattr x e i s = Inr ((0, st), s\<lparr>ext := w\<rparr>) \<and> st_ino st = i \<and> st_mode st = mode_of t \<and>
    inv w \<and> fs w = fs (ext s) \<and> ready w i"
proof -
  obtain w1 where w1: "isfile x e i s = Inr (t = 2, s\<lparr>ext := w1\<rparr>)" "inv w1" "fs w1 i = Some (t, d)"
    "fs w1 = fs (ext s)" "ready w1 i" using is_type_ok(1) [OF assms] by blast
  let ?s1 = "s\<lparr>ext := w1\<rparr>"
  have p1: "inv (ext ?s1)" "fs (ext ?s1) i = Some (t, d)" "ready (ext ?s1) i" "i \<notin> held ?s1"
    using w1 assms(4) by simp_all
  obtain w2 where w2: "isfile x (nth_call 1 e) i ?s1 = Inr (t = 2, ?s1\<lparr>ext := w2\<rparr>)" "inv w2" "fs w2 i = Some (t, d)"
    "fs w2 = fs (ext ?s1)" "ready w2 i" using is_type_ok(1) [OF p1] by blast
  let ?s2 = "?s1\<lparr>ext := w2\<rparr>"
  have p2: "inv (ext ?s2)" "fs (ext ?s2) i = Some (t, d)" "ready (ext ?s2) i" "i \<notin> held ?s2"
    using w2 assms(4) by simp_all
  note run = fs_getattr_def Let_def w1(1) w2(1) [simplified One_nat_def]
  show ?thesis
  proof (cases "t = 2")
    case True
    obtain info w3 where "getfile x (nth_call 2 e) i (stack_fileinfo e) ?s2 = Inr ((0, info), ?s2\<lparr>ext := w3\<rparr>)"
      "inv w3" "fs w3 = fs (ext ?s2)" "ready w3 i" using getfile_ok [OF p2] by blast
    with True w1(4) w2(4) show ?thesis
      by (intro exI [of _ "stat_file (S_IFREG OR 0x1B6) info (stat_zero\<lparr>st_ino := i\<rparr>)"] exI [of _ w3])
        (simp add: run, simp add: stat_file_def mode_of_def)
  next
    case F: False
    obtain w3 where w3: "isdir x (nth_call 2 e) i ?s2 = Inr (t = 1, ?s2\<lparr>ext := w3\<rparr>)" "inv w3" "fs w3 i = Some (t, d)"
      "fs w3 = fs (ext ?s2)" "ready w3 i" using is_type_ok(2) [OF p2] by blast
    let ?s3 = "?s2\<lparr>ext := w3\<rparr>"
    have p3: "inv (ext ?s3)" "fs (ext ?s3) i = Some (t, d)" "ready (ext ?s3) i" "i \<notin> held ?s3"
      using w3 assms(4) by simp_all
    show ?thesis
    proof (cases "t = 1")
      case True
      obtain info w4 where "getdir x (nth_call 3 e) i (stack_dirinfo e) ?s3 = Inr ((0, info), ?s3\<lparr>ext := w4\<rparr>)"
        "inv w4" "fs w4 = fs (ext ?s3)" "ready w4 i" using getdir_ok [OF p3] by blast
      with F True w1(4) w2(4) w3(1,4) show ?thesis
        by (intro exI [of _ "stat_dir info (stat_zero\<lparr>st_ino := i\<rparr>)"] exI [of _ w4])
          (simp add: run, simp add: stat_dir_def mode_of_def)
    next
      case D: False
      obtain w4 where w4: "issymlink x (nth_call 3 e) i ?s3 = Inr (t = 3, ?s3\<lparr>ext := w4\<rparr>)" "inv w4"
        "fs w4 i = Some (t, d)" "fs w4 = fs (ext ?s3)" "ready w4 i" using is_type_ok(3) [OF p3] by blast
      let ?s4 = "?s3\<lparr>ext := w4\<rparr>"
      have p4: "inv (ext ?s4)" "fs (ext ?s4) i = Some (t, d)" "ready (ext ?s4) i" "i \<notin> held ?s4"
        using w4 assms(4) by simp_all
      obtain info w5 where "getfile x (nth_call 4 e) i (stack_fileinfo e) ?s4 = Inr ((0, info), ?s4\<lparr>ext := w5\<rparr>)"
        "inv w5" "fs w5 = fs (ext ?s4)" "ready w5 i" using getfile_ok [OF p4] by blast
      with F D w1(4) w2(4) w3(1,4) w4(1,2,4,5) show ?thesis
        by (cases "t = 3") (simp_all add: run, simp_all add: stat_file_def stat_zero_def mode_of_def, blast+)
    qed
  qed
qed

end

section \<open>Listings\<close>

text \<open>The bytes of a listing: the entries one after the other, each with the offset after it.\<close>

fun listing ::
    "(nat \<Rightarrow> nat) \<Rightarrow> (byte list \<Rightarrow> stat \<Rightarrow> u64 \<Rightarrow> byte list) \<Rightarrow> nat \<Rightarrow> (byte list \<times> inum) list \<Rightarrow> byte list" where
  "listing dsize add k [] = []"
| "listing dsize add k ((n, i) # ds) =
     (let k' = k + dsize (length (c_str n))
      in add (c_str n) (stat_zero\<lparr>st_ino := i\<rparr>) (word_of_nat k') @ listing dsize add k' ds)"

lemma length_listing:
  assumes "\<And>n st k. length (add n st k) = dsize (length n)"
  shows "length (listing dsize add k ds) = (\<Sum>(n, i) \<leftarrow> ds. dsize (length (c_str n)))"
  by (induction ds arbitrary: k) (auto simp: Let_def assms)

lemma dirbuf_add_ok:
  assumes "length (db_p b) = unat (db_size b)" "length (add n (stat_zero\<lparr>st_ino := i\<rparr>) (db_size b + word_of_nat (dsize (length n)))) = dsize (length n)"
    and "unat (db_size b) + dsize (length n) < 2 ^ 64"
  shows "\<exists>b'. dirbuf_add dsize add e n i b = Inr b' \<and>
    db_p b' = db_p b @ add n (stat_zero\<lparr>st_ino := i\<rparr>) (db_size b + word_of_nat (dsize (length n))) \<and>
    unat (db_size b') = unat (db_size b) + dsize (length n)"
proof -
  have sz: "unat (db_size b + word_of_nat (dsize (length n))) = unat (db_size b) + dsize (length n)"
    using assms(3) by (simp add: unat_word_ariths unat_of_nat)
  show ?thesis
    using assms(1,2) by (simp add: dirbuf_add_def Let_def sz memcpy_def malloc_def)
qed

lemma dirbuf_add_all:
  assumes "\<And>n st k. length (add n st k) = dsize (length n)"
    and "length (db_p b) = unat (db_size b)"
    and "unat (db_size b) + (\<Sum>(n, i) \<leftarrow> ds. dsize (length (c_str n))) < 2 ^ 64"
  shows "\<exists>b'. for_each (\<lambda>(n, i) b. dirbuf_add dsize add e (c_str n) i b) ds b = Inr b' \<and>
    db_p b' = db_p b @ listing dsize add (unat (db_size b)) ds \<and> length (db_p b') = unat (db_size b')"
  using assms(2,3)
proof (induction ds arbitrary: b)
  case (Cons d ds)
  obtain n i where d: "d = (n, i)" by (cases d)
  have k: "unat (db_size b) + dsize (length (c_str n)) < 2 ^ 64" using Cons.prems(2) d by simp
  obtain b1 where b1: "dirbuf_add dsize add e (c_str n) i b = Inr b1"
    "db_p b1 = db_p b @ add (c_str n) (stat_zero\<lparr>st_ino := i\<rparr>) (db_size b + word_of_nat (dsize (length (c_str n))))"
    "unat (db_size b1) = unat (db_size b) + dsize (length (c_str n))"
    using dirbuf_add_ok [of b add "c_str n" i dsize e, OF Cons.prems(1) assms(1) k] by blast
  have "length (db_p b1) = unat (db_size b1)" using b1(2,3) Cons.prems(1) assms(1) by simp
  moreover have "unat (db_size b1) + (\<Sum>(n, i) \<leftarrow> ds. dsize (length (c_str n))) < 2 ^ 64"
    using Cons.prems(2) d b1(3) by simp
  ultimately obtain b2 where "for_each (\<lambda>(n, i) b. dirbuf_add dsize add e (c_str n) i b) ds b1 = Inr b2"
    "db_p b2 = db_p b1 @ listing dsize add (unat (db_size b1)) ds" "length (db_p b2) = unat (db_size b2)"
    using Cons.IH by blast
  with b1 d show ?case by (simp add: Let_def)
qed simp

lemma reply_buf_limited_ok:
  assumes "length buf = unat bufsize"
  shows "reply_buf_limited buf bufsize off maxsize = Inr (R_buf (take (unat maxsize) (drop (unat off) buf)))"
proof (cases "off < bufsize")
  case True
  then have "unat (bufsize - off) = unat bufsize - unat off" by (simp add: unat_sub less_imp_le)
  with True assms show ?thesis by (auto simp: reply_buf_limited_def word_less_nat_alt)
next
  case False
  with assms show ?thesis by (simp add: reply_buf_limited_def word_less_nat_alt)
qed

section \<open>Properties\<close>

text \<open>
  C23. The reply to a FUSE create: for a new name, an entry with the number of the new file and
  the attributes of an empty regular file, and the file is in the tree under that name; for a
  name that exists, \<open>EEXIST\<close>, and the tree is as before. In both cases no lock is kept.
\<close>

theorem fuse_create_reply:
  assumes "yfs_inv w" and "dir_at up c w p es" and "can_add w e n"
  shows "\<exists>r w'. fuseserver_create (ec_ops up c) e p n (at_rest w) = Inr (r, at_rest w') \<and>
    (case map_of es n of
       Some j \<Rightarrow> r = R_err EEXIST \<and> view (ext_fs w') = view (ext_fs w)
     | None \<Rightarrow> \<exists>q. r = R_create q \<and> view (ext_fs w) (ep_ino q) = None \<and>
         st_ino (ep_attr q) = ep_ino q \<and> st_mode (ep_attr q) = S_IFREG OR 0x1B6 \<and>
         ep_generation q = 0 \<and> ep_attr_timeout q = 0 \<and> ep_entry_timeout q = 0 \<and>
         view (ext_fs w') = (view (ext_fs w))(ep_ino q \<mapsto> Leaf 2 [], p \<mapsto> Dir (es @ [(n, ep_ino q)])))"
proof (cases "map_of es n")
  case None
  have ty: "(ucast T_FILE :: u16) \<noteq> 0" "(ucast T_FILE :: u16) = 2" by simp_all
  have vp: "view (ext_fs w) p = Some (Dir es)" "up c" using assms(2) by (simp_all add: dir_at_def)
  obtain i w1 where c: "create_node (ec_ops up c) e T_FILE p n (stack_u64 e 0) (at_rest w) = Inr ((0, i), at_rest w1)"
    "sim w (F_create T_FILE p n i) w1" "ext_ready up c w1 i" by (rule create_at [OF assms(1-3) ty(1) None])
  have i: "view (ext_fs w) i = None"
    "view (ext_fs w1) = (view (ext_fs w))(i \<mapsto> Leaf 2 [], p \<mapsto> Dir (es @ [(n, i)]))"
    using c(2) vp(1) None by (auto simp: sim_def node_of_def split: if_splits)
  have "i \<noteq> p" using i(1) vp(1) by (metis option.distinct(1))
  then have "view (ext_fs w1) i = Some (Leaf 2 [])" using i(2) by simp
  then have f: "ext_fs w1 i = Some (2, [])" by (auto simp: view_def node_of_def split: if_splits)
  have inv: "ext_inv (ext (at_rest w1)) \<and> up c" "ext_fs (ext (at_rest w1)) i = Some (2, [])"
    "ext_ready up c (ext (at_rest w1)) i" "i \<notin> held (at_rest w1)"
    using c(2,3) vp(2) f by (simp_all add: sim_def)
  obtain st w2 where g: "fs_getattr (ec_ops up c) (nth_call 1 e) i (at_rest w1) = Inr ((0, st), at_rest w2)"
    "st_ino st = i" "st_mode st = mode_of 2" "ext_fs w2 = ext_fs w1"
    using ecs.fs_getattr_ok [OF inv, of "nth_call 1 e"] by auto
  then show ?thesis
    using c(1) i None by (simp add: fuseserver_create_def fuseserver_createhelper_def create_def mode_of_def)
next
  case (Some j)
  obtain buf where pre: "ext_inv w \<and> up c" "ext_fs w p = Some (1, buf)" "ext_ready up c w p" "dir_ok buf"
    and es: "es = dir_list buf" by (rule dir_atD [OF assms(2,1)])
  obtain w' where "create_node (ec_ops up c) e T_FILE p n (stack_u64 e 0) (at_rest w) =
      Inr ((4, stack_u64 e 0), at_rest w')" "ext_fs w' = ext_fs w"
    using ecs.create_node_exists [of "at_rest w" up c p buf n j e T_FILE "stack_u64 e 0"] pre Some es by auto
  with Some show ?thesis
    by (simp add: fuseserver_create_def fuseserver_createhelper_def create_def create_error_def)
qed

theorem fuse_create_reply_witness:
  "\<exists>w q w'. fuseserver_create (ec_ops (\<lambda>_. True) ''a'') env0 1 [97] (at_rest w) = Inr (R_create q, at_rest w') \<and>
    st_mode (ep_attr q) = 0x81B6 \<and> view (ext_fs w') = [ep_ino q \<mapsto> Leaf 2 [], 1 \<mapsto> Dir [([97], ep_ino q)]]"
proof -
  obtain w where w: "yfs_inv w" "ext_fs w = [1 \<mapsto> (1, [])]" "ext_room w" "ext_mine ''a'' w 1"
    by (rule yfs_boot)
  have v: "view (ext_fs w) = [1 \<mapsto> Dir []]" using w(2) by (auto simp: view_def fun_eq_iff)
  then have d: "dir_at (\<lambda>_. True) ''a'' w 1 []" using dir_at_mine [OF w(1) TrueI w(4)] by simp
  have "can_add w env0 [97]" using w(3) by (simp add: can_add_def)
  from fuse_create_reply [OF w(1) d this] obtain q w' where
    "fuseserver_create (ec_ops (\<lambda>_. True) ''a'') env0 1 [97] (at_rest w) = Inr (R_create q, at_rest w')"
    "st_mode (ep_attr q) = S_IFREG OR 0x1B6" "view (ext_fs w') = [ep_ino q \<mapsto> Leaf 2 [], 1 \<mapsto> Dir [([97], ep_ino q)]]"
    using v by (auto simp: fun_upd_twist)
  then show ?thesis by (auto simp: S_IFREG_def)
qed

text \<open>
  C24. The reply to a FUSE readdir: the requested slice of the listing of the directory, in
  which the entries stand one after the other, each followed by the offset of the next. The
  layout of one entry is libfuse's; it is assumed to fill the size \<open>fuse_dirent_size\<close> gives.
\<close>

theorem fuse_readdir_reply:
  assumes "yfs_inv w" and "dir_at up c w p es"
    and "\<And>n st k. length (add n st k) = dsize (length n)"
    and "(\<Sum>(n, i) \<leftarrow> es. dsize (length (c_str n))) < 2 ^ 64"
  shows "\<exists>w'. fuseserver_readdir dsize add (ec_ops up c) e p sz off (at_rest w) =
      Inr (R_buf (take (unat sz) (drop (unat off) (listing dsize add 0 es))), at_rest w') \<and>
    view (ext_fs w') = view (ext_fs w)"
proof -
  obtain buf where pre: "ext_inv w \<and> up c" "ext_fs w p = Some (1, buf)" "ext_ready up c w p" "dir_ok buf"
    and es: "es = dir_list buf" by (rule dir_atD [OF assms(2,1)])
  obtain w1 where w1: "isdir (ec_ops up c) e p (at_rest w) = Inr (True, at_rest w1)" "ext_inv w1 \<and> up c"
    "ext_fs w1 p = Some (1, buf)" "ext_fs w1 = ext_fs w" "ext_ready up c w1 p"
    using ecs.is_type_ok(2) [of "at_rest w" up c p 1 buf e] pre by auto
  obtain w2 where w2: "readdir (ec_ops up c) (nth_call 1 e) p (at_rest w1) = Inr ((0, es), at_rest w2)"
    "ext_fs w2 = ext_fs w1"
    using ecs.readdir_ok [of "at_rest w1" up c p buf "nth_call 1 e"] w1 pre(4) es by auto
  obtain b where b: "for_each (\<lambda>(n, i) b. dirbuf_add dsize add e (c_str n) i b) es \<lparr>db_p = [], db_size = 0\<rparr> = Inr b"
    "db_p b = listing dsize add 0 es" "length (db_p b) = unat (db_size b)"
    using dirbuf_add_all [of add dsize "\<lparr>db_p = [], db_size = 0\<rparr>" es e] assms(3,4) by auto
  show ?thesis
    using w1(1,4) w2 b reply_buf_limited_ok [OF b(3), of off sz]
    by (intro exI [of _ w2]) (simp add: fuseserver_readdir_def)
qed

theorem fuse_readdir_reply_witness:
  "\<exists>w i w'. view (ext_fs w) 1 = Some (Dir [([97], i)]) \<and>
    fuseserver_readdir (\<lambda>n. n) (\<lambda>n st k. n) (ec_ops (\<lambda>_. True) ''a'') env0 1 10 0 (at_rest w) =
      Inr (R_buf [97], at_rest w')"
proof -
  have "length [97 :: byte] \<le> MAX_LENGTH" by simp
  then obtain i w where w: "yfs_inv w" "view (ext_fs w) = [i \<mapsto> Leaf 2 [], 1 \<mapsto> Dir [([97], i)]]"
    "ext_mine ''a'' w 1" by (rule yfs_first_run [where c = "''a''"])
  have d: "dir_at (\<lambda>_. True) ''a'' w 1 [([97], i)]" using dir_at_mine [OF w(1) TrueI w(3)] w(2) by simp
  have h: "\<And>n st k. length ((\<lambda>n (st :: stat) (k :: u64). n) n st k) = (\<lambda>n. n) (length (n :: byte list))"
    "(\<Sum>(n, i) \<leftarrow> [([97 :: byte], i)]. (\<lambda>n. n) (length (c_str n))) < 2 ^ 64" by (simp_all add: c_str_def)
  have "listing (\<lambda>n. n) (\<lambda>n st k. n) 0 [([97], i)] = [97]" by (simp add: c_str_def)
  with fuse_readdir_reply [OF w(1) d h, of env0 10 0] have "\<exists>w'. fuseserver_readdir (\<lambda>n. n) (\<lambda>n st k. n)
      (ec_ops (\<lambda>_. True) ''a'') env0 1 10 0 (at_rest w) = Inr (R_buf [97], at_rest w')" by auto
  moreover have "view (ext_fs w) 1 = Some (Dir [([97], i)])" using w(2) by simp
  ultimately show ?thesis by blast
qed

text \<open>
  C39. Unlinking a directory is not refused: a FUSE unlink of a name that leads to a directory
  answers with success and removes it, whatever it holds; what was in it stays in the file
  system without a name.
\<close>

theorem fuse_unlink_directory:
  assumes "yfs_inv w" and "dir_at up c w p es" and "map_of es n = Some i"
    and "view (ext_fs w) i = Some (Dir ds)" and "ext_reach up w i"
  shows "\<exists>w'. fuseserver_unlink (ec_ops up c) e p n (at_rest w) = Inr (R_err 0, at_rest w') \<and>
    view (ext_fs w') i = None \<and>
    (\<forall>m j. (m, j) \<in> set ds \<longrightarrow> j \<noteq> p \<longrightarrow>
       view (ext_fs w') j \<noteq> None \<and> (\<forall>q k. \<not> edge (view (ext_fs w')) q k j))"
proof -
  let ?v = "view (ext_fs w)"
  have ok: "tree_ok ?v" using assms(1) by (simp add: yfs_inv_def)
  have vp: "?v p = Some (Dir es)" using assms(2) by (simp add: dir_at_def)
  obtain w' where w': "unlink (ec_ops up c) e p n (at_rest w) = Inr (0, at_rest w')"
    and v': "view (ext_fs w') = ?v(i := None, p \<mapsto> Dir (remove_first n es))" and ip: "i \<noteq> p"
    by (rule unlink_at [OF assms(1-3,5)])
  have "view (ext_fs w') j \<noteq> None \<and> \<not> edge (view (ext_fs w')) q k j" if "(m, j) \<in> set ds" "j \<noteq> p" for m j q k
  proof -
    have e: "edge ?v i m j" using assms(4) that(1) by (simp add: edge_def)
    then have "?v j \<noteq> None" "j \<noteq> i" using tree_okD(3) [OF ok e] by auto
    moreover have "q \<noteq> i \<and> edge ?v q k j" if "edge (view (ext_fs w')) q k j"
      using that v' vp ip remove_first_subset [of n es] by (auto simp: edge_upd edge_def split: if_splits)
    ultimately show ?thesis using tree_okD(4) [OF ok _ e] v' that(2) by auto
  qed
  then show ?thesis using w' v' ip by (intro exI [of _ w']) (auto simp: fuseserver_unlink_def)
qed

theorem fuse_unlink_directory_witness:
  "\<exists>w i w'. view (ext_fs w) i = Some (Dir []) \<and> edge (view (ext_fs w)) 1 [97] i \<and>
    fuseserver_unlink (ec_ops (\<lambda>_. True) ''a'') env0 1 [97] (at_rest w) = Inr (R_err 0, at_rest w') \<and>
    view (ext_fs w') i = None"
proof -
  let ?up = "\<lambda>_ :: cid. True"
  obtain w where w: "yfs_inv w" "ext_fs w = [1 \<mapsto> (1, [])]" "ext_room w" "ext_mine ''a'' w 1"
    by (rule yfs_boot)
  have v: "view (ext_fs w) = [1 \<mapsto> Dir []]" using w(2) by (auto simp: view_def fun_eq_iff)
  then have d: "dir_at ?up ''a'' w 1 []" using dir_at_mine [OF w(1) TrueI w(4)] by simp
  have add: "can_add w env0 [97]" using w(3) by (simp add: can_add_def)
  have ty: "(ucast T_DIR :: u16) \<noteq> 0" "(ucast T_DIR :: u16) = 1" by simp_all
  obtain i w1 where c: "sim w (F_create T_DIR 1 [97] i) w1" "ext_mine ''a'' w1 1"
    by (rule create_at [OF w(1) d add ty(1)]) simp
  have inv1: "yfs_inv w1" by (rule sim_inv [OF w(1) c(1)])
  have i: "i \<noteq> 1" and v1: "view (ext_fs w1) = [i \<mapsto> Dir [], 1 \<mapsto> Dir [([97], i)]]"
    using c(1) v by (auto simp: sim_def node_of_def split: if_splits)
  have d1: "dir_at ?up ''a'' w1 1 [([97], i)]" using dir_at_mine [OF inv1 TrueI c(2)] v1 by simp
  have vi: "view (ext_fs w1) i = Some (Dir [])" using v1 i by simp
  then obtain t x where "ext_fs w1 i = Some (t, x)" by (auto simp: view_def)
  then have r: "ext_reach ?up w1 i" using contents_SomeD by (auto simp: ext_reach_def)
  have "map_of [([97 :: byte], i)] [97] = Some i" by simp
  moreover have "edge (view (ext_fs w1)) 1 [97] i" using v1 by (simp add: edge_def)
  ultimately show ?thesis using fuse_unlink_directory [OF inv1 d1 _ vi r, of "[97]" env0] vi by blast
qed

end
