(* ===== verification/Handle.thy ===== *)
theory Handle
  imports Prelude "HOL-Library.Multiset"
begin

text \<open>
  The cache of RPC connections of \<open>handle.cc\<close>: \<open>handle_mgr\<close> keeps one \<open>hinfo\<close> per destination,
  shared by the \<open>handle\<close> objects for it and counted by \<open>refcnt\<close>. The \<open>hinfo\<close> objects live in an
  explicit store, so that a use after \<open>delete\<close> is a fault of the model. Whether a \<open>bind\<close>
  succeeds is a parameter.
\<close>

section \<open>State\<close>

type_synonym addr = nat
type_synonym rpcc = nat

record hinfo =
  hi_cl :: "rpcc option"
  hi_refcnt :: int
  hi_del :: bool
  hi_m :: string

record handle_mgr =
  hmap :: "string \<rightharpoonup> addr"
  hstore :: "addr \<rightharpoonup> hinfo"
  hnext :: addr

definition handle_mgr_new :: handle_mgr where
  "handle_mgr_new = \<lparr>hmap = Map.empty, hstore = Map.empty, hnext = 0\<rparr>"

definition deref :: "addr \<Rightarrow> (hinfo \<Rightarrow> 'a res) \<Rightarrow> handle_mgr \<Rightarrow> 'a res" where
  "deref a f g = (case hstore g a of None \<Rightarrow> Inl Dangling | Some h \<Rightarrow> f h)"

definition assign :: "addr \<Rightarrow> hinfo \<Rightarrow> handle_mgr \<Rightarrow> handle_mgr" where
  "assign a h g = g\<lparr>hstore := (hstore g)(a \<mapsto> h)\<rparr>"

section \<open>Operations\<close>

definition get_handle :: "string \<Rightarrow> handle_mgr \<Rightarrow> (addr option \<times> handle_mgr) res" where
  "get_handle m g =
     (case hmap g m of
        None \<Rightarrow>
          let h = \<lparr>hi_cl = None, hi_refcnt = 1, hi_del = False, hi_m = m\<rparr>; a = hnext g
          in Inr (Some a, g\<lparr>hmap := (hmap g)(m \<mapsto> a), hstore := (hstore g)(a \<mapsto> h), hnext := Suc a\<rparr>)
      | Some a \<Rightarrow> deref a (\<lambda>h.
          if \<not> hi_del h then Inr (Some a, assign a (h\<lparr>hi_refcnt := hi_refcnt h + 1\<rparr>) g)
          else Inr (None, g)) g)"

definition delete_handle_wo :: "string \<Rightarrow> handle_mgr \<Rightarrow> handle_mgr res" where
  "delete_handle_wo m g =
     (case hmap g m of
        None \<Rightarrow> Inr g
      | Some a \<Rightarrow> deref a (\<lambda>h.
          if hi_refcnt h = 0
          then Inr (g\<lparr>hmap := (hmap g)(m := None), hstore := (hstore g)(a := None)\<rparr>)
          else Inr (assign a (h\<lparr>hi_del := True\<rparr>) g)) g)"

definition delete_handle :: "string \<Rightarrow> handle_mgr \<Rightarrow> handle_mgr res" where
  "delete_handle m g = delete_handle_wo m g"

definition done_handle :: "addr \<Rightarrow> handle_mgr \<Rightarrow> handle_mgr res" where
  "done_handle a g =
     deref a (\<lambda>h.
       let h = h\<lparr>hi_refcnt := hi_refcnt h - 1\<rparr>; g = assign a h g
       in if hi_refcnt h = 0 \<and> hi_del h then delete_handle_wo (hi_m h) g else Inr g) g"

text \<open>The methods of \<open>handle\<close>; \<open>h\<close> is its pointer, \<open>cl\<close> the connection made, \<open>ret\<close> what \<open>bind\<close> returns.\<close>

definition handle_new :: "string \<Rightarrow> handle_mgr \<Rightarrow> (addr option \<times> handle_mgr) res" where
  "handle_new m g = get_handle m g"

definition safebind :: "rpcc \<Rightarrow> int \<Rightarrow> addr option \<Rightarrow> handle_mgr \<Rightarrow> (rpcc option \<times> handle_mgr) res" where
  "safebind cl ret h g =
     (case h of
        None \<Rightarrow> Inr (None, g)
      | Some a \<Rightarrow> deref a (\<lambda>i.
          if hi_del i then Inr (None, g)
          else case hi_cl i of
            Some c \<Rightarrow> Inr (Some c, g)
          | None \<Rightarrow>
              if ret < 0 then Inr (None, assign a (i\<lparr>hi_del := True\<rparr>) g)
              else Inr (Some cl, assign a (i\<lparr>hi_cl := Some cl\<rparr>) g)) g)"

definition handle_delete :: "addr option \<Rightarrow> handle_mgr \<Rightarrow> handle_mgr res" where
  "handle_delete h g = (case h of None \<Rightarrow> Inr g | Some a \<Rightarrow> done_handle a g)"

section \<open>Runs\<close>

text \<open>
  The state with the pointers of the handle objects that exist. Handles are made and destroyed
  in any order, \<open>delete_handle\<close> may be called for any destination.
\<close>

type_synonym handle_sys = "handle_mgr \<times> addr multiset"

inductive handle_step :: "handle_sys \<Rightarrow> handle_sys \<Rightarrow> bool" where
  hs_new: "handle_new m g = Inr (Some a, g') \<Longrightarrow> handle_step (g, live) (g', add_mset a live)"
| hs_null: "handle_new m g = Inr (None, g') \<Longrightarrow> handle_step (g, live) (g', live)"
| hs_bind: "a \<in># live \<Longrightarrow> safebind cl ret (Some a) g = Inr (r, g') \<Longrightarrow> handle_step (g, live) (g', live)"
| hs_destroy: "a \<in># live \<Longrightarrow> handle_delete (Some a) g = Inr g' \<Longrightarrow> handle_step (g, live) (g', live - {#a#})"
| hs_delete: "delete_handle m g = Inr g' \<Longrightarrow> handle_step (g, live) (g', live)"

inductive handle_reach :: "handle_sys \<Rightarrow> bool" where
  hr_init: "handle_reach (handle_mgr_new, {#})"
| hr_step: "handle_reach s \<Longrightarrow> handle_step s s' \<Longrightarrow> handle_reach s'"

inductive_cases handle_stepE: "handle_step s s'"

text \<open>
  The map and the store fit together, and the reference count of an object is the number of
  handles that point to it.
\<close>

definition handle_inv :: "handle_sys \<Rightarrow> bool" where
  "handle_inv s \<longleftrightarrow> (case s of (g, live) \<Rightarrow>
     (\<forall>m a. hmap g m = Some a \<longrightarrow> (\<exists>h. hstore g a = Some h \<and> hi_m h = m)) \<and>
     (\<forall>a h. hstore g a = Some h \<longrightarrow> hmap g (hi_m h) = Some a \<and> a < hnext g \<and> hi_refcnt h = int (count live a)) \<and>
     (\<forall>a. a \<in># live \<longrightarrow> hstore g a \<noteq> None))"

lemma handle_invD:
  assumes "handle_inv (g, live)"
  shows "hmap g m = Some a \<Longrightarrow> \<exists>h. hstore g a = Some h \<and> hi_m h = m"
    "hstore g a = Some h \<Longrightarrow> hmap g (hi_m h) = Some a \<and> a < hnext g \<and> hi_refcnt h = int (count live a)"
    "a \<in># live \<Longrightarrow> \<exists>h. hstore g a = Some h"
  using assms unfolding handle_inv_def by auto

lemma handle_invI:
  assumes "\<And>m a. hmap g m = Some a \<Longrightarrow> \<exists>h. hstore g a = Some h \<and> hi_m h = m"
    "\<And>a h. hstore g a = Some h \<Longrightarrow> hmap g (hi_m h) = Some a \<and> a < hnext g \<and> hi_refcnt h = int (count live a)"
    "\<And>a. a \<in># live \<Longrightarrow> hstore g a \<noteq> None"
  shows "handle_inv (g, live)"
  using assms unfolding handle_inv_def by auto

text \<open>Changing an object without its name, together with its count.\<close>

lemma inv_assign:
  assumes "handle_inv (g, live)" "hstore g a = Some h" "hi_m h' = hi_m h"
    "hi_refcnt h' = int (count live' a)" "\<And>b. b \<noteq> a \<Longrightarrow> count live' b = count live b"
  shows "handle_inv (assign a h' g, live')"
proof (rule handle_invI)
  fix b assume "b \<in># live'"
  then have "b = a \<or> b \<in># live" using assms(5) by (metis count_greater_zero_iff)
  then show "hstore (assign a h' g) b \<noteq> None" using handle_invD(3) [OF assms(1)] by (auto simp: assign_def)
next
  fix m b assume "hmap (assign a h' g) m = Some b"
  then show "\<exists>h. hstore (assign a h' g) b = Some h \<and> hi_m h = m"
    using handle_invD(1) [OF assms(1), of m b] assms(2,3) by (auto simp: assign_def)
next
  fix b i assume "hstore (assign a h' g) b = Some i"
  then show "hmap (assign a h' g) (hi_m i) = Some b \<and> b < hnext (assign a h' g) \<and> hi_refcnt i = int (count live' b)"
    using handle_invD(2) [OF assms(1)] assms(2-5) by (auto simp: assign_def split: if_splits)
qed

lemma delete_inv:
  assumes "handle_inv (g, live)"
  shows "\<exists>g'. delete_handle_wo m g = Inr g' \<and> handle_inv (g', live)"
proof (cases "hmap g m")
  case (Some a)
  then obtain h where h: "hstore g a = Some h" "hi_m h = m" using handle_invD(1) [OF assms] by blast
  have c: "hi_refcnt h = int (count live a)" using handle_invD(2) [OF assms h(1)] by simp
  show ?thesis
  proof (cases "hi_refcnt h = 0")
    case True
    let ?g = "g\<lparr>hmap := (hmap g)(m := None), hstore := (hstore g)(a := None)\<rparr>"
    have dead: "a \<notin># live" using True c by (simp add: count_eq_zero_iff)
    have "handle_inv (?g, live)"
    proof (rule handle_invI)
      fix k b assume *: "hmap ?g k = Some b"
      then have k: "k \<noteq> m" "hmap g k = Some b" by (auto split: if_splits)
      then obtain i where "hstore g b = Some i" "hi_m i = k" using handle_invD(1) [OF assms] by blast
      moreover have "b \<noteq> a" using calculation h k(1) by auto
      ultimately show "\<exists>h. hstore ?g b = Some h \<and> hi_m h = k" by simp
    next
      fix b i assume *: "hstore ?g b = Some i"
      then have b: "b \<noteq> a" "hstore g b = Some i" by (auto split: if_splits)
      then have "hi_m i \<noteq> m" using handle_invD(2) [OF assms b(2)] Some by auto
      then show "hmap ?g (hi_m i) = Some b \<and> b < hnext ?g \<and> hi_refcnt i = int (count live b)"
        using handle_invD(2) [OF assms b(2)] by simp
    next
      fix b assume "b \<in># live"
      then show "hstore ?g b \<noteq> None" using handle_invD(3) [OF assms, of b] dead by auto
    qed
    then show ?thesis using True Some h by (simp add: delete_handle_wo_def deref_def)
  next
    case False
    have "handle_inv (assign a (h\<lparr>hi_del := True\<rparr>) g, live)"
      using c by (intro inv_assign [OF assms h(1)]) simp_all
    then show ?thesis using False Some h by (simp add: delete_handle_wo_def deref_def)
  qed
qed (simp add: delete_handle_wo_def assms)

lemma get_inv:
  assumes "handle_inv (g, live)"
  shows "\<exists>r g'. get_handle m g = Inr (r, g') \<and>
    handle_inv (g', case r of None \<Rightarrow> live | Some a \<Rightarrow> add_mset a live)"
proof (cases "hmap g m")
  case None
  let ?h = "\<lparr>hi_cl = None, hi_refcnt = 1, hi_del = False, hi_m = m\<rparr>"
  let ?g = "g\<lparr>hmap := (hmap g)(m \<mapsto> hnext g), hstore := (hstore g)(hnext g \<mapsto> ?h), hnext := Suc (hnext g)\<rparr>"
  have new: "hstore g (hnext g) = None" using handle_invD(2) [OF assms, of "hnext g"] by (cases "hstore g (hnext g)") auto
  then have "hnext g \<notin># live" using handle_invD(3) [OF assms] by fastforce
  then have "handle_inv (?g, add_mset (hnext g) live)"
    using handle_invD [OF assms] None new
    by (intro handle_invI) (fastforce simp: count_eq_zero_iff split: if_splits)+
  then show ?thesis using None by (simp add: get_handle_def Let_def)
next
  case (Some a)
  then obtain h where h: "hstore g a = Some h" using handle_invD(1) [OF assms] by blast
  have "handle_inv (assign a (h\<lparr>hi_refcnt := hi_refcnt h + 1\<rparr>) g, add_mset a live)"
    using handle_invD(2) [OF assms h] by (intro inv_assign [OF assms h]) simp_all
  then show ?thesis using Some h assms by (cases "hi_del h") (simp_all add: get_handle_def deref_def)
qed

lemma done_inv:
  assumes "handle_inv (g, live)" "a \<in># live"
  shows "\<exists>g'. done_handle a g = Inr g' \<and> handle_inv (g', live - {#a#})"
proof -
  obtain h where h: "hstore g a = Some h" using handle_invD(3) [OF assms] by blast
  let ?g = "assign a (h\<lparr>hi_refcnt := hi_refcnt h - 1\<rparr>) g"
  have "handle_inv (?g, live - {#a#})"
    using handle_invD(2) [OF assms(1) h] assms(2)
    by (intro inv_assign [OF assms(1) h]) (simp_all add: of_nat_diff Suc_le_eq)
  with delete_inv [OF this, of "hi_m h"] h show ?thesis by (auto simp: done_handle_def deref_def Let_def)
qed

lemma safebind_inv:
  assumes "handle_inv (g, live)" "a \<in># live"
  shows "\<exists>r g'. safebind cl ret (Some a) g = Inr (r, g') \<and> handle_inv (g', live)"
proof -
  obtain h where h: "hstore g a = Some h" using handle_invD(3) [OF assms] by blast
  have "handle_inv (assign a (h\<lparr>hi_del := True\<rparr>) g, live)" "handle_inv (assign a (h\<lparr>hi_cl := Some cl\<rparr>) g, live)"
    using handle_invD(2) [OF assms(1) h] by (auto intro!: inv_assign [OF assms(1) h])
  with h assms(1) show ?thesis by (auto simp: safebind_def deref_def split: option.splits)
qed

lemma handle_step_inv: "handle_step s s' \<Longrightarrow> handle_inv s \<Longrightarrow> handle_inv s'"
proof (induction rule: handle_step.induct)
  case (hs_new m g a g' live)
  with get_inv [of g live m] show ?case by (simp add: handle_new_def)
next
  case (hs_null m g g' live)
  with get_inv [of g live m] show ?case by (simp add: handle_new_def)
next
  case (hs_bind a live cl ret g r g')
  with safebind_inv [of g live a cl ret] show ?case by auto
next
  case (hs_destroy a live g g')
  with done_inv [of g live a] show ?case by (auto simp: handle_delete_def)
next
  case (hs_delete m g g' live)
  with delete_inv [of g live m] show ?case by (auto simp: delete_handle_def)
qed

lemma handle_reach_inv: "handle_reach s \<Longrightarrow> handle_inv s"
proof (induction rule: handle_reach.induct)
  case hr_init
  then show ?case by (rule handle_invI) (simp_all add: handle_mgr_new_def)
next
  case (hr_step s s')
  then show ?case using handle_step_inv by blast
qed

section \<open>Properties\<close>

text \<open>
  C20. No handle outlives its connection: however handles are made, bound, destroyed and marked
  for deletion, the object a handle points to exists, its reference count is the number of
  handles that point to it, and none of \<open>safebind\<close>, the destructor, \<open>get_handle\<close> and
  \<open>delete_handle\<close> touches a deleted object.
\<close>

theorem handle_no_dangling:
  assumes "handle_reach (g, live)" and "a \<in># live"
  shows "(\<exists>h. hstore g a = Some h \<and> hi_refcnt h = int (count live a)) \<and>
    (\<exists>x. safebind cl ret (Some a) g = Inr x) \<and> (\<exists>x. handle_delete (Some a) g = Inr x) \<and>
    (\<exists>x. get_handle m g = Inr x) \<and> (\<exists>x. delete_handle m g = Inr x)"
proof -
  have inv: "handle_inv (g, live)" by (rule handle_reach_inv [OF assms(1)])
  obtain h where "hstore g a = Some h" using handle_invD(3) [OF inv assms(2)] by blast
  with handle_invD(2) [OF inv] safebind_inv [OF inv assms(2), of cl ret] done_inv [OF inv assms(2)]
    get_inv [OF inv, of m] delete_inv [OF inv, of m]
  show ?thesis by (auto simp: handle_delete_def delete_handle_def)
qed

theorem handle_no_dangling_witness:
  "\<exists>g x. get_handle ''h'' handle_mgr_new = Inr (Some 0, g) \<and> handle_delete (Some 0) g = Inr x"
proof -
  let ?g = "\<lparr>hmap = [''h'' \<mapsto> 0], hstore = [0 \<mapsto> \<lparr>hi_cl = None, hi_refcnt = 1, hi_del = False, hi_m = ''h''\<rparr>], hnext = 1\<rparr>"
  have g: "get_handle ''h'' handle_mgr_new = Inr (Some 0, ?g)" by (simp add: get_handle_def handle_mgr_new_def)
  then have "handle_step (handle_mgr_new, {#}) (?g, add_mset 0 {#})" by (intro hs_new) (simp add: handle_new_def)
  then have "handle_reach (?g, {#0#})" by (rule hr_step [OF hr_init])
  from handle_no_dangling [OF this, of 0] g show ?thesis by auto
qed

end
