(* ===== verification/Fifo.thy ===== *)
theory Fifo
  imports Prelude "HOL-Library.Multiset"
begin

text \<open>
  The bounded queue of \<open>rpc/fifo.h\<close>, which hands jobs to the threads of the RPC server. An
  operation runs under the mutex up to \<open>pthread_cond_wait\<close> or its return; the state of the
  system adds the callers that wait for space or for an element, and those of them that have
  been signalled but have not run yet. A signal wakes one of the waiting callers, whichever;
  a caller may also wake up by itself.
\<close>

section \<open>The queue\<close>

record 'a fifo =
  fq :: "'a list"
  fmax :: nat

definition fifo_new :: "nat \<Rightarrow> 'a fifo" where
  "fifo_new limit = \<lparr>fq = [], fmax = limit\<rparr>"

definition fifo_size :: "'a fifo \<Rightarrow> bool" where
  "fifo_size f \<longleftrightarrow> length (fq f) \<noteq> 0"

text \<open>One round of the loop of \<open>enq\<close>: the element is queued, the caller waits, or gives up.\<close>

datatype 'a enq_result = Queued "'a fifo" | Enq_wait | Refused

definition enq_round :: "'a \<Rightarrow> bool \<Rightarrow> 'a fifo \<Rightarrow> 'a enq_result" where
  "enq_round e blocking f =
     (if fmax f = 0 \<or> length (fq f) < fmax f then Queued (f\<lparr>fq := fq f @ [e]\<rparr>)
      else if blocking then Enq_wait else Refused)"

text \<open>One round of the loop of \<open>deq\<close>: the caller waits, or gets an element; the flag tells
  whether \<open>has_space_c_\<close> is signalled.\<close>

datatype 'a deq_result = Got 'a "'a fifo" bool | Deq_wait

definition deq_round :: "'a fifo \<Rightarrow> 'a deq_result" where
  "deq_round f =
     (case fq f of
        [] \<Rightarrow> Deq_wait
      | e # es \<Rightarrow> Got e (f\<lparr>fq := es\<rparr>) (fmax f \<noteq> 0 \<and> length es < fmax f))"

section \<open>The queue and its callers\<close>

text \<open>
  \<open>enq_waiting\<close> and \<open>enq_woken\<close> hold the elements of the callers of \<open>enq\<close>; of the callers of
  \<open>deq\<close> only the number matters. \<open>entered\<close> and \<open>left\<close> record the elements queued and taken.
\<close>

record 'a fifo_sys =
  queue :: "'a fifo"
  enq_waiting :: "'a multiset"
  enq_woken :: "'a multiset"
  deq_waiting :: nat
  deq_woken :: nat
  entered :: "'a list"
  left :: "'a list"

definition sys_new :: "nat \<Rightarrow> 'a fifo_sys" where
  "sys_new limit = \<lparr>queue = fifo_new limit, enq_waiting = {#}, enq_woken = {#}, deq_waiting = 0,
     deq_woken = 0, entered = [], left = []\<rparr>"

text \<open>\<open>pthread_cond_signal(&non_empty_c_)\<close>.\<close>

definition signal_non_empty :: "'a fifo_sys \<Rightarrow> 'a fifo_sys" where
  "signal_non_empty s =
     (if deq_waiting s = 0 then s
      else s\<lparr>deq_waiting := deq_waiting s - 1, deq_woken := deq_woken s + 1\<rparr>)"

text \<open>\<open>pthread_cond_signal(&has_space_c_)\<close> may wake any of the callers that wait.\<close>

inductive signal_has_space :: "'a fifo_sys \<Rightarrow> 'a fifo_sys \<Rightarrow> bool" where
  sig_none: "enq_waiting s = {#} \<Longrightarrow> signal_has_space s s"
| sig_one: "e \<in># enq_waiting s \<Longrightarrow> signal_has_space s
    (s\<lparr>enq_waiting := enq_waiting s - {#e#}, enq_woken := add_mset e (enq_woken s)\<rparr>)"

definition queued :: "'a \<Rightarrow> 'a fifo \<Rightarrow> 'a fifo_sys \<Rightarrow> 'a fifo_sys" where
  "queued e f s = signal_non_empty (s\<lparr>queue := f, entered := entered s @ [e]\<rparr>)"

inductive taken :: "'a \<Rightarrow> 'a fifo \<Rightarrow> bool \<Rightarrow> 'a fifo_sys \<Rightarrow> 'a fifo_sys \<Rightarrow> bool" where
  taken_sig: "signal_has_space (s\<lparr>queue := f, left := left s @ [e]\<rparr>) s' \<Longrightarrow> taken e f True s s'"
| taken_quiet: "taken e f False s (s\<lparr>queue := f, left := left s @ [e]\<rparr>)"

inductive fifo_step :: "'a fifo_sys \<Rightarrow> 'a fifo_sys \<Rightarrow> bool" where
  enq_now: "enq_round e b (queue s) = Queued f \<Longrightarrow> fifo_step s (queued e f s)"
| enq_refused: "enq_round e False (queue s) = Refused \<Longrightarrow> fifo_step s s"
| enq_blocks: "enq_round e True (queue s) = Enq_wait \<Longrightarrow>
    fifo_step s (s\<lparr>enq_waiting := add_mset e (enq_waiting s)\<rparr>)"
| enq_resumes: "e \<in># enq_woken s \<Longrightarrow> enq_round e True (queue s) = Queued f \<Longrightarrow>
    fifo_step s (queued e f (s\<lparr>enq_woken := enq_woken s - {#e#}\<rparr>))"
| enq_again: "e \<in># enq_woken s \<Longrightarrow> enq_round e True (queue s) = Enq_wait \<Longrightarrow>
    fifo_step s (s\<lparr>enq_woken := enq_woken s - {#e#}, enq_waiting := add_mset e (enq_waiting s)\<rparr>)"
| deq_now: "deq_round (queue s) = Got e f b \<Longrightarrow> taken e f b s s' \<Longrightarrow> fifo_step s s'"
| deq_blocks: "deq_round (queue s) = Deq_wait \<Longrightarrow> fifo_step s (s\<lparr>deq_waiting := deq_waiting s + 1\<rparr>)"
| deq_resumes: "0 < deq_woken s \<Longrightarrow> deq_round (queue s) = Got e f b \<Longrightarrow>
    taken e f b (s\<lparr>deq_woken := deq_woken s - 1\<rparr>) s' \<Longrightarrow> fifo_step s s'"
| deq_again: "0 < deq_woken s \<Longrightarrow> deq_round (queue s) = Deq_wait \<Longrightarrow>
    fifo_step s (s\<lparr>deq_woken := deq_woken s - 1, deq_waiting := deq_waiting s + 1\<rparr>)"
| enq_spurious: "e \<in># enq_waiting s \<Longrightarrow> fifo_step s
    (s\<lparr>enq_waiting := enq_waiting s - {#e#}, enq_woken := add_mset e (enq_woken s)\<rparr>)"
| deq_spurious: "0 < deq_waiting s \<Longrightarrow> fifo_step s
    (s\<lparr>deq_waiting := deq_waiting s - 1, deq_woken := deq_woken s + 1\<rparr>)"

inductive fifo_reach :: "nat \<Rightarrow> 'a fifo_sys \<Rightarrow> bool" for limit where
  fr_init: "fifo_reach limit (sys_new limit)"
| fr_step: "fifo_reach limit s \<Longrightarrow> fifo_step s s' \<Longrightarrow> fifo_reach limit s'"

section \<open>Invariant\<close>

text \<open>
  Callers wait for an element only while the elements there are spoken for by callers that
  have been woken, and likewise for space.
\<close>

definition fifo_inv :: "nat \<Rightarrow> 'a fifo_sys \<Rightarrow> bool" where
  "fifo_inv limit s \<longleftrightarrow>
     fmax (queue s) = limit \<and> (limit \<noteq> 0 \<longrightarrow> length (fq (queue s)) \<le> limit) \<and>
     entered s = left s @ fq (queue s) \<and>
     (deq_waiting s = 0 \<or> length (fq (queue s)) \<le> deq_woken s) \<and>
     (enq_waiting s = {#} \<or> limit \<noteq> 0 \<and> limit - length (fq (queue s)) \<le> size (enq_woken s))"

lemmas round_defs = enq_round_def deq_round_def queued_def signal_non_empty_def

lemma taken_inv:
  assumes "taken e f b s s'" "deq_round (queue s) = Got e f b"
    and "fmax (queue s) = limit" "limit \<noteq> 0 \<longrightarrow> length (fq (queue s)) \<le> limit"
    and "entered s = left s @ fq (queue s)"
    and "deq_waiting s = 0 \<or> length (fq (queue s)) \<le> Suc (deq_woken s)"
    and "enq_waiting s = {#} \<or> limit \<noteq> 0 \<and> limit - length (fq (queue s)) \<le> size (enq_woken s)"
  shows "fifo_inv limit s'"
  using assms
proof (induction rule: taken.induct)
  case (taken_sig s f e s')
  from taken_sig(1) show ?case
  proof cases
    case sig_none
    with taken_sig show ?thesis by (auto simp: fifo_inv_def deq_round_def split: list.splits)
  next
    case (sig_one d)
    with taken_sig show ?thesis by (auto simp: fifo_inv_def deq_round_def split: list.splits)
  qed
next
  case (taken_quiet e f s)
  then show ?case by (auto simp: fifo_inv_def deq_round_def split: list.splits)
qed

lemma fifo_step_inv: "fifo_step s s' \<Longrightarrow> fifo_inv limit s \<Longrightarrow> fifo_inv limit s'"
proof (induction rule: fifo_step.induct)
  case (deq_now s e f b s')
  then show ?case by (intro taken_inv [OF deq_now(2,1)]) (auto simp: fifo_inv_def)
next
  case (deq_resumes s e f b s')
  then show ?case by (intro taken_inv [OF deq_resumes(3)]) (auto simp: fifo_inv_def)
next
  case (enq_resumes e s f)
  then show ?case
    by (auto simp: fifo_inv_def round_defs size_Diff_singleton split: if_splits dest!: multi_member_split)
next
  case (enq_again e s)
  then show ?case
    by (auto simp: fifo_inv_def round_defs split: if_splits)
qed (auto simp: fifo_inv_def round_defs split: if_splits list.splits)

lemma fifo_reach_inv: "fifo_reach limit s \<Longrightarrow> fifo_inv limit s"
proof (induction rule: fifo_reach.induct)
  case fr_init
  then show ?case by (simp add: fifo_inv_def sys_new_def fifo_new_def)
next
  case (fr_step s s')
  then show ?case using fifo_step_inv by blast
qed

section \<open>Properties\<close>

text \<open>
  C21. The job queue: in every reachable state the elements taken are those queued, in order;
  the queue never exceeds its limit; and no wake-up is lost: if there is an element and a
  caller of \<open>deq\<close> waits, another caller of \<open>deq\<close> has been woken and will take one, and if there
  is space and a caller of \<open>enq\<close> waits, another caller of \<open>enq\<close> has been woken.
\<close>

theorem fifo_no_lost_wakeup:
  assumes "fifo_reach limit s"
  shows "entered s = left s @ fq (queue s) \<and> (limit \<noteq> 0 \<longrightarrow> length (fq (queue s)) \<le> limit) \<and>
    (fq (queue s) \<noteq> [] \<longrightarrow> deq_waiting s \<noteq> 0 \<longrightarrow> 0 < deq_woken s) \<and>
    (limit = 0 \<or> length (fq (queue s)) < limit \<longrightarrow> enq_waiting s \<noteq> {#} \<longrightarrow> enq_woken s \<noteq> {#})"
  using fifo_reach_inv [OF assms] by (cases "fq (queue s)") (auto simp: fifo_inv_def)

text \<open>A caller waits for an element, then one is queued.\<close>

theorem fifo_no_lost_wakeup_witness:
  "\<exists>s. fifo_reach 1 s \<and> entered s = [7 :: nat] \<and> deq_woken s = 1 \<and> entered s = left s @ fq (queue s)"
proof -
  let ?s1 = "(sys_new 1)\<lparr>deq_waiting := 1\<rparr> :: nat fifo_sys"
  let ?s2 = "queued 7 ((fifo_new 1)\<lparr>fq := [7]\<rparr>) ?s1"
  have "fifo_step (sys_new 1) ?s1"
    using deq_blocks [of "sys_new 1"] by (simp add: deq_round_def sys_new_def fifo_new_def)
  then have r1: "fifo_reach 1 ?s1" by (rule fr_step [OF fr_init])
  have "fifo_step ?s1 ?s2"
    by (rule enq_now [where b = True]) (simp add: enq_round_def sys_new_def fifo_new_def)
  then have r2: "fifo_reach 1 ?s2" by (rule fr_step [OF r1])
  have "entered ?s2 = [7]" "deq_woken ?s2 = 1"
    by (simp_all add: queued_def signal_non_empty_def sys_new_def)
  with fifo_no_lost_wakeup [OF r2] r2 show ?thesis by blast
qed

end
