(* ===== verification/Posix.thy ===== *)
theory Posix
  imports Fuse Names
begin

text \<open>
  What the test programs use of the C library, over the operations of the file system: processes
  that open, read, write and remove files by path, and that fork and wait for a child. A process
  is a tree of the requests it makes of the file system, each with what it does next on every
  answer. A path reaches the file system through the mount points, which are a parameter
  (\<open>mnt\<close>): it gives the components of the path below the root of the file system.
\<close>

section \<open>Requests to the file system\<close>

type_synonym fname = "byte list"

datatype freq =
  Rq_lookup inum fname | Rq_create u32 inum fname | Rq_unlink inum fname | Rq_readdir inum
| Rq_read inum nat nat | Rq_write inum nat "byte list" | Rq_truncate inum nat | Rq_size inum

datatype fans =
  An_none | An_ino inum | An_exist | An_entries "(fname \<times> inum) list" | An_bytes "byte list"
| An_size nat | An_ok

text \<open>The operation on the file system that a request with its answer amounts to.\<close>

fun performs :: "freq \<Rightarrow> fans \<Rightarrow> yfs_op option" where
  "performs (Rq_lookup p n) (An_ino i) = Some (F_lookup p n (Some i))"
| "performs (Rq_lookup p n) An_none = Some (F_lookup p n None)"
| "performs (Rq_create type p n) (An_ino i) = Some (F_create type p n i)"
| "performs (Rq_create type p n) An_exist = Some (F_exist p n)"
| "performs (Rq_unlink p n) An_ok = Some (F_unlink p n)"
| "performs (Rq_unlink p n) An_none = Some (F_noent p n)"
| "performs (Rq_readdir p) (An_entries ds) = Some (F_readdir p ds)"
| "performs (Rq_read i sz off) (An_bytes b) = Some (F_read i sz off b)"
| "performs (Rq_write i off b) An_ok = Some (F_write i off b)"
| "performs (Rq_truncate i n) An_ok = Some (F_setattr i n)"
| "performs _ _ = None"

text \<open>
  The file system as a tree answers a request by the operation; \<open>Rq_size\<close> is the size the kernel
  knows of a file, taken to be its length.
\<close>

inductive tree_step :: "freq \<Rightarrow> fans \<Rightarrow> tree \<Rightarrow> tree \<Rightarrow> bool" where
  t_op: "performs q a = Some op \<Longrightarrow> yfs_apply op m = Some m' \<Longrightarrow> tree_step q a m m'"
| t_size: "m i = Some (Leaf ty b) \<Longrightarrow> tree_step (Rq_size i) (An_size (length b)) m m"

section \<open>Processes\<close>

text \<open>
  \<open>Fork k\<close> goes on as \<open>k 0\<close> in the child and as \<open>k pid\<close> in the parent; \<open>Waitpid pid k\<close> goes on with the
  number \<open>waitpid\<close> returns and the exit status of the child. \<open>sleep\<close> and the output do not appear:
  processes run at any speed.
\<close>

datatype proc =
  Exit_code int | Crash fault | Op freq "fans \<Rightarrow> proc" | Fork "int \<Rightarrow> proc" | Waitpid int "int \<Rightarrow> int \<Rightarrow> proc"

section \<open>Open files\<close>

record ofile =
  of_ino :: inum
  of_off :: nat
  of_app :: bool

text \<open>The descriptors from 3 on; \<open>open\<close> takes the lowest free one.\<close>

type_synonym fdt = "ofile option list"

fun lowest_free :: "fdt \<Rightarrow> nat" where
  "lowest_free [] = 0"
| "lowest_free (None # t) = 0"
| "lowest_free (Some f # t) = Suc (lowest_free t)"

definition fd_open :: "ofile \<Rightarrow> fdt \<Rightarrow> int \<times> fdt" where
  "fd_open f t =
     (let i = lowest_free t in (int i + 3, if i < length t then t[i := Some f] else t @ [Some f]))"

definition fd_get :: "fdt \<Rightarrow> int \<Rightarrow> ofile option" where
  "fd_get t fd = (if fd < 3 \<or> length t \<le> nat (fd - 3) then None else t ! nat (fd - 3))"

definition fd_set :: "fdt \<Rightarrow> int \<Rightarrow> ofile option \<Rightarrow> fdt" where
  "fd_set t fd f = t[nat (fd - 3) := f]"

section \<open>Paths\<close>

definition bytes :: "string \<Rightarrow> byte list" where
  "bytes s = map of_char s"

fun split_path :: "string \<Rightarrow> string list" where
  "split_path [] = [[]]"
| "split_path (c # cs) =
     (if c = CHR ''/'' then [] # split_path cs
      else (c # hd (split_path cs)) # tl (split_path cs))"

fun walk :: "inum \<Rightarrow> string list \<Rightarrow> (inum option \<Rightarrow> proc) \<Rightarrow> proc" where
  "walk p [] k = k (Some p)"
| "walk p (n # ns) k =
     Op (Rq_lookup p (bytes n)) (\<lambda>a. case a of An_ino q \<Rightarrow> walk q ns k | _ \<Rightarrow> k None)"

definition parent_dir ::
    "(string \<Rightarrow> string list option) \<Rightarrow> string \<Rightarrow> ((inum \<times> fname) option \<Rightarrow> proc) \<Rightarrow> proc" where
  "parent_dir mnt path k =
     (case mnt path of
        None \<Rightarrow> k None
      | Some cs \<Rightarrow> if cs = [] then k None
          else walk 1 (butlast cs) (\<lambda>d. k (map_option (\<lambda>p. (p, bytes (last cs))) d)))"

section \<open>Calls\<close>

definition EBADF :: int where "EBADF = 9"

definition opened :: "inum \<Rightarrow> bool \<Rightarrow> fdt \<Rightarrow> (int \<Rightarrow> int \<Rightarrow> fdt \<Rightarrow> proc) \<Rightarrow> proc" where
  "opened i app t k = (let (fd, t) = fd_open \<lparr>of_ino = i, of_off = 0, of_app = app\<rparr> t in k fd 0 t)"

text \<open>
  \<open>creat\<close> truncates a file that its lookup finds; between the lookup and the creation another
  process may make the name, and then the call fails.
\<close>

definition sys_creat ::
    "(string \<Rightarrow> string list option) \<Rightarrow> string \<Rightarrow> fdt \<Rightarrow> (int \<Rightarrow> int \<Rightarrow> fdt \<Rightarrow> proc) \<Rightarrow> proc" where
  "sys_creat mnt path t k = parent_dir mnt path (\<lambda>d. case d of
     None \<Rightarrow> k (-1) ENOENT t
   | Some (p, f) \<Rightarrow> Op (Rq_lookup p f) (\<lambda>a. case a of
       An_ino i \<Rightarrow> Op (Rq_truncate i 0) (\<lambda>_. opened i False t k)
     | _ \<Rightarrow> Op (Rq_create T_FILE p f) (\<lambda>a. case a of
         An_ino i \<Rightarrow> opened i False t k | _ \<Rightarrow> k (-1) EEXIST t)))"

datatype oflags = O_RDONLY | O_WRONLY_APPEND | O_WRONLY_CREAT | O_WRONLY

definition sys_open ::
    "(string \<Rightarrow> string list option) \<Rightarrow> oflags \<Rightarrow> string \<Rightarrow> fdt \<Rightarrow> (int \<Rightarrow> int \<Rightarrow> fdt \<Rightarrow> proc) \<Rightarrow> proc" where
  "sys_open mnt fl path t k = parent_dir mnt path (\<lambda>d. case d of
     None \<Rightarrow> k (-1) ENOENT t
   | Some (p, f) \<Rightarrow> Op (Rq_lookup p f) (\<lambda>a. case a of
       An_ino i \<Rightarrow> opened i (fl = O_WRONLY_APPEND) t k
     | _ \<Rightarrow> if fl \<noteq> O_WRONLY_CREAT then k (-1) ENOENT t
         else Op (Rq_create T_FILE p f) (\<lambda>a. case a of
           An_ino i \<Rightarrow> opened i False t k | _ \<Rightarrow> k (-1) EEXIST t)))"

text \<open>\<open>read\<close>: the number of bytes and the bytes; \<open>write\<close>: with \<open>O_APPEND\<close> at the end of the file.\<close>

definition sys_read :: "int \<Rightarrow> nat \<Rightarrow> fdt \<Rightarrow> (int \<Rightarrow> byte list \<Rightarrow> fdt \<Rightarrow> proc) \<Rightarrow> proc" where
  "sys_read fd n t k = (case fd_get t fd of
     None \<Rightarrow> k (-1) [] t
   | Some f \<Rightarrow> Op (Rq_read (of_ino f) n (of_off f)) (\<lambda>a. case a of
       An_bytes b \<Rightarrow> k (int (length b)) b (fd_set t fd (Some (f\<lparr>of_off := of_off f + length b\<rparr>)))
     | _ \<Rightarrow> k (-1) [] t))"

definition write_at :: "int \<Rightarrow> ofile \<Rightarrow> nat \<Rightarrow> byte list \<Rightarrow> fdt \<Rightarrow> (int \<Rightarrow> fdt \<Rightarrow> proc) \<Rightarrow> proc" where
  "write_at fd f off b t k = Op (Rq_write (of_ino f) off b) (\<lambda>a. case a of
     An_ok \<Rightarrow> k (int (length b)) (fd_set t fd (Some (f\<lparr>of_off := off + length b\<rparr>)))
   | _ \<Rightarrow> k (-1) t)"

definition sys_write :: "int \<Rightarrow> byte list \<Rightarrow> fdt \<Rightarrow> (int \<Rightarrow> fdt \<Rightarrow> proc) \<Rightarrow> proc" where
  "sys_write fd b t k = (case fd_get t fd of
     None \<Rightarrow> k (-1) t
   | Some f \<Rightarrow>
       if of_app f then Op (Rq_size (of_ino f)) (\<lambda>a. case a of
         An_size n \<Rightarrow> write_at fd f n b t k | _ \<Rightarrow> k (-1) t)
       else write_at fd f (of_off f) b t k)"

definition sys_lseek :: "int \<Rightarrow> nat \<Rightarrow> fdt \<Rightarrow> (int \<Rightarrow> fdt \<Rightarrow> proc) \<Rightarrow> proc" where
  "sys_lseek fd off t k = (case fd_get t fd of
     None \<Rightarrow> k (-1) t | Some f \<Rightarrow> k (int off) (fd_set t fd (Some (f\<lparr>of_off := off\<rparr>))))"

definition sys_fsync :: "int \<Rightarrow> fdt \<Rightarrow> (int \<Rightarrow> proc) \<Rightarrow> proc" where
  "sys_fsync fd t k = k (if fd_get t fd = None then -1 else 0)"

definition sys_close :: "int \<Rightarrow> fdt \<Rightarrow> (int \<Rightarrow> fdt \<Rightarrow> proc) \<Rightarrow> proc" where
  "sys_close fd t k = (if fd_get t fd = None then k (-1) t else k 0 (fd_set t fd None))"

definition sys_unlink :: "(string \<Rightarrow> string list option) \<Rightarrow> string \<Rightarrow> (int \<Rightarrow> proc) \<Rightarrow> proc" where
  "sys_unlink mnt path k = parent_dir mnt path (\<lambda>d. case d of
     None \<Rightarrow> k (-1)
   | Some (p, f) \<Rightarrow> Op (Rq_unlink p f) (\<lambda>a. case a of An_ok \<Rightarrow> k 0 | _ \<Rightarrow> k (-1)))"

definition sys_mkdir :: "(string \<Rightarrow> string list option) \<Rightarrow> string \<Rightarrow> (int \<Rightarrow> proc) \<Rightarrow> proc" where
  "sys_mkdir mnt path k = parent_dir mnt path (\<lambda>d. case d of
     None \<Rightarrow> k (-1)
   | Some (p, f) \<Rightarrow> Op (Rq_lookup p f) (\<lambda>a. case a of
       An_ino i \<Rightarrow> k (-1)
     | _ \<Rightarrow> Op (Rq_create T_DIR p f) (\<lambda>a. case a of An_ino i \<Rightarrow> k 0 | _ \<Rightarrow> k (-1))))"

definition sys_access :: "(string \<Rightarrow> string list option) \<Rightarrow> string \<Rightarrow> (int \<Rightarrow> proc) \<Rightarrow> proc" where
  "sys_access mnt path k = (case mnt path of
     None \<Rightarrow> k (-1) | Some cs \<Rightarrow> walk 1 cs (\<lambda>d. k (if d = None then -1 else 0)))"

text \<open>\<open>opendir\<close>, \<open>readdir\<close> to the end and \<open>closedir\<close>: the names, as C strings.\<close>

definition sys_readdir :: "(string \<Rightarrow> string list option) \<Rightarrow> string \<Rightarrow> (fname list option \<Rightarrow> proc) \<Rightarrow> proc" where
  "sys_readdir mnt path k = (case mnt path of
     None \<Rightarrow> k None
   | Some cs \<Rightarrow> walk 1 cs (\<lambda>d. case d of
       None \<Rightarrow> k None
     | Some p \<Rightarrow> Op (Rq_readdir p) (\<lambda>a. case a of
         An_entries ds \<Rightarrow> k (Some (map (c_str \<circ> fst) ds)) | _ \<Rightarrow> k None)))"

section \<open>Runs\<close>

text \<open>
  A process and at most one child of it over a file system \<open>fs\<close>. Every request is one step, so
  the steps of the two processes come in any order.
\<close>

type_synonym 'w procs = "'w \<times> proc \<times> (int \<times> proc) option"

inductive run_step :: "(freq \<Rightarrow> fans \<Rightarrow> 'w \<Rightarrow> 'w \<Rightarrow> bool) \<Rightarrow> 'w procs \<Rightarrow> 'w procs \<Rightarrow> bool" for fs where
  r_parent: "fs q a w w' \<Longrightarrow> run_step fs (w, Op q k, c) (w', k a, c)"
| r_child: "fs q a w w' \<Longrightarrow> run_step fs (w, p, Some (i, Op q k)) (w', p, Some (i, k a))"
| r_fork: "0 < i \<Longrightarrow> run_step fs (w, Fork k, None) (w, k i, Some (i, k 0))"
| r_wait: "run_step fs (w, Waitpid i k, Some (i, Exit_code c)) (w, k i c, None)"

inductive_cases run_stepE: "run_step fs (w, p, c) z"

text \<open>
  \<open>passes z\<close>: every run from \<open>z\<close> comes to an end, and it ends with the exit of the parent with
  status 0 after that of its child; only a request to create a node in a file system with no free
  inode number may be left without an answer.
\<close>

definition no_room :: "freq \<Rightarrow> tree \<Rightarrow> bool" where
  "no_room q m \<longleftrightarrow> (\<exists>ty p n. q = Rq_create ty p n) \<and> (\<forall>i. m i \<noteq> None)"

definition blocked :: "tree \<Rightarrow> proc \<Rightarrow> bool" where
  "blocked m p \<longleftrightarrow> (\<exists>q k. p = Op q k \<and> no_room q m)"

fun ended :: "proc \<Rightarrow> bool" where
  "ended (Exit_code c) = True"
| "ended (Crash f) = True"
| "ended _ = False"

inductive passes :: "tree procs \<Rightarrow> bool" where
  p_exit: "passes (m, Exit_code 0, None)"
| p_step: "\<not> ended p \<Longrightarrow>
    (\<exists>z. run_step tree_step (m, p, c) z) \<or> blocked m p \<or> (\<exists>i d. c = Some (i, d) \<and> blocked m d) \<Longrightarrow>
    (\<And>z. run_step tree_step (m, p, c) z \<Longrightarrow> passes z) \<Longrightarrow> passes (m, p, c)"

lemma running: "\<not> ended (Op q k)" "\<not> ended (Fork f)" "\<not> ended (Waitpid i w)"
  by simp_all

inductive_cases passesE: "passes (m, p, c)"

lemma passes_ended: "passes (m, p, c) \<Longrightarrow> ended p \<Longrightarrow> p = Exit_code 0 \<and> c = None"
  by (erule passesE) auto

lemma passes_stepD: "passes (m, p, c) \<Longrightarrow> run_step tree_step (m, p, c) z \<Longrightarrow> passes z"
  by (erule passesE) (auto elim: run_step.cases)

end
