(* ===== verification/Rely.thy ===== *)
theory Rely
  imports Posix
begin

text \<open>
  How two processes are proved to pass: a rely and guarantee calculus for the processes of
  \<open>Posix\<close>. \<open>rg tr R G F p s\<close> says that process \<open>p\<close>, started in \<open>s\<close> while others take steps in \<open>R\<close>,
  always has a next step, takes only steps in \<open>G\<close>, and after finitely many is at a process and a
  state that satisfy \<open>F\<close> and go on doing so under \<open>R\<close>. States may carry more than the tree (\<open>tr\<close>
  forgets it): a step of the process chooses what it becomes.
\<close>

inductive rg ::
    "('s \<Rightarrow> tree) \<Rightarrow> ('s \<Rightarrow> 's \<Rightarrow> bool) \<Rightarrow> ('s \<Rightarrow> 's \<Rightarrow> bool) \<Rightarrow> (proc \<Rightarrow> 's \<Rightarrow> bool) \<Rightarrow> proc \<Rightarrow> 's \<Rightarrow> bool"
  for tr R G F where
  rg_stop: "(\<And>t. R s t \<Longrightarrow> F p t) \<Longrightarrow> rg tr R G F p s"
| rg_op: "(\<And>t. R s t \<Longrightarrow> (\<exists>a m. tree_step q a (tr t) m) \<or> no_room q (tr t)) \<Longrightarrow>
    (\<And>t a m. R s t \<Longrightarrow> tree_step q a (tr t) m \<Longrightarrow> \<exists>t'. tr t' = m \<and> G t t' \<and> rg tr R G F (k a) t') \<Longrightarrow>
    rg tr R G F (Op q k) s"

text \<open>A process at a request can take a step if the file system answers.\<close>

lemma request_step:
  assumes "(\<exists>a m. tree_step q a w m) \<or> no_room q w"
  shows "(\<exists>z. run_step tree_step (w, Op q k, c) z) \<or> blocked w (Op q k) \<or> B"
    "(\<exists>z. run_step tree_step (w, p, Some (i, Op q k)) z) \<or> B \<or> (\<exists>j d. Some (i, Op q k) = Some (j, d) \<and> blocked w d)"
  using assms by (auto dest: r_parent [of tree_step] r_child [of tree_step] simp: blocked_def simp del: split_paired_Ex)

locale rely =
  fixes R :: "'s \<Rightarrow> 's \<Rightarrow> bool"
  assumes R_refl: "R s s"
    and R_trans: "R s t \<Longrightarrow> R t u \<Longrightarrow> R s u"
begin

lemma rg_later:
  assumes "rg tr R G F p s" "R s t"
  shows "rg tr R G F p t"
  using assms(1)
proof cases
  case rg_stop
  then show ?thesis using R_trans [OF assms(2)] by (intro rg.rg_stop) blast
next
  case (rg_op q k)
  show ?thesis unfolding rg_op(1) by (rule rg.rg_op) (use rg_op(2,3) R_trans [OF assms(2)] in blast)+
qed

text \<open>One process alone.\<close>

lemma rg_alone:
  assumes "rg tr R G (\<lambda>p t. passes (tr t, p, None)) p s"
  shows "passes (tr s, p, None)"
  using assms
proof induction
  case (rg_stop s p)
  then show ?case using R_refl by blast
next
  case (rg_op s q k)
  show ?case
  proof (rule p_step [OF running(1) request_step(1) [OF rg_op(1) [OF R_refl]]])
    fix z' assume "run_step tree_step (tr s, Op q k, None) z'"
    then obtain a m where z': "z' = (m, k a, None)" "tree_step q a (tr s) m" by cases auto
    from rg_op(2) [OF R_refl z'(2)] show "passes z'" unfolding z'(1) by blast
  qed
qed

end

text \<open>A parent that comes to wait for its child, and the child.\<close>

locale rely_pair = parent: rely R1 + child: rely R2 for R1 R2 :: "'s \<Rightarrow> 's \<Rightarrow> bool" +
  fixes tr :: "'s \<Rightarrow> tree" and G1 G2 :: "'s \<Rightarrow> 's \<Rightarrow> bool"
  assumes G1: "G1 s t \<Longrightarrow> R2 s t" and G2: "G2 s t \<Longrightarrow> R1 s t"
begin

lemma parent_waits:
  assumes "rg tr R2 G2 (\<lambda>c t. c = Exit_code 0 \<and> B t) c s"
    and wait: "\<And>t. R1 u t \<Longrightarrow> A t" and join: "\<And>t. A t \<Longrightarrow> B t \<Longrightarrow> passes (tr t, k pid 0, None)" and "R1 u s"
  shows "passes (tr s, Waitpid pid k, Some (pid, c))"
  using assms(1,4)
proof induction
  case (rg_stop s c)
  have c: "c = Exit_code 0" and "B s" using rg_stop(1) [OF child.R_refl] by simp_all
  with join wait rg_stop(2) have *: "passes (tr s, k pid 0, None)" by blast
  have "\<exists>z. run_step tree_step (tr s, Waitpid pid k, Some (pid, Exit_code 0)) z" by (rule exI) (rule r_wait)
  moreover have "passes z" if "run_step tree_step (tr s, Waitpid pid k, Some (pid, Exit_code 0)) z" for z
    using that * by cases auto
  ultimately show ?case unfolding c by (rule p_step [OF running(3) disjI1])
next
  case (rg_op s q h)
  show ?case
  proof (rule p_step [OF running(3) request_step(2) [OF rg_op(1) [OF child.R_refl]]])
    fix z' assume "run_step tree_step (tr s, Waitpid pid k, Some (pid, Op q h)) z'"
    then obtain a m where z': "z' = (m, Waitpid pid k, Some (pid, h a))" "tree_step q a (tr s) m" by cases auto
    from rg_op(2) [OF child.R_refl z'(2)] show "passes z'"
      unfolding z'(1) using parent.R_trans [OF rg_op(3) G2] by blast
  qed
qed

lemma both_pass:
  assumes "rg tr R1 G1 (\<lambda>p t. \<exists>k. p = Waitpid pid k \<and> A k t) p s"
    and "rg tr R2 G2 (\<lambda>c t. c = Exit_code 0 \<and> B t) c s"
    and join: "\<And>k t. A k t \<Longrightarrow> B t \<Longrightarrow> passes (tr t, k pid 0, None)"
  shows "passes (tr s, p, Some (pid, c))"
proof -
  have "passes (tr t, p, Some (pid, c))" if "R1 s t" "rg tr R2 G2 (\<lambda>c t. c = Exit_code 0 \<and> B t) c t" for t c
    using assms(1) that
  proof (induction arbitrary: t c)
    case (rg_stop s p)
    from rg_stop(1) [OF parent.R_refl] obtain k where p: "p = Waitpid pid k" by blast
    show ?case unfolding p
      by (rule parent_waits [OF rg_stop(3), of s "A k", OF _ join rg_stop(2)]) (use rg_stop(1) p in auto)
  next
    case (rg_op s q k)
    from rg_op(4,3) show ?case
    proof (induction rule: rg.induct)
      case (rg_stop t c)
      have c: "c = Exit_code 0" using rg_stop(1) [OF child.R_refl] by simp
      have keep: "rg tr R2 G2 (\<lambda>c t. c = Exit_code 0 \<and> B t) c t" by (rule rg.rg_stop) (rule rg_stop(1))
      show ?case
      proof (rule p_step [OF running(1) request_step(1) [OF rg_op(1) [OF rg_stop(2)]]])
        fix z' assume "run_step tree_step (tr t, Op q k, Some (pid, c)) z'"
        then obtain a m where z': "z' = (m, k a, Some (pid, c))" "tree_step q a (tr t) m" using c by cases auto
        from rg_op(2) [OF rg_stop(2) z'(2)] show "passes z'"
          unfolding z'(1) using child.rg_later [OF keep G1] parent.R_refl by blast
      qed
    next
      case (rg_op t r h)
      have keep: "rg tr R2 G2 (\<lambda>c t. c = Exit_code 0 \<and> B t) (Op r h) t"
        by (rule rg.rg_op) (use rg_op(1,2) in blast)+
      show ?case
      proof (rule p_step [OF running(1) request_step(2) [OF rg_op(1) [OF child.R_refl]]])
        fix z' assume "run_step tree_step (tr t, Op q k, Some (pid, Op r h)) z'"
        then consider a m where "z' = (m, k a, Some (pid, Op r h))" "tree_step q a (tr t) m"
          | a m where "z' = (m, Op q k, Some (pid, h a))" "tree_step r a (tr t) m" by cases auto
        then show "passes z'"
        proof cases
          case 1
          from \<open>\<And>t a m. R1 s t \<Longrightarrow> tree_step q a (tr t) m \<Longrightarrow> _\<close> [OF rg_op(3) 1(2)] show ?thesis
            unfolding 1(1) using child.rg_later [OF keep G1] parent.R_refl by blast
        next
          case 2
          from rg_op(2) [OF child.R_refl 2(2)] show ?thesis
            unfolding 2(1) using parent.R_trans [OF rg_op(3) G2] by blast
        qed
      qed
    qed
  qed
  from this [OF parent.R_refl assms(2)] show ?thesis .
qed

end

end
