(* ===== verification/Fs_Tests.thy ===== *)
theory Fs_Tests
  imports Posix "HOL-Library.List_Lexorder"
begin

text \<open>
  The test programs of the file system: \<open>test-lab2-part1-g.c\<close>, \<open>test-lab2-part2-a.c\<close> and
  \<open>test-lab-3-a.c\<close>, which create, check and remove files of one directory through two mount points,
  and \<open>test-lab2-part2-b.c\<close> and \<open>test-lab-3-b.c\<close>, which work in two directories. The programs share
  their functions, by copies. A function takes the table of open files and what comes after it;
  a check that fails is \<open>exit(1)\<close>.
\<close>

section \<open>Functions of the tests\<close>

text \<open>\<open>sprintf\<close> into a buffer of 512 bytes.\<close>

definition sprintf512 :: "string \<Rightarrow> proc \<Rightarrow> proc" where
  "sprintf512 n k = (if length n < 512 then k else Crash Out_of_bounds)"

type_synonym mnt = "string \<Rightarrow> string list option"

definition create1 :: "mnt \<Rightarrow> string \<Rightarrow> string \<Rightarrow> string \<Rightarrow> fdt \<Rightarrow> (fdt \<Rightarrow> proc) \<Rightarrow> proc" where
  "create1 mnt d f inp t k =
     (let n = d @ ''/'' @ f in sprintf512 n (
      sys_creat mnt n t (\<lambda>fd errno t.
        if fd < 0 then Exit_code 1
        else sys_write fd (bytes inp) t (\<lambda>cc t.
          if cc \<noteq> int (length inp) then Exit_code 1
          else sys_close fd t (\<lambda>r t. if r \<noteq> 0 then Exit_code 1 else k t)))))"

text \<open>\<open>strncmp(a, b, n) == 0\<close>.\<close>

definition strncmp_eq :: "nat \<Rightarrow> byte list \<Rightarrow> byte list \<Rightarrow> bool" where
  "strncmp_eq n a b \<longleftrightarrow> take n (c_str a @ [0]) = take n (c_str b @ [0])"

text \<open>The comparison is limited by the length of the path \<open>n\<close>, not of the contents.\<close>

definition check1 :: "mnt \<Rightarrow> string \<Rightarrow> string \<Rightarrow> string \<Rightarrow> fdt \<Rightarrow> (fdt \<Rightarrow> proc) \<Rightarrow> proc" where
  "check1 mnt d f inp t k =
     (let n = d @ ''/'' @ f in sprintf512 n (
      sys_open mnt O_RDONLY n t (\<lambda>fd errno t.
        if fd < 0 then Exit_code 1
        else sys_read fd (21000 - 1) t (\<lambda>cc buf t.
          if cc \<noteq> int (length inp) then Exit_code 1
          else sys_close fd t (\<lambda>r t.
            if \<not> strncmp_eq (length n) (buf @ [0]) (bytes inp @ [0]) then Exit_code 1 else k t)))))"

definition unlink1 :: "mnt \<Rightarrow> string \<Rightarrow> string \<Rightarrow> fdt \<Rightarrow> (fdt \<Rightarrow> proc) \<Rightarrow> proc" where
  "unlink1 mnt d f t k =
     (let n = d @ ''/'' @ f in sprintf512 n (
      sys_unlink mnt n (\<lambda>r. if r \<noteq> 0 then Exit_code 1 else k t)))"

definition checknot :: "mnt \<Rightarrow> string \<Rightarrow> string \<Rightarrow> fdt \<Rightarrow> (fdt \<Rightarrow> proc) \<Rightarrow> proc" where
  "checknot mnt d f t k =
     (let n = d @ ''/'' @ f in sprintf512 n (
      sys_open mnt O_RDONLY n t (\<lambda>fd errno t. if fd \<ge> 0 then Exit_code 1 else k t)))"

definition append1 :: "mnt \<Rightarrow> string \<Rightarrow> string \<Rightarrow> string \<Rightarrow> fdt \<Rightarrow> (fdt \<Rightarrow> proc) \<Rightarrow> proc" where
  "append1 mnt d f inp t k =
     (let n = d @ ''/'' @ f in sprintf512 n (
      sys_open mnt O_WRONLY_APPEND n t (\<lambda>fd errno t.
        if fd < 0 then Exit_code 1
        else sys_write fd (bytes inp) t (\<lambda>cc t.
          if cc \<noteq> int (length inp) then Exit_code 1
          else sys_close fd t (\<lambda>r t. if r \<noteq> 0 then Exit_code 1 else k t)))))"

fun write1_loop :: "int \<Rightarrow> byte \<Rightarrow> nat \<Rightarrow> fdt \<Rightarrow> (fdt \<Rightarrow> proc) \<Rightarrow> proc" where
  "write1_loop fd c 0 t k = k t"
| "write1_loop fd c (Suc n) t k =
     sys_write fd [c] t (\<lambda>cc t.
       if cc \<noteq> 1 then Exit_code 1
       else sys_fsync fd t (\<lambda>r. if r \<noteq> 0 then Exit_code 1 else write1_loop fd c n t k))"

definition write1 :: "mnt \<Rightarrow> string \<Rightarrow> string \<Rightarrow> nat \<Rightarrow> nat \<Rightarrow> byte \<Rightarrow> fdt \<Rightarrow> (fdt \<Rightarrow> proc) \<Rightarrow> proc" where
  "write1 mnt d f start n c t k =
     (let name = d @ ''/'' @ f;
          rest = (\<lambda>fd errno t.
            if fd < 0 then Exit_code 1
            else sys_lseek fd start t (\<lambda>r t.
              if r \<noteq> int start then Exit_code 1
              else write1_loop fd c n t (\<lambda>t.
                sys_close fd t (\<lambda>r t. if r \<noteq> 0 then Exit_code 1 else k t))))
      in sprintf512 name (
      sys_open mnt O_WRONLY_CREAT name t (\<lambda>fd errno t.
        if fd < 0 \<and> errno = EEXIST then sys_open mnt O_WRONLY name t rest else rest fd errno t)))"

fun checkread_loop :: "int \<Rightarrow> byte \<Rightarrow> nat \<Rightarrow> fdt \<Rightarrow> (fdt \<Rightarrow> proc) \<Rightarrow> proc" where
  "checkread_loop fd c 0 t k = k t"
| "checkread_loop fd c (Suc n) t k =
     sys_read fd 1 t (\<lambda>cc xc t.
       if cc \<noteq> 1 then Exit_code 1 else if xc \<noteq> [c] then Exit_code 1 else checkread_loop fd c n t k)"

definition checkread :: "mnt \<Rightarrow> string \<Rightarrow> string \<Rightarrow> nat \<Rightarrow> nat \<Rightarrow> byte \<Rightarrow> fdt \<Rightarrow> (fdt \<Rightarrow> proc) \<Rightarrow> proc" where
  "checkread mnt d f start n c t k =
     (let name = d @ ''/'' @ f in sprintf512 name (
      sys_open mnt O_RDONLY name t (\<lambda>fd errno t.
        if fd < 0 then Exit_code 1
        else sys_lseek fd start t (\<lambda>r t.
          if r \<noteq> int start then Exit_code 1
          else checkread_loop fd c n t (\<lambda>t. sys_close fd t (\<lambda>r t. k t))))))"

text \<open>\<open>"%s/%s-%d"\<close>, and the four bytes of \<open>i\<close>.\<close>

definition nth_path :: "string \<Rightarrow> string \<Rightarrow> nat \<Rightarrow> string" where
  "nth_path d prefix i = d @ ''/'' @ prefix @ ''-'' @ print_nat i"

fun createn_from :: "mnt \<Rightarrow> string \<Rightarrow> string \<Rightarrow> nat list \<Rightarrow> bool \<Rightarrow> fdt \<Rightarrow> (fdt \<Rightarrow> proc) \<Rightarrow> proc" where
  "createn_from mnt d prefix [] dup t k = k t"
| "createn_from mnt d prefix (i # is) dup t k =
     (let n = nth_path d prefix i in sprintf512 n (
      sys_creat mnt n t (\<lambda>fd errno t.
        if fd < 0 \<and> dup \<and> errno = EEXIST then createn_from mnt d prefix is dup t k
        else if fd < 0 then Exit_code 1
        else sys_write fd (le_enc 4 i) t (\<lambda>cc t.
          if cc \<noteq> 4 then Exit_code 1
          else sys_close fd t (\<lambda>r t.
            if r \<noteq> 0 then Exit_code 1 else createn_from mnt d prefix is dup t k)))))"

definition createn :: "mnt \<Rightarrow> string \<Rightarrow> string \<Rightarrow> nat \<Rightarrow> bool \<Rightarrow> fdt \<Rightarrow> (fdt \<Rightarrow> proc) \<Rightarrow> proc" where
  "createn mnt d prefix nf dup t k = createn_from mnt d prefix [0..<nf] dup t k"

fun checkn_from :: "mnt \<Rightarrow> string \<Rightarrow> string \<Rightarrow> nat list \<Rightarrow> fdt \<Rightarrow> (fdt \<Rightarrow> proc) \<Rightarrow> proc" where
  "checkn_from mnt d prefix [] t k = k t"
| "checkn_from mnt d prefix (i # is) t k =
     (let n = nth_path d prefix i in sprintf512 n (
      sys_open mnt O_RDONLY n t (\<lambda>fd errno t.
        if fd < 0 then Exit_code 1
        else sys_read fd 4 t (\<lambda>cc j t.
          if cc \<noteq> 4 then Exit_code 1
          else if le_dec j \<noteq> i then Exit_code 1
          else sys_close fd t (\<lambda>r t. checkn_from mnt d prefix is t k)))))"

definition checkn :: "mnt \<Rightarrow> string \<Rightarrow> string \<Rightarrow> nat \<Rightarrow> fdt \<Rightarrow> (fdt \<Rightarrow> proc) \<Rightarrow> proc" where
  "checkn mnt d prefix nf t k = checkn_from mnt d prefix [0..<nf] t k"

fun unlinkn_from :: "mnt \<Rightarrow> string \<Rightarrow> string \<Rightarrow> nat list \<Rightarrow> fdt \<Rightarrow> (fdt \<Rightarrow> proc) \<Rightarrow> proc" where
  "unlinkn_from mnt d prefix [] t k = k t"
| "unlinkn_from mnt d prefix (i # is) t k =
     (let n = nth_path d prefix i in sprintf512 n (
      sys_unlink mnt n (\<lambda>r. if r \<noteq> 0 then Exit_code 1 else unlinkn_from mnt d prefix is t k)))"

definition unlinkn :: "mnt \<Rightarrow> string \<Rightarrow> string \<Rightarrow> nat \<Rightarrow> fdt \<Rightarrow> (fdt \<Rightarrow> proc) \<Rightarrow> proc" where
  "unlinkn mnt d prefix nf t k = unlinkn_from mnt d prefix [0..<nf] t k"

text \<open>
  \<open>dircheck\<close> collects up to 1000 names (after its warning it writes past the array), sorts them in
  the order of \<open>strcmp\<close> and compares neighbours.
\<close>

fun neighbours_equal :: "'a list \<Rightarrow> bool" where
  "neighbours_equal (a # b # xs) \<longleftrightarrow> a = b \<or> neighbours_equal (b # xs)"
| "neighbours_equal _ \<longleftrightarrow> False"

definition visible :: "fname \<Rightarrow> bool" where
  "visible n \<longleftrightarrow> (case n of [] \<Rightarrow> True | c # _ \<Rightarrow> c \<noteq> 46)"

definition dircheck :: "mnt \<Rightarrow> string \<Rightarrow> nat \<Rightarrow> fdt \<Rightarrow> (fdt \<Rightarrow> proc) \<Rightarrow> proc" where
  "dircheck mnt d nf t k = sys_readdir mnt d (\<lambda>es. case es of
     None \<Rightarrow> Exit_code 1
   | Some es \<Rightarrow>
       let names = filter visible es in
       if length names > 1000 then Crash Out_of_bounds
       else if nf \<noteq> length names then Exit_code 1
       else if neighbours_equal (sort names) then Exit_code 1
       else k t)"

definition reap :: "int \<Rightarrow> proc \<Rightarrow> proc" where
  "reap pid k = Waitpid pid (\<lambda>wpid status.
     if wpid < 0 then Exit_code 1
     else if wpid \<noteq> pid then Exit_code 1
     else if status \<noteq> 0 then Exit_code 1
     else k)"

text \<open>\<open>pid = fork(); if(pid < 0) ...; if(pid == 0){ child; exit(0); } parent\<close>.\<close>

definition forking :: "((fdt \<Rightarrow> proc) \<Rightarrow> proc) \<Rightarrow> (int \<Rightarrow> proc) \<Rightarrow> proc" where
  "forking child parent = Fork (\<lambda>pid.
     if pid < 0 then Exit_code 1
     else if pid = 0 then child (\<lambda>t. Exit_code 0)
     else parent pid)"

section \<open>Tests in one directory\<close>

text \<open>\<open>d1\<close> and \<open>d2\<close> are the paths of the directory through the two mount points.\<close>

definition test_create_read :: "mnt \<Rightarrow> string \<Rightarrow> string \<Rightarrow> fdt \<Rightarrow> (fdt \<Rightarrow> proc) \<Rightarrow> proc" where
  "test_create_read mnt d1 d2 t k =
     create1 mnt d1 ''f1'' ''aaa'' t (\<lambda>t.
     check1 mnt d2 ''f1'' ''aaa'' t (\<lambda>t.
     check1 mnt d1 ''f1'' ''aaa'' t k))"

definition test_unlink :: "mnt \<Rightarrow> string \<Rightarrow> string \<Rightarrow> fdt \<Rightarrow> (fdt \<Rightarrow> proc) \<Rightarrow> proc" where
  "test_unlink mnt d1 d2 t k =
     unlink1 mnt d2 ''f1'' t (\<lambda>t.
     create1 mnt d1 ''fx1'' ''fxx'' t (\<lambda>t.
     unlink1 mnt d1 ''fx1'' t (\<lambda>t.
     checknot mnt d1 ''f1'' t (\<lambda>t.
     checknot mnt d2 ''f1'' t (\<lambda>t.
     create1 mnt d1 ''f2'' ''222'' t (\<lambda>t.
     unlink1 mnt d2 ''f2'' t (\<lambda>t.
     checknot mnt d1 ''f2'' t (\<lambda>t.
     checknot mnt d2 ''f2'' t (\<lambda>t.
     create1 mnt d1 ''f3'' ''333'' t (\<lambda>t.
     check1 mnt d2 ''f3'' ''333'' t (\<lambda>t.
     check1 mnt d1 ''f3'' ''333'' t (\<lambda>t.
     unlink1 mnt d1 ''f3'' t (\<lambda>t.
     create1 mnt d2 ''fx2'' ''22'' t (\<lambda>t.
     unlink1 mnt d2 ''fx2'' t (\<lambda>t.
     checknot mnt d2 ''f3'' t (\<lambda>t.
     checknot mnt d1 ''f3'' t k))))))))))))))))"

definition test_append :: "mnt \<Rightarrow> string \<Rightarrow> string \<Rightarrow> fdt \<Rightarrow> (fdt \<Rightarrow> proc) \<Rightarrow> proc" where
  "test_append mnt d1 d2 t k =
     create1 mnt d2 ''f1'' ''aaa'' t (\<lambda>t.
     append1 mnt d1 ''f1'' ''bbb'' t (\<lambda>t.
     append1 mnt d2 ''f1'' ''ccc'' t (\<lambda>t.
     check1 mnt d1 ''f1'' ''aaabbbccc'' t (\<lambda>t.
     check1 mnt d2 ''f1'' ''aaabbbccc'' t k))))"

definition test_readdir :: "mnt \<Rightarrow> string \<Rightarrow> string \<Rightarrow> fdt \<Rightarrow> (fdt \<Rightarrow> proc) \<Rightarrow> proc" where
  "test_readdir mnt d1 d2 t k =
     dircheck mnt d1 1 t (\<lambda>t.
     dircheck mnt d2 1 t (\<lambda>t.
     unlink1 mnt d1 ''f1'' t (\<lambda>t.
     dircheck mnt d1 0 t (\<lambda>t.
     dircheck mnt d2 0 t (\<lambda>t.
     create1 mnt d2 ''f2'' ''aaa'' t (\<lambda>t.
     create1 mnt d1 ''f3'' ''aaa'' t (\<lambda>t.
     dircheck mnt d1 2 t (\<lambda>t.
     dircheck mnt d2 2 t (\<lambda>t.
     unlink1 mnt d2 ''f2'' t (\<lambda>t.
     dircheck mnt d2 1 t (\<lambda>t.
     dircheck mnt d1 1 t (\<lambda>t.
     unlink1 mnt d2 ''f3'' t (\<lambda>t.
     dircheck mnt d1 0 t (\<lambda>t.
     dircheck mnt d2 0 t k))))))))))))))"

definition test_many :: "mnt \<Rightarrow> string \<Rightarrow> string \<Rightarrow> fdt \<Rightarrow> (fdt \<Rightarrow> proc) \<Rightarrow> proc" where
  "test_many mnt d1 d2 t k =
     createn mnt d1 ''aa'' 10 False t (\<lambda>t.
     createn mnt d2 ''bb'' 10 False t (\<lambda>t.
     dircheck mnt d2 20 t (\<lambda>t.
     checkn mnt d2 ''bb'' 10 t (\<lambda>t.
     checkn mnt d2 ''aa'' 10 t (\<lambda>t.
     checkn mnt d1 ''aa'' 10 t (\<lambda>t.
     checkn mnt d1 ''bb'' 10 t (\<lambda>t.
     unlinkn mnt d1 ''aa'' 10 t (\<lambda>t.
     unlinkn mnt d2 ''bb'' 10 t k))))))))"

definition big :: string where "big = replicate 20000 (CHR ''x'')"
definition huge :: string where "huge = replicate 65535 (CHR ''0'')"

definition test_big :: "mnt \<Rightarrow> string \<Rightarrow> string \<Rightarrow> fdt \<Rightarrow> (fdt \<Rightarrow> proc) \<Rightarrow> proc" where
  "test_big mnt d1 d2 t k =
     create1 mnt d1 ''bf'' big t (\<lambda>t.
     check1 mnt d1 ''bf'' big t (\<lambda>t.
     check1 mnt d2 ''bf'' big t (\<lambda>t.
     unlink1 mnt d1 ''bf'' t k)))"

definition test_concurrent_creates :: "mnt \<Rightarrow> string \<Rightarrow> string \<Rightarrow> fdt \<Rightarrow> (fdt \<Rightarrow> proc) \<Rightarrow> proc" where
  "test_concurrent_creates mnt d1 d2 t k =
     forking (createn mnt d2 ''xx'' 10 False t) (\<lambda>pid.
     createn mnt d1 ''yy'' 10 False t (\<lambda>t.
     reap pid (
     dircheck mnt d1 20 t (\<lambda>t.
     checkn mnt d1 ''xx'' 10 t (\<lambda>t.
     checkn mnt d2 ''yy'' 10 t (\<lambda>t.
     unlinkn mnt d1 ''xx'' 10 t (\<lambda>t.
     unlinkn mnt d1 ''yy'' 10 t k)))))))"

definition test_same_file :: "mnt \<Rightarrow> string \<Rightarrow> string \<Rightarrow> fdt \<Rightarrow> (fdt \<Rightarrow> proc) \<Rightarrow> proc" where
  "test_same_file mnt d1 d2 t k =
     forking (createn mnt d2 ''zz'' 10 True t) (\<lambda>pid.
     createn mnt d1 ''zz'' 10 True t (\<lambda>t.
     dircheck mnt d1 10 t (\<lambda>t.
     reap pid (
     checkn mnt d1 ''zz'' 10 t (\<lambda>t.
     checkn mnt d2 ''zz'' 10 t (\<lambda>t.
     unlinkn mnt d1 ''zz'' 10 t k))))))"

definition test_create_delete :: "mnt \<Rightarrow> string \<Rightarrow> string \<Rightarrow> fdt \<Rightarrow> (fdt \<Rightarrow> proc) \<Rightarrow> proc" where
  "test_create_delete mnt d1 d2 t k =
     createn mnt d1 ''x1'' 5 False t (\<lambda>t.
     createn mnt d2 ''x2'' 5 False t (\<lambda>t.
     forking (\<lambda>stop. unlinkn mnt d2 ''x1'' 5 t (\<lambda>t. createn mnt d1 ''x3'' 5 False t stop)) (\<lambda>pid.
     createn mnt d1 ''x4'' 5 False t (\<lambda>t.
     reap pid (
     unlinkn mnt d2 ''x2'' 5 t (\<lambda>t.
     unlinkn mnt d2 ''x4'' 5 t (\<lambda>t.
     unlinkn mnt d2 ''x3'' 5 t (\<lambda>t.
     dircheck mnt d1 0 t k))))))))"

definition test_same_server :: "mnt \<Rightarrow> string \<Rightarrow> fdt \<Rightarrow> (fdt \<Rightarrow> proc) \<Rightarrow> proc" where
  "test_same_server mnt d1 t k =
     forking (createn mnt d1 ''zz'' 10 True t) (\<lambda>pid.
     createn mnt d1 ''zz'' 10 True t (\<lambda>t.
     dircheck mnt d1 10 t (\<lambda>t.
     reap pid (
     checkn mnt d1 ''zz'' 10 t (\<lambda>t.
     unlinkn mnt d1 ''zz'' 10 t k)))))"

definition test_writes :: "mnt \<Rightarrow> string \<Rightarrow> string \<Rightarrow> fdt \<Rightarrow> (fdt \<Rightarrow> proc) \<Rightarrow> proc" where
  "test_writes mnt d1 d2 t k =
     create1 mnt d1 ''www'' huge t (\<lambda>t.
     forking (write1 mnt d2 ''www'' 10000 64 50 t) (\<lambda>pid.
     write1 mnt d1 ''www'' 0 64 49 t (\<lambda>t.
     reap pid (
     checkread mnt d1 ''www'' 0 64 49 t (\<lambda>t.
     checkread mnt d2 ''www'' 0 64 49 t (\<lambda>t.
     checkread mnt d1 ''www'' 10000 64 50 t (\<lambda>t.
     checkread mnt d2 ''www'' 10000 64 50 t k)))))))"

section \<open>The programs\<close>

text \<open>The start of \<open>main\<close>: the directory is made through one mount point and found through the other.\<close>

definition one_dir ::
    "mnt \<Rightarrow> nat \<Rightarrow> string list \<Rightarrow> (string \<Rightarrow> string \<Rightarrow> proc) \<Rightarrow> proc" where
  "one_dir mnt pid argv k =
     (if length argv \<noteq> 3 then Exit_code 1
      else let d1 = argv ! 1 @ ''/d'' @ print_nat pid; d2 = argv ! 2 @ ''/d'' @ print_nat pid in
        sprintf512 d1 (sys_mkdir mnt d1 (\<lambda>r.
          if r \<noteq> 0 then Exit_code 1
          else sprintf512 d2 (sys_access mnt d2 (\<lambda>r.
            if r \<noteq> 0 then Exit_code 1 else k d1 d2)))))"

definition sequential_tests :: "mnt \<Rightarrow> string \<Rightarrow> string \<Rightarrow> fdt \<Rightarrow> (fdt \<Rightarrow> proc) \<Rightarrow> proc" where
  "sequential_tests mnt d1 d2 t k =
     test_create_read mnt d1 d2 t (\<lambda>t.
     test_unlink mnt d1 d2 t (\<lambda>t.
     test_append mnt d1 d2 t (\<lambda>t.
     test_readdir mnt d1 d2 t (\<lambda>t.
     test_many mnt d1 d2 t (\<lambda>t.
     test_big mnt d1 d2 t k)))))"

definition concurrent_tests :: "mnt \<Rightarrow> string \<Rightarrow> string \<Rightarrow> fdt \<Rightarrow> (fdt \<Rightarrow> proc) \<Rightarrow> proc" where
  "concurrent_tests mnt d1 d2 t k =
     test_concurrent_creates mnt d1 d2 t (\<lambda>t.
     test_same_file mnt d1 d2 t (\<lambda>t.
     test_create_delete mnt d1 d2 t (\<lambda>t.
     test_same_server mnt d1 t (\<lambda>t.
     test_writes mnt d1 d2 t k))))"

definition test_lab2_part1_g :: "mnt \<Rightarrow> nat \<Rightarrow> string list \<Rightarrow> proc" where
  "test_lab2_part1_g mnt pid argv =
     one_dir mnt pid argv (\<lambda>d1 d2. sequential_tests mnt d1 d2 [] (\<lambda>t. Exit_code 0))"

definition test_lab2_part2_a :: "mnt \<Rightarrow> nat \<Rightarrow> string list \<Rightarrow> proc" where
  "test_lab2_part2_a mnt pid argv =
     one_dir mnt pid argv (\<lambda>d1 d2. concurrent_tests mnt d1 d2 [] (\<lambda>t. Exit_code 0))"

definition test_lab_3_a :: "mnt \<Rightarrow> nat \<Rightarrow> string list \<Rightarrow> proc" where
  "test_lab_3_a mnt pid argv =
     one_dir mnt pid argv (\<lambda>d1 d2.
       sequential_tests mnt d1 d2 [] (\<lambda>t. concurrent_tests mnt d1 d2 t (\<lambda>t. Exit_code 0)))"

text \<open>
  The programs with two directories, which create \<open>nf\<close> files in each and remove all but one: 100 in
  \<open>test-lab-3-b.c\<close>, 10 in \<open>test-lab2-part2-b.c\<close>.
\<close>

definition two_dirs :: "nat \<Rightarrow> mnt \<Rightarrow> nat \<Rightarrow> string list \<Rightarrow> proc" where
  "two_dirs nf mnt pid argv =
     (if length argv \<noteq> 3 then Exit_code 1
      else let d1 = argv ! 1 @ ''/da'' @ print_nat pid; d2 = argv ! 2 @ ''/db'' @ print_nat pid;
               dd = argv ! 2 @ ''/da'' @ print_nat pid in
        sprintf512 d1 (sys_mkdir mnt d1 (\<lambda>r. if r \<noteq> 0 then Exit_code 1 else
        sprintf512 d2 (sys_mkdir mnt d2 (\<lambda>r. if r \<noteq> 0 then Exit_code 1 else
        sprintf512 dd (sys_access mnt dd (\<lambda>r. if r \<noteq> 0 then Exit_code 1 else
        forking (\<lambda>stop. createn mnt d2 ''xx'' nf False [] (\<lambda>t. unlinkn mnt d2 ''xx'' (nf - 1) t stop)) (\<lambda>pid.
          createn mnt d1 ''yy'' nf False [] (\<lambda>t.
          unlinkn mnt d1 ''yy'' (nf - 1) t (\<lambda>t.
          reap pid (
          dircheck mnt d1 1 t (\<lambda>t.
          dircheck mnt d2 1 t (\<lambda>t. Exit_code 0)))))))))))))"

definition test_lab_3_b :: "mnt \<Rightarrow> nat \<Rightarrow> string list \<Rightarrow> proc" where
  "test_lab_3_b = two_dirs 100"

definition test_lab2_part2_b :: "mnt \<Rightarrow> nat \<Rightarrow> string list \<Rightarrow> proc" where
  "test_lab2_part2_b = two_dirs 10"

end
