(* ===== verification/Dir_Rules.thy ===== *)
theory Dir_Rules
  imports Rely Fs_Tests
begin

text \<open>
  A directory as the test programs use it: \<open>inside x D m\<close> says that directory \<open>D\<close> is in the root
  under the name \<open>x\<close> and holds only files. A process that owns a set of names relies on the others
  to keep these, and guarantees to touch no other name (\<open>keeps\<close>, \<open>only\<close>).
\<close>

section \<open>Entries\<close>

definition link :: "tree \<Rightarrow> inum \<Rightarrow> fname \<Rightarrow> inum option" where
  "link m D n = (case m D of Some (Dir es) \<Rightarrow> map_of es n | _ \<Rightarrow> None)"

definition entry :: "tree \<Rightarrow> inum \<Rightarrow> fname \<Rightarrow> (inum \<times> byte list) option" where
  "entry m D n = (case link m D n of
     None \<Rightarrow> None | Some i \<Rightarrow> (case m i of Some (Leaf t b) \<Rightarrow> Some (i, b) | _ \<Rightarrow> None))"

definition inside :: "fname \<Rightarrow> inum \<Rightarrow> tree \<Rightarrow> bool" where
  "inside x D m \<longleftrightarrow> tree_ok m \<and> link m 1 x = Some D \<and>
     (\<exists>es. m D = Some (Dir es) \<and> (\<forall>n i. (n, i) \<in> set es \<longrightarrow> (\<exists>b. m i = Some (Leaf 2 b))))"

definition keeps :: "fname \<Rightarrow> inum \<Rightarrow> fname set \<Rightarrow> tree \<Rightarrow> tree \<Rightarrow> bool" where
  "keeps x D N m m' \<longleftrightarrow> (inside x D m \<longrightarrow> inside x D m' \<and> (\<forall>n \<in> N. entry m' D n = entry m D n))"

definition only :: "fname \<Rightarrow> inum \<Rightarrow> fname set \<Rightarrow> tree \<Rightarrow> tree \<Rightarrow> bool" where
  "only x D N m m' \<longleftrightarrow> keeps x D (- N) m m' \<and> (\<forall>x' D'. D' \<noteq> D \<longrightarrow> keeps x' D' UNIV m m')"

lemma keeps_rely: "keeps x D N m m" "keeps x D N m m' \<Longrightarrow> keeps x D N m' m'' \<Longrightarrow> keeps x D N m m''"
  by (auto simp: keeps_def)

interpretation names: rely "keeps x D N"
  by unfold_locales (use keeps_rely in blast)+

lemma only_refl: "only x D N m m"
  by (simp add: only_def keeps_rely)

lemma only_keeps: "only x D N m m' \<Longrightarrow> D' \<noteq> D \<or> x' = x \<and> N \<inter> N' = {} \<Longrightarrow> keeps x' D' N' m m'"
  by (cases "D' = D") (auto simp: only_def keeps_def)

lemma only_mono: "only x D N m m' \<Longrightarrow> N \<subseteq> N' \<Longrightarrow> only x D N' m m'"
  by (auto simp: only_def keeps_def)

lemma link_edge: "link m D n = Some i \<Longrightarrow> edge m D n i"
  by (auto simp: link_def edge_def split: option.splits node.splits dest: map_of_SomeD)

lemma insideI:
  "tree_ok m \<Longrightarrow> link m 1 x = Some D \<Longrightarrow> m D = Some (Dir es) \<Longrightarrow>
   (\<And>n i. (n, i) \<in> set es \<Longrightarrow> \<exists>b. m i = Some (Leaf 2 b)) \<Longrightarrow> inside x D m"
  by (simp add: inside_def)

lemma insideD:
  assumes "inside x D m"
  obtains es where "tree_ok m" "link m 1 x = Some D" "D \<noteq> 1" "m D = Some (Dir es)" "distinct (map fst es)"
    "\<And>n. link m D n = map_of es n" "\<And>n i. map_of es n = Some i \<Longrightarrow> \<exists>b. m i = Some (Leaf 2 b) \<and> entry m D n = Some (i, b)"
    "\<And>n. map_of es n = None \<Longrightarrow> entry m D n = None"
proof -
  from assms obtain es where es: "tree_ok m" "link m 1 x = Some D" "m D = Some (Dir es)"
    "\<And>n i. (n, i) \<in> set es \<Longrightarrow> \<exists>b. m i = Some (Leaf 2 b)" unfolding inside_def by blast
  have l: "link m D n = map_of es n" for n using es(3) by (simp add: link_def)
  have D: "D \<noteq> 1" using tree_okD(3) [OF es(1) link_edge [OF es(2)]] by auto
  have d: "distinct (map fst es)" by (rule tree_okD(2) [OF es(1,3)])
  have "\<exists>b. m i = Some (Leaf 2 b) \<and> entry m D n = Some (i, b)" if "map_of es n = Some i" for n i
    using es(4) [OF map_of_SomeD [OF that]] that l by (auto simp: entry_def)
  moreover have "entry m D n = None" if "map_of es n = None" for n using that l by (simp add: entry_def)
  ultimately show thesis using that [OF es(1,2) D es(3) d l] by blast
qed

text \<open>A change of one entry of the directory, by a file \<open>j\<close> that is new or was the entry.\<close>

lemma at_name:
  assumes "inside x D m" "tree_ok m'" and same: "\<And>i. i \<noteq> D \<Longrightarrow> i \<noteq> j \<Longrightarrow> m' i = m i"
    and j: "m j = None \<or> link m D n = Some j" and es': "m' D = Some (Dir es')"
    and other: "\<And>n'. n' \<noteq> n \<Longrightarrow> map_of es' n' = link m D n'"
    and here: "\<And>i. map_of es' n = Some i \<Longrightarrow> i = j \<and> (\<exists>b. m' j = Some (Leaf 2 b))"
  shows "inside x D m'" "only x D {n} m m'"
proof -
  from assms(1) obtain es where ok: "tree_ok m" and x: "link m 1 x = Some D" and D: "D \<noteq> 1" "m D = Some (Dir es)"
    and l: "\<And>n. link m D n = map_of es n"
    and leaf: "\<And>n i. map_of es n = Some i \<Longrightarrow> \<exists>b. m i = Some (Leaf 2 b) \<and> entry m D n = Some (i, b)"
    by (rule insideD) blast
  have jleaf: "m j = None \<or> (\<exists>b. m j = Some (Leaf 2 b))" using j leaf l by auto
  then have j1: "j \<noteq> 1" "j \<noteq> D" using tree_okD(1) [OF ok] D(2) by auto
  have not_j: "i \<noteq> j" if "link m D' n' = Some i" "D' \<noteq> D \<or> n' \<noteq> n" for D' n' i
  proof
    assume "i = j"
    then have "m j \<noteq> None" using tree_okD(3) [OF ok link_edge [OF that(1)]] by simp
    then have "edge m D n j" using j by (auto intro: link_edge)
    with tree_okD(4) [OF ok link_edge [OF that(1)]] \<open>i = j\<close> have "D' = D" "n' = n" by blast+
    with that(2) show False by simp
  qed
  have root: "link m' 1 y = link m 1 y" for y using same [of 1] D j1 by (simp add: link_def)
  have l': "link m' D n' = link m D n'" if "n' \<noteq> n" for n' using other [OF that] es' by (simp add: link_def)
  have d': "distinct (map fst es')" by (rule tree_okD(2) [OF assms(2) es'])
  have "\<exists>b. m' i = Some (Leaf 2 b)" if "(k, i) \<in> set es'" for k i
  proof (cases "k = n")
    case True
    then show ?thesis using here that d' by force
  next
    case False
    have "link m D k = Some i" using other [OF False] that d' by simp
    moreover from this have "i \<noteq> j" using not_j False by blast
    moreover have "i \<noteq> D" using leaf [of k i] l D(2) \<open>link m D k = Some i\<close> by auto
    ultimately show ?thesis using same [of i] leaf [of k i] l by auto
  qed
  then show in': "inside x D m'" by (intro insideI [OF assms(2) _ es']) (simp_all add: root x)
  have keep: "entry m' D' n' = entry m D' n'" if "link m' D' n' = link m D' n'" "D' \<noteq> D \<or> n' \<noteq> n"
    "\<And>i. link m D' n' = Some i \<Longrightarrow> \<exists>b. m i = Some (Leaf 2 b)" for D' n'
  proof (cases "link m D' n'")
    case (Some i)
    then have "i \<noteq> j" "i \<noteq> D" using not_j that(2) that(3) [OF Some] D(2) by auto
    then show ?thesis using that(1) Some same by (simp add: entry_def)
  qed (use that(1) in \<open>simp add: entry_def\<close>)
  have "keeps x D (- {n}) m m'"
  proof -
    have "\<exists>b. m i = Some (Leaf 2 b)" if "link m D k = Some i" for k i using leaf [of k i] that l by auto
    then have "entry m' D k = entry m D k" if "k \<noteq> n" for k using keep [OF l' [OF that]] that by blast
    then show ?thesis unfolding keeps_def using in' by blast
  qed
  moreover have "keeps x' D' UNIV m m'" if "D' \<noteq> D" for x' D'
    unfolding keeps_def
  proof (intro impI)
    assume i': "inside x' D' m"
    then obtain fs where x': "link m 1 x' = Some D'" "m D' = Some (Dir fs)" "\<And>n. link m D' n = map_of fs n"
      and lf: "\<And>n i. map_of fs n = Some i \<Longrightarrow> \<exists>b. m i = Some (Leaf 2 b) \<and> entry m D' n = Some (i, b)"
      and dfs: "distinct (map fst fs)"
      by (rule insideD) blast
    have D': "m' D' = Some (Dir fs)" using same [of D'] that x'(2) jleaf by force
    have e: "\<exists>b. m i = Some (Leaf 2 b) \<and> i \<noteq> j \<and> i \<noteq> D" if "map_of fs k = Some i" for k i
      using lf [OF that] not_j [of D' k i] x'(3) \<open>D' \<noteq> D\<close> that D(2) by auto
    have "\<exists>b. m' i = Some (Leaf 2 b)" if "(k, i) \<in> set fs" for k i
      using e [of k i] same [of i] that dfs by auto
    then have "inside x' D' m'" by (intro insideI [OF assms(2) _ D']) (simp_all add: root x'(1))
    moreover have "entry m' D' k = entry m D' k" for k
      by (rule keep) (use D' x' that e in \<open>auto simp: link_def\<close>)
    ultimately show "inside x' D' m' \<and> (\<forall>n\<in>UNIV. entry m' D' n = entry m D' n)" by blast
  qed
  ultimately show "only x D {n} m m'" unfolding only_def by blast
qed

section \<open>What the tree answers\<close>

lemma tree_step_iff:
  "tree_step q a m m' \<longleftrightarrow> (\<exists>op. performs q a = Some op \<and> yfs_apply op m = Some m') \<or>
     (\<exists>i ty b. q = Rq_size i \<and> a = An_size (length b) \<and> m i = Some (Leaf ty b) \<and> m' = m)"
  by (auto elim!: tree_step.cases intro: tree_step.intros)

lemma ask_dir:
  assumes "m p = Some (Dir es)"
  shows "tree_step (Rq_lookup p n) a m m' \<longleftrightarrow>
      a = (case map_of es n of None \<Rightarrow> An_none | Some i \<Rightarrow> An_ino i) \<and> m' = m"
    "tree_step (Rq_readdir p) a m m' \<longleftrightarrow> a = An_entries es \<and> m' = m"
    "map_of es n = None \<Longrightarrow> tree_step (Rq_create T_FILE p n) a m m' \<longleftrightarrow>
      (\<exists>i. a = An_ino i \<and> m i = None \<and> m' = m(i \<mapsto> Leaf 2 [], p \<mapsto> Dir (es @ [(n, i)])))"
    "map_of es n = None \<Longrightarrow> tree_step (Rq_create T_DIR p n) a m m' \<longleftrightarrow>
      (\<exists>i. a = An_ino i \<and> m i = None \<and> m' = m(i \<mapsto> Dir [], p \<mapsto> Dir (es @ [(n, i)])))"
    "map_of es n = Some i \<Longrightarrow> tree_step (Rq_create T_FILE p n) a m m' \<longleftrightarrow> a = An_exist \<and> m' = m"
    "map_of es n = Some i \<Longrightarrow> tree_step (Rq_unlink p n) a m m' \<longleftrightarrow>
      a = An_ok \<and> m' = m(i := None, p \<mapsto> Dir (remove_first n es))"
  using assms by (cases a; auto simp: tree_step_iff in_dir_def check_def node_of_def split: option.splits)+

lemma ask_leaf:
  assumes "m i = Some (Leaf ty b)"
  shows "tree_step (Rq_read i sz off) a m m' \<longleftrightarrow> a = An_bytes (take sz (drop off b)) \<and> m' = m"
    "tree_step (Rq_write i off d) a m m' \<longleftrightarrow> a = An_ok \<and> m' = m(i \<mapsto> Leaf ty (pwrite off d b))"
    "tree_step (Rq_truncate i n) a m m' \<longleftrightarrow> a = An_ok \<and> m' = m(i \<mapsto> Leaf ty (resized n b))"
    "tree_step (Rq_size i) a m m' \<longleftrightarrow> a = An_size (length b) \<and> m' = m"
  using assms by (cases a; auto simp: tree_step_iff check_def fun_upd_idem)+

lemma tree_step_ok: "tree_step q a m m' \<Longrightarrow> tree_ok m \<Longrightarrow> tree_ok m'"
  by (auto simp: tree_step_iff intro: yfs_apply_tree_ok)

section \<open>Steps on one entry\<close>

lemma entry_SomeD:
  assumes "inside x D m" "entry m D n = Some (i, b)"
  shows "m i = Some (Leaf 2 b)" "link m D n = Some i"
  using assms by (auto elim!: insideD simp: entry_def split: option.splits node.splits)

lemma entry_NoneD: "inside x D m \<Longrightarrow> entry m D n = None \<longleftrightarrow> link m D n = None"
  by (erule insideD) (metis option.distinct(1) not_None_eq)

lemma create_entry:
  assumes "inside x D m" "entry m D n = None" "tree_step (Rq_create T_FILE D n) a m m'"
  obtains i where "a = An_ino i" "inside x D m'" "only x D {n} m m'" "entry m' D n = Some (i, [])" "m i = None"
proof -
  from assms(1) obtain es where ok: "tree_ok m" and D: "m D = Some (Dir es)" "\<And>n. link m D n = map_of es n"
    by (rule insideD) blast
  have none: "map_of es n = None" using assms(1,2) D(2) by (simp add: entry_NoneD)
  from assms(3) obtain i where a: "a = An_ino i" "m i = None" and m': "m' = m(i \<mapsto> Leaf 2 [], D \<mapsto> Dir (es @ [(n, i)]))"
    using ask_dir(3) [where m = m and p = D, OF D(1) none] by blast
  have iD: "i \<noteq> D" using a(2) D(1) by auto
  have es': "m' D = Some (Dir (es @ [(n, i)]))" and leaf: "m' i = Some (Leaf 2 [])" using m' iD by simp_all
  note at = at_name [OF assms(1) tree_step_ok [OF assms(3) ok] _ _ es', where j = i and n = n]
  have "entry m' D n = Some (i, [])" using es' leaf none by (simp add: entry_def link_def map_add_def)
  moreover have "inside x D m'" by (rule at(1)) (use m' leaf D(2) none a(2) in \<open>auto simp: map_add_def split: option.splits\<close>)
  moreover have "only x D {n} m m'" by (rule at(2)) (use m' leaf D(2) none a(2) in \<open>auto simp: map_add_def split: option.splits\<close>)
  ultimately show thesis using that a by blast
qed

lemma set_entry:
  assumes "inside x D m" "entry m D n = Some (i, b)" "m' = m(i \<mapsto> Leaf 2 b')"
  shows "inside x D m'" "only x D {n} m m'" "entry m' D n = Some (i, b')"
proof -
  from assms(1) obtain es where ok: "tree_ok m" and D: "m D = Some (Dir es)" "\<And>n. link m D n = map_of es n"
    by (rule insideD) blast
  note i = entry_SomeD [OF assms(1,2)]
  have iD: "i \<noteq> D" using i(1) D(1) by auto
  have "on_leaf i (\<lambda>_. Some b') m = Some m'" using i(1) assms(3) by simp
  then have ok': "tree_ok m'" by (rule tree_ok_leaf [OF ok])
  have es': "m' D = Some (Dir es)" using assms(3) iD D(1) by simp
  note at = at_name [OF assms(1) ok' _ _ es', where j = i and n = n]
  show "inside x D m'" by (rule at(1)) (use i D(2) assms(3) in auto)
  show "only x D {n} m m'" by (rule at(2)) (use i D(2) assms(3) in auto)
  show "entry m' D n = Some (i, b')" using i(2) es' assms(3) D(2) by (simp add: entry_def link_def)
qed

lemma unlink_entry:
  assumes "inside x D m" "entry m D n = Some (i, b)" "tree_step (Rq_unlink D n) a m m'"
  shows "a = An_ok" "inside x D m'" "only x D {n} m m'" "entry m' D n = None"
proof -
  from assms(1) obtain es where ok: "tree_ok m" and D: "m D = Some (Dir es)" "\<And>n. link m D n = map_of es n"
    and d: "distinct (map fst es)" by (rule insideD) blast
  note i = entry_SomeD [OF assms(1,2)]
  have iD: "i \<noteq> D" using i(1) D(1) by auto
  have n: "map_of es n = Some i" using i(2) D(2) by simp
  from assms(3) have a: "a = An_ok" and m': "m' = m(i := None, D \<mapsto> Dir (remove_first n es))"
    using ask_dir(6) [where m = m and p = D, OF D(1) n] by blast+
  have es': "m' D = Some (Dir (remove_first n es))" using m' by simp
  note at = at_name [OF assms(1) tree_step_ok [OF assms(3) ok] _ _ es', where j = i and n = n]
  show "a = An_ok" by fact
  show "inside x D m'" by (rule at(1)) (use i D(2) m' map_of_remove_first [OF d] in auto)
  show "only x D {n} m m'" by (rule at(2)) (use i D(2) m' map_of_remove_first [OF d] in auto)
  show "entry m' D n = None" using es' map_of_remove_first [OF d] by (simp add: entry_def link_def)
qed

section \<open>Rules for the owner of a set of names\<close>

text \<open>
  \<open>has x D N W m\<close>: the names in \<open>N\<close> stand for the files \<open>W\<close> gives. A process that owns \<open>N\<close> runs while
  others keep \<open>N\<close>, and keeps all other names itself.
\<close>

definition has :: "fname \<Rightarrow> inum \<Rightarrow> fname set \<Rightarrow> (fname \<rightharpoonup> inum \<times> byte list) \<Rightarrow> tree \<Rightarrow> bool" where
  "has x D N W m \<longleftrightarrow> inside x D m \<and> (\<forall>n \<in> N. entry m D n = W n)"

abbreviation orun :: "fname \<Rightarrow> inum \<Rightarrow> fname set \<Rightarrow> (proc \<Rightarrow> tree \<Rightarrow> bool) \<Rightarrow> proc \<Rightarrow> tree \<Rightarrow> bool" where
  "orun x D N \<equiv> rg id (keeps x D N) (only x D N)"

lemma has_keeps: "has x D N W m \<Longrightarrow> keeps x D N m m' \<Longrightarrow> has x D N W m'"
  by (auto simp: has_def keeps_def)

lemma hasD: "has x D N W m \<Longrightarrow> inside x D m" "has x D N W m \<Longrightarrow> n \<in> N \<Longrightarrow> entry m D n = W n"
  by (simp_all add: has_def)

lemma has_leaf: "has x D N W m \<Longrightarrow> n \<in> N \<Longrightarrow> W n = Some (i, b) \<Longrightarrow> m i = Some (Leaf 2 b)"
  using hasD entry_SomeD(1) by metis

lemma has_only:
  assumes "has x D N W m" "inside x D m'" "only x D {n} m m'" "entry m' D n = e"
  shows "has x D N (W(n := e)) m'"
proof -
  have "entry m' D k = entry m D k" if "k \<noteq> n" for k
    using assms(1,3) that by (auto simp: has_def only_def keeps_def)
  with assms show ?thesis by (simp add: has_def)
qed

lemma orun_op:
  assumes "has x D N W m"
    and "\<And>m. has x D N W m \<Longrightarrow> (\<exists>a m'. tree_step q a m m') \<or> no_room q m"
    and "\<And>m a m'. has x D N W m \<Longrightarrow> tree_step q a m m' \<Longrightarrow> only x D N m m' \<and> orun x D N F (k a) m'"
  shows "orun x D N F (Op q k) m"
  by (rule rg_op) (use assms has_keeps [OF assms(1)] in \<open>force+\<close>)

text \<open>A request that leaves the tree as it is and has one answer.\<close>

lemma orun_ask:
  assumes "has x D N W m" and "\<And>m a m'. has x D N W m \<Longrightarrow> tree_step q a m m' \<longleftrightarrow> a = r m \<and> m' = m"
    and "\<And>m. has x D N W m \<Longrightarrow> orun x D N F (k (r m)) m"
  shows "orun x D N F (Op q k) m"
proof (rule orun_op [OF assms(1)])
  fix m assume h: "has x D N W m"
  show "(\<exists>a m'. tree_step q a m m') \<or> no_room q m" using assms(2) [OF h] by blast
  fix a m' assume "tree_step q a m m'"
  then have "a = r m" "m' = m" using assms(2) [OF h] by auto
  with assms(3) [OF h] only_refl show "only x D N m m' \<and> orun x D N F (k a) m'" by simp
qed

lemma ask_root: "inside x D m \<Longrightarrow> tree_step (Rq_lookup 1 x) a m m' \<longleftrightarrow> a = An_ino D \<and> m' = m"
proof -
  assume "inside x D m"
  then obtain es where "m 1 = Some (Dir es)" "map_of es x = Some D"
    by (auto elim!: insideD simp: link_def split: option.splits node.splits)
  then show ?thesis by (simp add: ask_dir(1))
qed

lemma orun_root:
  assumes "has x D N W m" "\<And>m. has x D N W m \<Longrightarrow> orun x D N F (k (An_ino D)) m"
  shows "orun x D N F (Op (Rq_lookup 1 x) k) m"
  by (rule orun_ask [OF assms(1), where r = "\<lambda>_. An_ino D"]) (auto dest: hasD(1) simp: ask_root assms(2))

lemma ask_inside:
  assumes "inside x D m"
  shows "tree_step (Rq_lookup D n) a m m' \<longleftrightarrow>
    a = (case entry m D n of None \<Rightarrow> An_none | Some (i, b) \<Rightarrow> An_ino i) \<and> m' = m"
proof -
  obtain es where "m D = Some (Dir es)" "\<And>n i. map_of es n = Some i \<Longrightarrow> \<exists>b. m i = Some (Leaf 2 b) \<and> entry m D n = Some (i, b)"
    "\<And>n. map_of es n = None \<Longrightarrow> entry m D n = None" by (rule insideD [OF assms]) blast
  then show ?thesis by (cases "map_of es n") (fastforce simp: ask_dir(1))+
qed

lemma orun_lookup:
  assumes "has x D N W m" "n \<in> N"
    and "\<And>m. has x D N W m \<Longrightarrow> orun x D N F (k (case W n of None \<Rightarrow> An_none | Some (i, b) \<Rightarrow> An_ino i)) m"
  shows "orun x D N F (Op (Rq_lookup D n) k) m"
  by (rule orun_ask [OF assms(1), where r = "\<lambda>_. case W n of None \<Rightarrow> An_none | Some (i, b) \<Rightarrow> An_ino i"])
    (use assms(2,3) in \<open>simp_all add: ask_inside [OF hasD(1)] hasD(2)\<close>)

lemma orun_create:
  assumes "has x D N W m" "n \<in> N" "W n = None"
    and "\<And>m i. has x D N (W(n \<mapsto> (i, []))) m \<Longrightarrow> orun x D N F (k (An_ino i)) m"
  shows "orun x D N F (Op (Rq_create T_FILE D n) k) m"
proof (rule orun_op [OF assms(1)])
  fix m assume h: "has x D N W m"
  have none: "entry m D n = None" using hasD(2) [OF h assms(2)] assms(3) by simp
  obtain es where es: "m D = Some (Dir es)" "map_of es n = None"
    using hasD(1) [OF h] none by (auto elim!: insideD simp: entry_NoneD [OF hasD(1) [OF h]])
  show "(\<exists>a m'. tree_step (Rq_create T_FILE D n) a m m') \<or> no_room (Rq_create T_FILE D n) m"
    using ask_dir(3) [of m D es n] es by (auto simp: no_room_def)
  fix a m' assume s: "tree_step (Rq_create T_FILE D n) a m m'"
  obtain i where i: "a = An_ino i" "inside x D m'" "only x D {n} m m'" "entry m' D n = Some (i, [])"
    by (rule create_entry [OF hasD(1) [OF h] none s])
  show "only x D N m m' \<and> orun x D N F (k a) m'"
    using only_mono [OF i(3)] assms(2,4) has_only [OF h i(2,3,4)] i(1) by auto
qed

lemma orun_set:
  assumes "has x D N W m" "n \<in> N" "W n = Some (i, b)"
    and "\<And>m a m'. m i = Some (Leaf 2 b) \<Longrightarrow> tree_step q a m m' \<longleftrightarrow> a = An_ok \<and> m' = m(i \<mapsto> Leaf 2 b')"
    and "\<And>m. has x D N (W(n \<mapsto> (i, b'))) m \<Longrightarrow> orun x D N F (k An_ok) m"
  shows "orun x D N F (Op q k) m"
proof (rule orun_op [OF assms(1)])
  fix m assume h: "has x D N W m"
  have e: "entry m D n = Some (i, b)" using hasD(2) [OF h assms(2)] assms(3) by simp
  note q = assms(4) [where m = m, OF has_leaf [OF h assms(2,3)]]
  show "(\<exists>a m'. tree_step q a m m') \<or> no_room q m" using q by blast
  fix a m' assume "tree_step q a m m'"
  then have a: "a = An_ok" and m': "m' = m(i \<mapsto> Leaf 2 b')" using q by auto
  note s = set_entry [OF hasD(1) [OF h] e m']
  show "only x D N m m' \<and> orun x D N F (k a) m'"
    using only_mono [OF s(2)] assms(2,5) has_only [OF h s] a by auto
qed

lemmas orun_truncate = orun_set [OF _ _ _ ask_leaf(3)]
lemmas orun_write = orun_set [OF _ _ _ ask_leaf(2)]

lemma orun_get:
  assumes "has x D N W m" "n \<in> N" "W n = Some (i, b)"
    and "\<And>m a m'. m i = Some (Leaf 2 b) \<Longrightarrow> tree_step q a m m' \<longleftrightarrow> a = r \<and> m' = m"
    and "\<And>m. has x D N W m \<Longrightarrow> orun x D N F (k r) m"
  shows "orun x D N F (Op q k) m"
  by (rule orun_ask [OF assms(1), where r = "\<lambda>_. r"])
    (rule assms(4), erule has_leaf [where W = W and n = n, OF _ assms(2,3)], rule assms(5))

lemmas orun_read = orun_get [OF _ _ _ ask_leaf(1)]
lemmas orun_size = orun_get [OF _ _ _ ask_leaf(4)]

lemma orun_unlink:
  assumes "has x D N W m" "n \<in> N" "W n = Some (i, b)"
    and "\<And>m. has x D N (W(n := None)) m \<Longrightarrow> orun x D N F (k An_ok) m"
  shows "orun x D N F (Op (Rq_unlink D n) k) m"
proof (rule orun_op [OF assms(1)])
  fix m assume h: "has x D N W m"
  have e: "entry m D n = Some (i, b)" using hasD(2) [OF h assms(2)] assms(3) by simp
  obtain es where es: "m D = Some (Dir es)" "map_of es n = Some i"
    using hasD(1) [OF h] entry_SomeD(2) [OF hasD(1) [OF h] e] by (auto elim!: insideD)
  show "(\<exists>a m'. tree_step (Rq_unlink D n) a m m') \<or> no_room (Rq_unlink D n) m"
    using ask_dir(6) [of m D es n i] es by auto
  fix a m' assume s: "tree_step (Rq_unlink D n) a m m'"
  note u = unlink_entry [OF hasD(1) [OF h] e s]
  show "only x D N m m' \<and> orun x D N F (k a) m'"
    using only_mono [OF u(3)] assms(2,4) has_only [OF h u(2-4)] u(1) by auto
qed

text \<open>The owner of all names sees the whole directory.\<close>

lemma orun_readdir:
  assumes "has x D UNIV W m"
    and "\<And>m ds. has x D UNIV W m \<Longrightarrow> distinct (map fst ds) \<Longrightarrow> fst ` set ds = dom W \<Longrightarrow>
      orun x D UNIV F (k (An_entries ds)) m"
  shows "orun x D UNIV F (Op (Rq_readdir D) k) m"
proof (rule orun_op [OF assms(1)])
  fix m assume h: "has x D UNIV W m"
  then obtain es where es: "m D = Some (Dir es)" "distinct (map fst es)" "\<And>n. link m D n = map_of es n"
    by (rule insideD [OF hasD(1)]) blast
  have "n \<in> dom W \<longleftrightarrow> map_of es n \<noteq> None" for n
    using entry_NoneD [OF hasD(1) [OF h], of n] hasD(2) [OF h, of n] es(3) by (auto simp: domIff)
  then have dom: "fst ` set es = dom W" by (auto simp: map_of_eq_None_iff)
  show "(\<exists>a m'. tree_step (Rq_readdir D) a m m') \<or> no_room (Rq_readdir D) m"
    using ask_dir(2) [of m D es] es(1) by auto
  fix a m' assume "tree_step (Rq_readdir D) a m m'"
  then show "only x D UNIV m m' \<and> orun x D UNIV F (k a) m'"
    using ask_dir(2) [of m D es] es(1) assms(2) [OF h es(2) dom] only_refl by auto
qed

end
