(* ===== verification/Test_Rules.thy ===== *)
theory Test_Rules
  imports Dir_Rules
begin

text \<open>
  Rules for the calls of the C library and for the functions of the test programs, for a process
  that owns a set of names of a directory.
\<close>

declare T_FILE_def [simp del] EEXIST_def [simp del]

section \<open>Descriptors and paths\<close>

lemma lowest_free: "lowest_free t \<le> length t" "lowest_free t < length t \<Longrightarrow> t ! lowest_free t = None"
  by (induction t rule: lowest_free.induct) auto

lemma fd_open_get:
  assumes "fd_open f t = (fd, t')"
  shows "3 \<le> fd" "fd_get t' fd = Some f"
  using assms lowest_free(1) [of t] by (auto simp: fd_open_def fd_get_def Let_def nth_append split: if_splits)

lemma fd_get_set [simp]: "fd_get t fd = Some f \<Longrightarrow> fd_get (fd_set t fd g) fd = g"
  by (auto simp: fd_get_def fd_set_def split: if_splits)

lemma of_char_byte_inj: "inj (of_char :: char \<Rightarrow> byte)"
proof (rule injI)
  fix c c' :: char assume "(of_char c :: byte) = of_char c'"
  then have "(word_of_nat (of_char c) :: byte) = word_of_nat (of_char c')" by (simp only: of_nat_of_char)
  then have "unat (word_of_nat (of_char c) :: byte) = unat (word_of_nat (of_char c') :: byte)" by (rule arg_cong)
  then show "c = c'" by (simp add: unat_of_nat)
qed

lemma bytes_simps [simp]: "length (bytes s) = length s" "bytes s = bytes s' \<longleftrightarrow> s = s'"
  "bytes (s @ s') = bytes s @ bytes s'"
  using of_char_byte_inj by (simp_all add: bytes_def inj_map_eq_map)

text \<open>\<open>d\<close> is a path of the directory \<open>xs\<close> of the root, through one of the mount points.\<close>

definition dir_path :: "mnt \<Rightarrow> string \<Rightarrow> string \<Rightarrow> bool" where
  "dir_path mnt xs d \<longleftrightarrow> mnt d = Some [xs] \<and> length d \<le> 400 \<and>
     (\<forall>f. CHR ''/'' \<notin> set f \<longrightarrow> mnt (d @ ''/'' @ f) = Some [xs, f])"

text \<open>A name that the tests use.\<close>

definition tname :: "string \<Rightarrow> bool" where
  "tname f \<longleftrightarrow> f \<noteq> [] \<and> hd f \<noteq> CHR ''.'' \<and> CHR ''/'' \<notin> set f \<and> CHR 0x00 \<notin> set f \<and> length f \<le> 20"

lemma sprintf512_path [simp]: "dir_path mnt xs d \<Longrightarrow> tname f \<Longrightarrow> sprintf512 (d @ CHR ''/'' # f) k = k"
  by (simp add: sprintf512_def dir_path_def tname_def)

section \<open>Calls\<close>

lemma orun_walk:
  assumes "has (bytes xs) D N W m" "\<And>m. has (bytes xs) D N W m \<Longrightarrow> orun (bytes xs) D N F (k (Some D)) m"
  shows "orun (bytes xs) D N F (walk 1 [xs] k) m"
  by (simp, rule orun_root [OF assms(1)]) (simp add: assms(2))

lemma orun_parent:
  assumes "dir_path mnt xs d" "tname f" "has (bytes xs) D N W m"
    and "\<And>m. has (bytes xs) D N W m \<Longrightarrow> orun (bytes xs) D N F (k (Some (D, bytes f))) m"
  shows "orun (bytes xs) D N F (parent_dir mnt (d @ CHR ''/'' # f) k) m"
proof -
  have "mnt (d @ CHR ''/'' # f) = Some [xs, f]" using assms(1,2) by (simp add: dir_path_def tname_def)
  then show ?thesis
    using orun_walk [OF assms(3), of F "\<lambda>d. k (map_option (\<lambda>p. (p, bytes f)) d)"] assms(4)
    by (simp add: parent_dir_def del: walk.simps)
qed

lemma orun_opened:
  assumes "\<And>fd t. 3 \<le> fd \<Longrightarrow> fd_get t fd = Some \<lparr>of_ino = i, of_off = 0, of_app = app\<rparr> \<Longrightarrow> rg tr R G F (k fd 0 t) m"
  shows "rg tr R G F (opened i app t k) m"
  using assms fd_open_get by (auto simp: opened_def split: prod.splits)

abbreviation opens :: "inum \<Rightarrow> bool \<Rightarrow> int \<Rightarrow> fdt \<Rightarrow> bool" where
  "opens i app fd t \<equiv> 3 \<le> fd \<and> fd_get t fd = Some \<lparr>of_ino = i, of_off = 0, of_app = app\<rparr>"

lemma orun_creat:
  assumes "dir_path mnt xs d" "tname f" "bytes f \<in> N" "has (bytes xs) D N W m"
    and "\<And>m i fd t. has (bytes xs) D N (W(bytes f \<mapsto> (i, []))) m \<Longrightarrow> opens i False fd t \<Longrightarrow>
      orun (bytes xs) D N F (k fd 0 t) m"
  shows "orun (bytes xs) D N F (sys_creat mnt (d @ CHR ''/'' # f) t k) m"
  unfolding sys_creat_def
proof (rule orun_parent [OF assms(1,2,4)], simp, rule orun_lookup [OF _ assms(3)], assumption)
  fix m assume h: "has (bytes xs) D N W m"
  show "orun (bytes xs) D N F (case case W (bytes f) of None \<Rightarrow> An_none | Some (i, b) \<Rightarrow> An_ino i of
      An_ino i \<Rightarrow> Op (Rq_truncate i 0) (\<lambda>_. opened i False t k)
    | _ \<Rightarrow> Op (Rq_create T_FILE D (bytes f)) (\<lambda>a. case a of An_ino i \<Rightarrow> opened i False t k | _ \<Rightarrow> k (-1) EEXIST t)) m"
  proof (cases "W (bytes f)")
    case None
    show ?thesis unfolding None
      by simp (rule orun_create [OF h assms(3) None], simp, rule orun_opened, rule assms(5), auto)
  next
    case (Some a)
    obtain i b where a: "a = (i, b)" by (cases a)
    have "resized 0 b = []" by (simp add: resized_def)
    then show ?thesis unfolding Some a
      by simp (rule orun_truncate [OF h assms(3) Some [unfolded a]], assumption, rule orun_opened, rule assms(5), auto)
  qed
qed

lemma orun_open:
  assumes "dir_path mnt xs d" "tname f" "bytes f \<in> N" "has (bytes xs) D N W m" "W (bytes f) = Some (i, b)"
    and "\<And>m fd t. has (bytes xs) D N W m \<Longrightarrow> opens i (fl = O_WRONLY_APPEND) fd t \<Longrightarrow>
      orun (bytes xs) D N F (k fd 0 t) m"
  shows "orun (bytes xs) D N F (sys_open mnt fl (d @ CHR ''/'' # f) t k) m"
  unfolding sys_open_def
  by (rule orun_parent [OF assms(1,2,4)], simp split del: if_split, rule orun_lookup [OF _ assms(3)], assumption,
      simp add: assms(5), rule orun_opened, rule assms(6)) auto

lemma orun_open_missing:
  assumes "dir_path mnt xs d" "tname f" "bytes f \<in> N" "has (bytes xs) D N W m" "W (bytes f) = None"
    and "\<And>m. has (bytes xs) D N W m \<Longrightarrow> orun (bytes xs) D N F (k (-1) ENOENT t) m"
  shows "orun (bytes xs) D N F (sys_open mnt O_RDONLY (d @ CHR ''/'' # f) t k) m"
  unfolding sys_open_def
  by (rule orun_parent [OF assms(1,2,4)], simp, rule orun_lookup [OF _ assms(3)], assumption)
    (use assms(5,6) in simp)

lemma orun_sys_read:
  assumes "has x D N W m" "n \<in> N" "W n = Some (i, b)" "fd_get t fd = Some f" "of_ino f = i"
    and "\<And>m. has x D N W m \<Longrightarrow> orun x D N F (k (int (length (take sz (drop (of_off f) b)))) (take sz (drop (of_off f) b))
      (fd_set t fd (Some (f\<lparr>of_off := of_off f + length (take sz (drop (of_off f) b))\<rparr>)))) m"
  shows "orun x D N F (sys_read fd sz t k) m"
  unfolding sys_read_def assms(4) option.case assms(5)
  by (rule orun_read [OF assms(1-3)], assumption) (use assms(6) in simp)

lemma orun_write_at:
  assumes "has x D N W m" "n \<in> N" "W n = Some (i, b)" "of_ino f = i"
    and "\<And>m. has x D N (W(n \<mapsto> (i, pwrite off w b))) m \<Longrightarrow>
      orun x D N F (k (int (length w)) (fd_set t fd (Some (f\<lparr>of_off := off + length w\<rparr>)))) m"
  shows "orun x D N F (write_at fd f off w t k) m"
  unfolding write_at_def assms(4)
  by (rule orun_write [OF assms(1-3)], assumption) (use assms(5) in simp)

lemma orun_sys_write:
  assumes "has x D N W m" "n \<in> N" "W n = Some (i, b)" "fd_get t fd = Some f" "of_ino f = i"
    and "off = (if of_app f then length b else of_off f)"
    and "\<And>m. has x D N (W(n \<mapsto> (i, pwrite off w b))) m \<Longrightarrow>
      orun x D N F (k (int (length w)) (fd_set t fd (Some (f\<lparr>of_off := off + length w\<rparr>)))) m"
  shows "orun x D N F (sys_write fd w t k) m"
proof (cases "of_app f")
  case True
  show ?thesis
    unfolding sys_write_def assms(4) option.case assms(5) using True
    by simp (rule orun_size [OF assms(1-3)], assumption, simp, rule orun_write_at [where W = W and n = n, OF _ assms(2,3,5)], assumption,
      use assms(6,7) in simp)
next
  case False
  show ?thesis
    unfolding sys_write_def assms(4) option.case using False
    by simp (rule orun_write_at [OF assms(1-3,5)], use assms(6,7) in simp)
qed

lemma sys_close_ok: "fd_get t fd = Some f \<Longrightarrow> sys_close fd t k = k 0 (fd_set t fd None)"
  by (simp add: sys_close_def)

lemma orun_sys_unlink:
  assumes "dir_path mnt xs d" "tname f" "bytes f \<in> N" "has (bytes xs) D N W m" "W (bytes f) = Some (i, b)"
    and "\<And>m. has (bytes xs) D N (W(bytes f := None)) m \<Longrightarrow> orun (bytes xs) D N F (k 0) m"
  shows "orun (bytes xs) D N F (sys_unlink mnt (d @ CHR ''/'' # f) k) m"
  unfolding sys_unlink_def
  by (rule orun_parent [OF assms(1,2,4)], simp, rule orun_unlink [where W = W and n = "bytes f", OF _ assms(3,5)], assumption) (use assms(6) in simp)

section \<open>Functions of the tests\<close>

text \<open>\<open>holds x D N V m\<close>: the files under the names in \<open>N\<close> have the contents \<open>V\<close>.\<close>

definition holds :: "fname \<Rightarrow> inum \<Rightarrow> fname set \<Rightarrow> (fname \<rightharpoonup> byte list) \<Rightarrow> tree \<Rightarrow> bool" where
  "holds x D N V m \<longleftrightarrow> inside x D m \<and> (\<forall>n \<in> N. map_option snd (entry m D n) = V n)"

lemma holds_has:
  assumes "holds x D N V m"
  obtains W where "has x D N W m" "\<And>n. n \<in> N \<Longrightarrow> map_option snd (W n) = V n"
  using assms that [of "entry m D"] by (simp add: holds_def has_def)

lemma has_holds: "has x D N W m \<Longrightarrow> (\<And>n. n \<in> N \<Longrightarrow> map_option snd (W n) = V n) \<Longrightarrow> holds x D N V m"
  by (simp add: holds_def has_def)

lemma pwrite_nil [simp]: "pwrite 0 d [] = d"
  by (simp add: pwrite_def)

lemma run_create1:
  assumes "dir_path mnt xs d" "tname f" "bytes f \<in> N" "holds (bytes xs) D N V m"
    and "\<And>m t. holds (bytes xs) D N (V(bytes f \<mapsto> bytes inp)) m \<Longrightarrow> orun (bytes xs) D N F (k t) m"
  shows "orun (bytes xs) D N F (create1 mnt d f inp t k) m"
proof -
  obtain W where W: "has (bytes xs) D N W m" "\<And>n. n \<in> N \<Longrightarrow> map_option snd (W n) = V n"
    by (rule holds_has [OF assms(4)]) blast
  show ?thesis
    unfolding create1_def Let_def append_Cons append_Nil sprintf512_path [OF assms(1,2)]
  proof (rule orun_creat [OF assms(1-3) W(1)])
    fix m i fd t assume h: "has (bytes xs) D N (W(bytes f \<mapsto> (i, []))) m" and o: "opens i False fd t"
    show "orun (bytes xs) D N F (if fd < 0 then Exit_code 1
      else sys_write fd (bytes inp) t (\<lambda>cc t. if cc \<noteq> int (length inp) then Exit_code 1
        else sys_close fd t (\<lambda>r t. if r \<noteq> 0 then Exit_code 1 else k t))) m"
      using o by (auto simp: sys_close_ok intro!: orun_sys_write [OF h assms(3)] assms(5) has_holds W(2) split: if_splits)
  qed
qed

lemma run_unlink1:
  assumes "dir_path mnt xs d" "tname f" "bytes f \<in> N" "holds (bytes xs) D N V m" "V (bytes f) \<noteq> None"
    and "\<And>m. holds (bytes xs) D N (V(bytes f := None)) m \<Longrightarrow> orun (bytes xs) D N F (k t) m"
  shows "orun (bytes xs) D N F (unlink1 mnt d f t k) m"
proof -
  obtain W where W: "has (bytes xs) D N W m" "\<And>n. n \<in> N \<Longrightarrow> map_option snd (W n) = V n"
    by (rule holds_has [OF assms(4)]) blast
  obtain i b where "W (bytes f) = Some (i, b)" using W(2) [OF assms(3)] assms(5) by auto
  then show ?thesis
    unfolding unlink1_def Let_def append_Cons append_Nil sprintf512_path [OF assms(1,2)]
    by (intro orun_sys_unlink [OF assms(1-3) W(1)]) (auto intro!: assms(6) has_holds W(2) split: if_splits)
qed

lemma run_check1:
  assumes "dir_path mnt xs d" "tname f" "bytes f \<in> N" "holds (bytes xs) D N V m"
    and "V (bytes f) = Some (bytes inp)" "length inp < 21000"
    and "\<And>m t. holds (bytes xs) D N V m \<Longrightarrow> orun (bytes xs) D N F (k t) m"
  shows "orun (bytes xs) D N F (check1 mnt d f inp t k) m"
proof -
  obtain W where W: "has (bytes xs) D N W m" "\<And>n. n \<in> N \<Longrightarrow> map_option snd (W n) = V n"
    by (rule holds_has [OF assms(4)]) blast
  obtain i where i: "W (bytes f) = Some (i, bytes inp)" using W(2) [OF assms(3)] assms(5) by auto
  show ?thesis
    unfolding check1_def Let_def append_Cons append_Nil sprintf512_path [OF assms(1,2)]
  proof (rule orun_open [OF assms(1-3) W(1) i])
    fix m fd t assume h: "has (bytes xs) D N W m" and o: "opens i (O_RDONLY = O_WRONLY_APPEND) fd t"
    show "orun (bytes xs) D N F (if fd < 0 then Exit_code 1
      else sys_read fd (21000 - 1) t (\<lambda>cc buf t. if cc \<noteq> int (length inp) then Exit_code 1
        else sys_close fd t (\<lambda>r t. if \<not> strncmp_eq (length (d @ CHR ''/'' # f)) (buf @ [0]) (bytes inp @ [0])
          then Exit_code 1 else k t))) m"
      using o assms(6)
      by (auto simp: sys_close_ok strncmp_eq_def intro!: orun_sys_read [OF h assms(3) i] assms(7) has_holds W(2))
  qed
qed

lemma run_checknot:
  assumes "dir_path mnt xs d" "tname f" "bytes f \<in> N" "holds (bytes xs) D N V m" "V (bytes f) = None"
    and "\<And>m. holds (bytes xs) D N V m \<Longrightarrow> orun (bytes xs) D N F (k t) m"
  shows "orun (bytes xs) D N F (checknot mnt d f t k) m"
proof -
  obtain W where W: "has (bytes xs) D N W m" "\<And>n. n \<in> N \<Longrightarrow> map_option snd (W n) = V n"
    by (rule holds_has [OF assms(4)]) blast
  have "W (bytes f) = None" using W(2) [OF assms(3)] assms(5) by auto
  then show ?thesis
    unfolding checknot_def Let_def append_Cons append_Nil sprintf512_path [OF assms(1,2)]
    by (intro orun_open_missing [OF assms(1-3) W(1)]) (auto intro!: assms(6) has_holds W(2))
qed

lemma run_append1:
  assumes "dir_path mnt xs d" "tname f" "bytes f \<in> N" "holds (bytes xs) D N V m" "V (bytes f) = Some b"
    and "\<And>m t. holds (bytes xs) D N (V(bytes f \<mapsto> b @ bytes inp)) m \<Longrightarrow> orun (bytes xs) D N F (k t) m"
  shows "orun (bytes xs) D N F (append1 mnt d f inp t k) m"
proof -
  obtain W where W: "has (bytes xs) D N W m" "\<And>n. n \<in> N \<Longrightarrow> map_option snd (W n) = V n"
    by (rule holds_has [OF assms(4)]) blast
  obtain i where i: "W (bytes f) = Some (i, b)" using W(2) [OF assms(3)] assms(5) by auto
  have b: "pwrite (length b) (bytes inp) b = b @ bytes inp" by (simp add: pwrite_def)
  show ?thesis
    unfolding append1_def Let_def append_Cons append_Nil sprintf512_path [OF assms(1,2)]
  proof (rule orun_open [OF assms(1-3) W(1) i])
    fix m fd t assume h: "has (bytes xs) D N W m" and o: "opens i (O_WRONLY_APPEND = O_WRONLY_APPEND) fd t"
    show "orun (bytes xs) D N F (if fd < 0 then Exit_code 1
      else sys_write fd (bytes inp) t (\<lambda>cc t. if cc \<noteq> int (length inp) then Exit_code 1
        else sys_close fd t (\<lambda>r t. if r \<noteq> 0 then Exit_code 1 else k t))) m"
      using o by (auto simp: sys_close_ok b intro!: orun_sys_write [OF h assms(3) i] assms(6) has_holds W(2))
  qed
qed

section \<open>Numbered files\<close>

definition nm :: "string \<Rightarrow> nat \<Rightarrow> string" where
  "nm p i = p @ ''-'' @ print_nat i"

definition names :: "string \<Rightarrow> nat list \<Rightarrow> fname set" where
  "names p is = (\<lambda>i. bytes (nm p i)) ` set is"

definition numbered :: "string \<Rightarrow> nat list \<Rightarrow> fname \<rightharpoonup> byte list" where
  "numbered p is = map_of (map (\<lambda>i. (bytes (nm p i), le_enc 4 i)) is)"

lemma length_print_nat: "n < 10 ^ k \<Longrightarrow> 0 < k \<Longrightarrow> length (print_nat n) \<le> k"
proof (induction n arbitrary: k rule: print_nat.induct)
  case (1 n)
  show ?case
  proof (cases "n < 10")
    case False
    then obtain j where j: "k = Suc j" "0 < j" using 1(2,3) by (cases k; cases "k - 1") auto
    then have "n div 10 < 10 ^ j" using 1(2) by (simp add: div_less_iff_less_mult mult.commute)
    with 1(1) [OF False _ j(2)] j(1) False show ?thesis by (subst print_nat.simps) simp
  qed (use 1(3) in \<open>subst print_nat.simps, simp\<close>)
qed

lemma print_nat_plain: "is_digit c \<Longrightarrow> c \<noteq> CHR ''/'' \<and> c \<noteq> CHR 0x00"
  by (auto simp: is_digit_def)

lemma nm_inj [simp]: "nm p i = nm p j \<longleftrightarrow> i = j"
  by (simp add: nm_def)

lemma tname_nm:
  assumes "tname p" "length p \<le> 2" "i < 100"
  shows "tname (nm p i)"
  using assms length_print_nat [of i 2] print_nat_digits [of i] print_nat_plain
  by (auto simp: tname_def nm_def)

lemma nth_path_nm: "nth_path d p i = d @ CHR ''/'' # nm p i"
  by (simp add: nth_path_def nm_def)

lemma numbered_simps [simp]:
  "numbered p [] = Map.empty" "numbered p (i # is) = (numbered p is)(bytes (nm p i) \<mapsto> le_enc 4 i)"
  "dom (numbered p is) = names p is"
  by (auto simp: numbered_def names_def dom_map_of_conv_image_fst image_image)

lemma names_simps [simp]: "names p [] = {}" "names p (i # is) = insert (bytes (nm p i)) (names p is)"
  "bytes (nm p i) \<in> names p is \<longleftrightarrow> i \<in> set is"
  by (auto simp: names_def)

lemma run_createn_from:
  assumes "dir_path mnt xs d" "tname p" "length p \<le> 2"
  shows "set is \<subseteq> {..<100} \<Longrightarrow> distinct is \<Longrightarrow> names p is \<subseteq> N \<Longrightarrow> holds (bytes xs) D N V m \<Longrightarrow>
    (\<And>m t. holds (bytes xs) D N (V ++ numbered p is) m \<Longrightarrow> orun (bytes xs) D N F (k t) m) \<Longrightarrow>
    orun (bytes xs) D N F (createn_from mnt d p is dup t k) m"
proof (induction "is" arbitrary: V m t)
  case (Cons i "is")
  have f: "tname (nm p i)" "bytes (nm p i) \<in> N" using Cons.prems(1,3) assms(2,3) by (auto intro: tname_nm)
  obtain W where W: "has (bytes xs) D N W m" "\<And>n. n \<in> N \<Longrightarrow> map_option snd (W n) = V n"
    by (rule holds_has [OF Cons.prems(4)]) blast
  have upd: "V(bytes (nm p i) \<mapsto> le_enc 4 i) ++ numbered p is = V ++ numbered p (i # is)"
    using Cons.prems(2) by (simp add: map_add_upd_left)
  have IH: "orun (bytes xs) D N F (createn_from mnt d p is dup t k) m"
    if "holds (bytes xs) D N (V(bytes (nm p i) \<mapsto> le_enc 4 i)) m" for m t
  proof (rule Cons.IH [OF _ _ _ that])
    show "orun (bytes xs) D N F (k t) m"
      if "holds (bytes xs) D N (V(bytes (nm p i) \<mapsto> le_enc 4 i) ++ numbered p is) m" for m t
      by (rule Cons.prems(5)) (use that upd in argo)
  qed (use Cons.prems(1-3) in simp_all)
  show ?case
    unfolding createn_from.simps Let_def nth_path_nm sprintf512_path [OF assms(1) f(1)]
  proof (rule orun_creat [OF assms(1) f W(1)])
    fix m j fd t assume h: "has (bytes xs) D N (W(bytes (nm p i) \<mapsto> (j, []))) m" and o: "opens j False fd t"
    show "orun (bytes xs) D N F (if fd < 0 \<and> dup \<and> 0 = EEXIST then createn_from mnt d p is dup t k
      else if fd < 0 then Exit_code 1
      else sys_write fd (le_enc 4 i) t (\<lambda>cc t. if cc \<noteq> 4 then Exit_code 1
        else sys_close fd t (\<lambda>r t. if r \<noteq> 0 then Exit_code 1 else createn_from mnt d p is dup t k))) m"
      using o by (auto simp: sys_close_ok intro!: orun_sys_write [OF h f(2)] IH has_holds W(2) split: if_splits)
  qed
qed simp

lemma run_createn:
  assumes "dir_path mnt xs d" "tname p" "length p \<le> 2" "nf \<le> 100" "names p [0..<nf] \<subseteq> N" "holds (bytes xs) D N V m"
    and "\<And>m t. holds (bytes xs) D N (V ++ numbered p [0..<nf]) m \<Longrightarrow> orun (bytes xs) D N F (k t) m"
  shows "orun (bytes xs) D N F (createn mnt d p nf dup t k) m"
  unfolding createn_def by (rule run_createn_from [OF assms(1-3) _ _ assms(5-7)]) (use assms(4) in auto)

lemma run_checkn:
  assumes "dir_path mnt xs d" "tname p" "length p \<le> 2" "nf \<le> 100" "names p [0..<nf] \<subseteq> N" "holds (bytes xs) D N V m"
    and V: "\<And>i. i < nf \<Longrightarrow> V (bytes (nm p i)) = Some (le_enc 4 i)"
    and k: "\<And>m t. holds (bytes xs) D N V m \<Longrightarrow> orun (bytes xs) D N F (k t) m"
  shows "orun (bytes xs) D N F (checkn mnt d p nf t k) m"
proof -
  have "orun (bytes xs) D N F (checkn_from mnt d p is t k) m"
    if "set is \<subseteq> {..<nf}" "holds (bytes xs) D N V m" for "is" t m
    using that
  proof (induction "is" arbitrary: m t)
    case (Cons i "is")
    then have i: "i < nf" "set is \<subseteq> {..<nf}" by auto
    then have f: "tname (nm p i)" "bytes (nm p i) \<in> N" using assms(2-5) by (auto intro: tname_nm)
    obtain W where W: "has (bytes xs) D N W m" "\<And>n. n \<in> N \<Longrightarrow> map_option snd (W n) = V n"
      by (rule holds_has [OF Cons.prems(2)]) blast
    obtain j where j: "W (bytes (nm p i)) = Some (j, le_enc 4 i)" using W(2) [OF f(2)] V [OF i(1)] by auto
    have i': "le_dec (le_enc 4 i) = i" using i(1) assms(4) by (simp add: le_dec_enc)
    show ?case
      unfolding checkn_from.simps Let_def nth_path_nm sprintf512_path [OF assms(1) f(1)]
    proof (rule orun_open [OF assms(1) f W(1) j])
      fix m fd t assume h: "has (bytes xs) D N W m" and o: "opens j (O_RDONLY = O_WRONLY_APPEND) fd t"
      show "orun (bytes xs) D N F (if fd < 0 then Exit_code 1
        else sys_read fd 4 t (\<lambda>cc j t. if cc \<noteq> 4 then Exit_code 1
          else if le_dec j \<noteq> i then Exit_code 1 else sys_close fd t (\<lambda>r. \<lambda>t. checkn_from mnt d p is t k))) m"
        using o i' by (auto simp: sys_close_ok intro!: orun_sys_read [OF h f(2) j] Cons.IH [OF i(2)] has_holds W(2))
    qed
  qed (simp add: k)
  moreover have "set [0..<nf] \<subseteq> {..<nf}" by auto
  ultimately show ?thesis unfolding checkn_def using assms(6) by blast
qed

lemma run_unlinkn_from:
  assumes "dir_path mnt xs d" "tname p" "length p \<le> 2"
  shows "set is \<subseteq> {..<100} \<Longrightarrow> distinct is \<Longrightarrow> names p is \<subseteq> N \<inter> dom V \<Longrightarrow> holds (bytes xs) D N V m \<Longrightarrow>
    (\<And>m. holds (bytes xs) D N (V |` (- names p is)) m \<Longrightarrow> orun (bytes xs) D N F (k t) m) \<Longrightarrow>
    orun (bytes xs) D N F (unlinkn_from mnt d p is t k) m"
proof (induction "is" arbitrary: V m)
  case (Cons i "is")
  have f: "tname (nm p i)" "bytes (nm p i) \<in> N" using Cons.prems(1,3) assms(2,3) by (auto intro: tname_nm)
  obtain W where W: "has (bytes xs) D N W m" "\<And>n. n \<in> N \<Longrightarrow> map_option snd (W n) = V n"
    by (rule holds_has [OF Cons.prems(4)]) blast
  obtain j b where j: "W (bytes (nm p i)) = Some (j, b)" using W(2) [OF f(2)] Cons.prems(3) by auto
  have upd: "V(bytes (nm p i) := None) |` (- names p is) = V |` (- names p (i # is))"
    by (auto simp: restrict_map_def fun_eq_iff)
  have IH: "orun (bytes xs) D N F (unlinkn_from mnt d p is t k) m"
    if "holds (bytes xs) D N (V(bytes (nm p i) := None)) m" for m
  proof (rule Cons.IH [OF _ _ _ that])
    show "orun (bytes xs) D N F (k t) m"
      if "holds (bytes xs) D N (V(bytes (nm p i) := None) |` (- names p is)) m" for m
      by (rule Cons.prems(5)) (use that upd in argo)
    have "bytes (nm p i) \<notin> names p is" using Cons.prems(2) by simp
    then show "names p is \<subseteq> N \<inter> dom (V(bytes (nm p i) := None))" using Cons.prems(3) by auto
  qed (use Cons.prems(1,2) in simp_all)
  show ?case
    unfolding unlinkn_from.simps Let_def nth_path_nm sprintf512_path [OF assms(1) f(1)]
    by (rule orun_sys_unlink [OF assms(1) f W(1) j]) (auto intro!: IH has_holds W(2) split: if_splits)
qed (simp add: restrict_map_def)

lemma run_unlinkn:
  assumes "dir_path mnt xs d" "tname p" "length p \<le> 2" "nf \<le> 100" "names p [0..<nf] \<subseteq> N \<inter> dom V" "holds (bytes xs) D N V m"
    and "\<And>m. holds (bytes xs) D N (V |` (- names p [0..<nf])) m \<Longrightarrow> orun (bytes xs) D N F (k t) m"
  shows "orun (bytes xs) D N F (unlinkn mnt d p nf t k) m"
  unfolding unlinkn_def
  by (rule run_unlinkn_from [where V = V and k = k, OF assms(1-3) _ _ assms(5-7)]) (use assms(4) in auto)

section \<open>Listing the directory\<close>

lemma no_neighbours: "distinct xs \<Longrightarrow> \<not> neighbours_equal xs"
  by (induction xs rule: neighbours_equal.induct) auto

lemma tname_c_str:
  assumes "tname f"
  shows "c_str (bytes f) = bytes f" "visible (bytes f)"
proof -
  have z: "(0 :: byte) = of_char (CHR 0x00)" and d: "(46 :: byte) = of_char (CHR ''.'')" by simp_all
  have "(0 :: byte) \<notin> set (bytes f)"
    unfolding z bytes_def using assms inj_eq [OF of_char_byte_inj] by (auto simp del: of_char_Char simp: tname_def)
  then show "c_str (bytes f) = bytes f" by (auto simp: c_str_def takeWhile_eq_all_conv)
  show "visible (bytes f)"
    unfolding visible_def d bytes_def using assms inj_eq [OF of_char_byte_inj]
    by (cases f) (auto simp del: of_char_Char simp: tname_def)
qed

definition dir_seen :: "nat \<Rightarrow> fname list \<Rightarrow> proc \<Rightarrow> proc" where
  "dir_seen nf es k =
     (let names = filter visible es in
      if length names > 1000 then Crash Out_of_bounds
      else if nf \<noteq> length names then Exit_code 1
      else if neighbours_equal (sort names) then Exit_code 1 else k)"

lemma dircheck_seen: "dircheck mnt d nf t k = sys_readdir mnt d (\<lambda>es. case es of None \<Rightarrow> Exit_code 1 | Some es \<Rightarrow> dir_seen nf es (k t))"
  unfolding dircheck_def dir_seen_def by (rule refl)

lemma dir_seen_ok:
  assumes "distinct (map fst ds)" "fst ` set ds = M" "card M = nf" "nf \<le> 1000" "M \<subseteq> bytes ` Collect tname"
  shows "dir_seen nf (map (c_str \<circ> fst) ds) k = k"
proof -
  have "c_str (fst p) = fst p \<and> visible (fst p)" if "p \<in> set ds" for p
  proof -
    have "fst p \<in> bytes ` Collect tname" using assms(2,5) that by auto
    then show ?thesis using tname_c_str by auto
  qed
  then have names: "filter visible (map (c_str \<circ> fst) ds) = map fst ds"
    by (simp add: filter_map comp_def cong: map_cong)
  have "length (map fst ds) = nf" using distinct_card [OF assms(1)] assms(2,3) by simp
  then show ?thesis
    using assms(1,4) names no_neighbours [of "sort (map fst ds)"] by (simp add: dir_seen_def)
qed

lemma run_dircheck:
  assumes "dir_path mnt xs d" "holds (bytes xs) D UNIV V m" "card (dom V) = nf" "nf \<le> 1000"
    and tn: "dom V \<subseteq> bytes ` Collect tname"
    and k: "\<And>m. holds (bytes xs) D UNIV V m \<Longrightarrow> orun (bytes xs) D UNIV F (k t) m"
  shows "orun (bytes xs) D UNIV F (dircheck mnt d nf t k) m"
proof -
  obtain W where W: "has (bytes xs) D UNIV W m" "\<And>n. map_option snd (W n) = V n"
    by (rule holds_has [OF assms(2)]) blast
  have dom: "dom W = dom V" unfolding dom_def W(2) [symmetric] by simp
  have mnt: "mnt d = Some [xs]" using assms(1) by (simp add: dir_path_def)
  show ?thesis
    unfolding dircheck_seen sys_readdir_def mnt option.case
  proof (rule orun_walk [OF W(1)], unfold option.case, erule orun_readdir, unfold fans.case option.case)
    fix m and ds :: "(fname \<times> inum) list"
    assume h: "has (bytes xs) D UNIV W m" and ds: "distinct (map fst ds)" "fst ` set ds = dom W"
    show "orun (bytes xs) D UNIV F (dir_seen nf (map (c_str \<circ> fst) ds) (k t)) m"
      unfolding dir_seen_ok [OF ds [unfolded dom] assms(3,4) tn] by (rule k [OF has_holds [OF h W(2)]])
  qed
qed

end
