(* ===== verification/Tests_Pass.thy ===== *)
theory Tests_Pass
  imports Test_Rules
begin

text \<open>
  The test programs pass on the abstract file system, whatever the order in which the steps of
  their processes come.
\<close>

section \<open>One process\<close>

lemma holds_eq: "holds x D N V m \<Longrightarrow> V = V' \<Longrightarrow> holds x D N V' m"
  by simp

lemmas run_rules = run_create1 run_check1 run_unlink1 run_checknot run_append1

lemma tname_simps [simp]:
  "tname ''f1''" "tname ''f2''" "tname ''f3''" "tname ''fx1''" "tname ''fx2''" "tname ''bf''" "tname ''www''"
  "tname ''aa''" "tname ''bb''" "tname ''xx''" "tname ''yy''" "tname ''zz''" "tname ''x1''" "tname ''x2''"
  "tname ''x3''" "tname ''x4''"
  by (simp_all add: tname_def)

lemma run_first:
  assumes d: "dir_path mnt xs d1" "dir_path mnt xs d2" and h: "holds (bytes xs) D UNIV Map.empty m"
    and k: "\<And>m t. holds (bytes xs) D UNIV Map.empty m \<Longrightarrow> orun (bytes xs) D UNIV F (k t) m"
  shows "orun (bytes xs) D UNIV F (test_create_read mnt d1 d2 t (\<lambda>t. test_unlink mnt d1 d2 t (\<lambda>t.
    test_append mnt d1 d2 t (\<lambda>t. test_readdir mnt d1 d2 t k)))) m"
proof -
  have b: "bytes ''aaa'' @ bytes ''bbb'' @ bytes ''ccc'' = bytes ''aaabbbccc''" by (simp flip: bytes_simps(3))
  show ?thesis
    unfolding test_create_read_def test_unlink_def test_append_def test_readdir_def
    by (insert h, ((rule run_rules, rule d, simp, simp, assumption, ((simp add: b; fail)+)?) |
      (rule run_dircheck, rule d, assumption, ((simp; fail)+)))+, rule k, erule holds_eq, simp)
qed

lemma run_big:
  assumes d: "dir_path mnt xs d1" "dir_path mnt xs d2" and h: "holds (bytes xs) D UNIV Map.empty m"
    and k: "\<And>m t. holds (bytes xs) D UNIV Map.empty m \<Longrightarrow> orun (bytes xs) D UNIV F (k t) m"
  shows "orun (bytes xs) D UNIV F (test_big mnt d1 d2 t k) m"
  unfolding test_big_def
  by (insert h, (rule run_rules, rule d, simp, simp, assumption, ((simp add: big_def; fail)+)?)+,
      rule k, erule holds_eq, simp)

lemma nm_eq [simp]: "length p = length q \<Longrightarrow> nm p i = nm q j \<longleftrightarrow> p = q \<and> i = j"
  by (auto simp: nm_def)

lemma names_disjoint: "length p = length q \<Longrightarrow> p \<noteq> q \<Longrightarrow> names p is \<inter> names q js = {}"
  by (auto simp: names_def)

lemma card_names: "distinct is \<Longrightarrow> card (names p is) = length is"
  by (simp add: names_def card_image inj_on_def distinct_card)

lemma numbered_at [simp]: "i \<in> set is \<Longrightarrow> numbered p is (bytes (nm p i)) = Some (le_enc 4 i)"
  by (induction "is") auto

lemma numbered_not [simp]: "length p = length q \<Longrightarrow> p \<noteq> q \<Longrightarrow> numbered p is (bytes (nm q i)) = None"
  by (induction "is") auto

lemma numbered_None: "numbered p is x = None \<longleftrightarrow> x \<notin> names p is"
  by (metis domIff numbered_simps(3))

lemma finite_names [simp]: "finite (names p is)"
  by (simp add: names_def)

lemma names_tname: "tname p \<Longrightarrow> length p \<le> 2 \<Longrightarrow> set is \<subseteq> {..<100} \<Longrightarrow> names p is \<subseteq> bytes ` Collect tname"
  by (auto simp: names_def intro!: imageI tname_nm)

lemma two_groups:
  assumes "tname p" "tname q" "length p = 2" "length q = 2" "p \<noteq> q" "n \<le> 100"
  shows "card (names p [0..<n] \<union> names q [0..<n]) = 2 * n" "names p [0..<n] \<union> names q [0..<n] \<subseteq> bytes ` Collect tname"
proof -
  have "names p [0..<n] \<inter> names q [0..<n] = {}" using assms by (simp add: names_disjoint)
  then show "card (names p [0..<n] \<union> names q [0..<n]) = 2 * n"
    by (simp add: card_Un_disjoint card_names)
  show "names p [0..<n] \<union> names q [0..<n] \<subseteq> bytes ` Collect tname"
    using assms by (intro Un_least names_tname) auto
qed

text \<open>What remains of two groups of files when the names of one are removed.\<close>

lemma restrict_removed:
  assumes "dom V \<inter> dom V' = {}"
  shows "(V ++ V') |` (- dom V) = V'" "(V ++ V') |` (- dom V') = V" "V |` (- dom V) = Map.empty"
proof -
  have "V x = None \<or> V' x = None" for x using assms by (metis IntI domIff empty_iff)
  then show "(V ++ V') |` (- dom V) = V'" "(V ++ V') |` (- dom V') = V"
    by (auto simp: fun_eq_iff restrict_map_def map_add_def domIff split: option.splits) (metis option.distinct(1))+
  show "V |` (- dom V) = Map.empty" by (simp add: fun_eq_iff restrict_map_def domIff)
qed

lemma group_removed [simp]: "numbered p is |` (- names p is) = Map.empty"
  using restrict_removed(3) [of "numbered p is" Map.empty] by simp

lemma groups_removed:
  assumes "length p = length q" "p \<noteq> q"
  shows "(numbered p is ++ numbered q js) |` (- names p is) = numbered q js"
    "(numbered p is ++ numbered q js) |` (- names q js) = numbered p is"
  using restrict_removed [of "numbered p is" "numbered q js"] names_disjoint [OF assms] by simp_all

text \<open>Two groups of files, made, listed, checked through both paths and removed.\<close>

abbreviation two :: "string \<Rightarrow> string \<Rightarrow> nat \<Rightarrow> fname \<rightharpoonup> byte list" where
  "two p q n \<equiv> numbered p [0..<n] ++ numbered q [0..<n]"

lemma two_at:
  assumes "length p = length q" "p \<noteq> q" "i < n"
  shows "two p q n (bytes (nm p i)) = Some (le_enc 4 i)" "two p q n (bytes (nm q i)) = Some (le_enc 4 i)"
  using assms by (simp_all add: map_add_def)

lemma run_many_n:
  assumes d: "dir_path mnt xs d1" "dir_path mnt xs d2" and h: "holds (bytes xs) D UNIV Map.empty m"
    and pq: "tname p" "tname q" "length p = 2" "length q = 2" "p \<noteq> q" "n \<le> 100"
    and k: "\<And>m t. holds (bytes xs) D UNIV Map.empty m \<Longrightarrow> orun (bytes xs) D UNIV F (k t) m"
  shows "orun (bytes xs) D UNIV F (createn mnt d1 p n False t (\<lambda>t. createn mnt d2 q n False t (\<lambda>t.
    dircheck mnt d2 (2 * n) t (\<lambda>t. checkn mnt d2 q n t (\<lambda>t. checkn mnt d2 p n t (\<lambda>t.
    checkn mnt d1 p n t (\<lambda>t. checkn mnt d1 q n t (\<lambda>t.
    unlinkn mnt d1 p n t (\<lambda>t. unlinkn mnt d2 q n t k))))))))) m"
proof -
  have len: "length p \<le> 2" "length q \<le> 2" "length p = length q" using pq by simp_all
  have dom: "dom (two p q n) = names p [0..<n] \<union> names q [0..<n]" by (auto simp: Un_commute)
  note at = two_at [OF len(3) pq(5)] and gone = groups_removed [OF len(3) pq(5)] and groups = two_groups [OF pq]
  show ?thesis
  proof (rule run_createn [OF d(1) pq(1) len(1) pq(6) subset_UNIV h], unfold empty_map_add,
      erule run_createn [OF d(2) pq(2) len(2) pq(6) subset_UNIV],
      erule run_dircheck [OF d(2)], goal_cases)
    case (4 m t m')
    note c = run_checkn [where V = "two p q n", OF _ _ _ pq(6) subset_UNIV]
    have q: "orun (bytes xs) D UNIV F (unlinkn mnt d2 q n t k) m" if "holds (bytes xs) D UNIV (numbered q [0..<n]) m" for t m
      by (rule run_unlinkn [where V = "numbered q [0..<n]", OF d(2) pq(2) len(2) pq(6) _ that]) (simp_all add: k)
    have "orun (bytes xs) D UNIV F (unlinkn mnt d1 p n t (\<lambda>t. unlinkn mnt d2 q n t k)) m"
      if "holds (bytes xs) D UNIV (two p q n) m" for t m
      by (rule run_unlinkn [where V = "two p q n", OF d(1) pq(1) len(1) pq(6) _ that]) (simp_all add: dom gone q)
    then show ?case
      by (intro c [OF d(2) pq(2) len(2)] c [OF d(2) pq(1) len(1)] c [OF d(1) pq(1) len(1)] c [OF d(1) pq(2) len(2)] at 4)
  qed (use groups pq(6) dom in auto)
qed

lemma run_many:
  assumes d: "dir_path mnt xs d1" "dir_path mnt xs d2" and h: "holds (bytes xs) D UNIV Map.empty m"
    and k: "\<And>m t. holds (bytes xs) D UNIV Map.empty m \<Longrightarrow> orun (bytes xs) D UNIV F (k t) m"
  shows "orun (bytes xs) D UNIV F (test_many mnt d1 d2 t k) m"
  unfolding test_many_def
  using run_many_n [OF d h, of "''aa''" "''bb''" 10 F k] k by simp

lemma run_sequential:
  assumes d: "dir_path mnt xs d1" "dir_path mnt xs d2" and h: "holds (bytes xs) D UNIV Map.empty m"
    and k: "\<And>m t. holds (bytes xs) D UNIV Map.empty m \<Longrightarrow> orun (bytes xs) D UNIV F (k t) m"
  shows "orun (bytes xs) D UNIV F (sequential_tests mnt d1 d2 t k) m"
  unfolding sequential_tests_def
  by (rule run_first [OF d h], rule run_many [OF d], assumption, rule run_big [OF d], assumption, rule k)

end
