(* ===== verification/Tests_Concurrent.thy ===== *)
theory Tests_Concurrent
  imports Tests_Pass
begin

text \<open>
  The tests with two processes: on different names of one directory, on the same names, on
  different parts of one file, and in different directories.
\<close>

section \<open>Different names\<close>

lemma holds_keeps: "holds x D N V m \<Longrightarrow> keeps x D N m m' \<Longrightarrow> holds x D N V m'"
  by (auto simp: holds_def keeps_def)

lemma holds_mono: "holds x D N V m \<Longrightarrow> N' \<subseteq> N \<Longrightarrow> holds x D N' V m"
  by (auto simp: holds_def)

lemma holds_join: "holds x D N V m \<Longrightarrow> holds x D (- N) V' m \<Longrightarrow> holds x D UNIV (\<lambda>n. if n \<in> N then V n else V' n) m"
  by (auto simp: holds_def)

text \<open>The rest of a program, where it is known to pass.\<close>

lemma orun_rest:
  assumes "\<And>m. holds x D N V m \<Longrightarrow> F p m" "holds x D N V m"
  shows "orun x D N F p m"
  by (rule rg_stop) (use assms holds_keeps in blast)

abbreviation done_alone :: "proc \<Rightarrow> tree \<Rightarrow> bool" where
  "done_alone p m \<equiv> passes (m, p, None)"

lemma passes_alone: "orun x D N done_alone p m \<Longrightarrow> passes (m, p, None)"
  using names.rg_alone [of id x D N "only x D N" p m] by simp

lemma passes_fork:
  assumes "\<And>pid. 0 < pid \<Longrightarrow> passes (m, k pid, Some (pid, k 0))"
  shows "passes (m, Fork k, None)"
proof (rule p_step [OF running(2) disjI1])
  show "\<exists>z. run_step tree_step (m, Fork k, None) z" by (rule exI) (rule r_fork [of 1], simp)
  show "passes z" if "run_step tree_step (m, Fork k, None) z" for z using that by cases (auto intro: assms)
qed

lemma passes_forking:
  assumes "\<And>pid. 0 < pid \<Longrightarrow> passes (m, parent pid, Some (pid, child (\<lambda>t. Exit_code 0)))"
  shows "passes (m, forking child parent, None)"
  unfolding forking_def by (rule passes_fork) (use assms in auto)

interpretation apart: rely_pair "keeps x D (- N)" "keeps x D N" id "only x D (- N)" "only x D N"
  by unfold_locales (auto intro: only_keeps)

lemma fork_apart:
  assumes h: "holds x D UNIV V m"
    and P: "\<And>F pid m k. holds x D (- N) V m \<Longrightarrow> (\<And>m t. holds x D (- N) Vp m \<Longrightarrow> orun x D (- N) F (k t) m) \<Longrightarrow>
      orun x D (- N) F (P k) m"
    and C: "\<And>F m k. holds x D N V m \<Longrightarrow> (\<And>m t. holds x D N Vc m \<Longrightarrow> orun x D N F (k t) m) \<Longrightarrow> orun x D N F (C k) m"
    and join: "\<And>m t. holds x D UNIV (\<lambda>n. if n \<in> N then Vc n else Vp n) m \<Longrightarrow> passes (m, q t, None)"
  shows "passes (m, forking C (\<lambda>pid. P (\<lambda>t. reap pid (q t))), None)"
proof (rule passes_forking)
  fix pid :: int assume "0 < pid"
  let ?A = "\<lambda>k m. holds x D (- N) Vp m \<and> (\<exists>t. k pid 0 = q t)"
  have p: "orun x D (- N) (\<lambda>p m. \<exists>k. p = Waitpid pid k \<and> ?A k m) (P (\<lambda>t. reap pid (q t))) m"
    by (rule P, rule holds_mono [OF h], simp, rule orun_rest [where V = Vp]) (use \<open>0 < pid\<close> in \<open>auto simp: reap_def\<close>)
  have c: "orun x D N (\<lambda>c m. c = Exit_code 0 \<and> holds x D N Vc m) (C (\<lambda>t. Exit_code 0)) m"
    by (rule C, rule holds_mono [OF h], simp, rule orun_rest [where V = Vc]) auto
  have "passes (id m, P (\<lambda>t. reap pid (q t)), Some (pid, C (\<lambda>t. Exit_code 0)))"
    by (rule apart.both_pass [OF p c]) (use join holds_join in fastforce)
  then show "passes (m, P (\<lambda>t. reap pid (q t)), Some (pid, C (\<lambda>t. Exit_code 0)))" by simp
qed

text \<open>Groups of numbered files: a process that does not own a group may make, check or remove another.\<close>

lemma other_group: "tname p \<Longrightarrow> length p = 2 \<Longrightarrow> length q = 2 \<Longrightarrow> p \<noteq> q \<Longrightarrow> names p is \<subseteq> - names q js"
  using names_disjoint [of p q "is" js] by auto

lemma join_group: "(\<lambda>n. if n \<in> names q is then numbered q is n else V n) = V ++ numbered q is"
  using numbered_None [of q "is"] by (auto simp: fun_eq_iff map_add_def split: option.splits) (metis option.distinct(1))

lemma pass_creates_n:
  assumes d: "dir_path mnt xs d1" "dir_path mnt xs d2" and h: "holds (bytes xs) D UNIV Map.empty m"
    and pq: "tname p" "tname q" "length p = 2" "length q = 2" "p \<noteq> q" "n \<le> 100"
    and k: "\<And>m t. holds (bytes xs) D UNIV Map.empty m \<Longrightarrow> passes (m, k t, None)"
  shows "passes (m, forking (createn mnt d2 q n False t) (\<lambda>pid. createn mnt d1 p n False t (\<lambda>t. reap pid (
    dircheck mnt d1 (2 * n) t (\<lambda>t. checkn mnt d1 q n t (\<lambda>t. checkn mnt d2 p n t (\<lambda>t.
    unlinkn mnt d1 q n t (\<lambda>t. unlinkn mnt d1 p n t k))))))), None)"
proof -
  have len: "length p \<le> 2" "length q \<le> 2" "length p = length q" using pq by simp_all
  have dom: "dom (two p q n) = names p [0..<n] \<union> names q [0..<n]" by (auto simp: Un_commute)
  note at = two_at [OF len(3) pq(5)] and gone = groups_removed [OF len(3) pq(5)] and groups = two_groups [OF pq]
  note c = run_checkn [where V = "two p q n", OF _ _ _ pq(6) subset_UNIV]
  let ?F = done_alone and ?x = "bytes xs"
  have 1: "orun ?x D UNIV ?F (unlinkn mnt d1 p n t k) m" if "holds ?x D UNIV (numbered p [0..<n]) m" for t m
    by (rule run_unlinkn [where V = "numbered p [0..<n]", OF d(1) pq(1) len(1) pq(6) _ that])
      (auto intro: orun_rest [where V = Map.empty] k)
  have 2: "orun ?x D UNIV ?F (unlinkn mnt d1 q n t (\<lambda>t. unlinkn mnt d1 p n t k)) m"
    if "holds ?x D UNIV (two p q n) m" for t m
    by (rule run_unlinkn [where V = "two p q n", OF d(1) pq(2) len(2) pq(6) _ that]) (simp_all add: dom gone 1)
  have 3: "orun ?x D UNIV ?F (dircheck mnt d1 (2 * n) t (\<lambda>t. checkn mnt d1 q n t (\<lambda>t. checkn mnt d2 p n t (\<lambda>t.
    unlinkn mnt d1 q n t (\<lambda>t. unlinkn mnt d1 p n t k))))) m" if "holds ?x D UNIV (two p q n) m" for t m
    by (rule run_dircheck [OF d(1) that _ _ _ c [OF d(1) pq(2) len(2) _ _ c [OF d(2) pq(1) len(1) _ _ 2]]])
      (use groups pq(6) at in \<open>auto simp: dom Un_commute\<close>)
  show ?thesis
  proof (rule fork_apart [OF h, where N = "names q [0..<n]" and Vp = "numbered p [0..<n]" and Vc = "numbered q [0..<n]"
        and P = "createn mnt d1 p n False t"])
    fix F m and k :: "fdt \<Rightarrow> proc"
    assume "holds ?x D (- names q [0..<n]) Map.empty m"
      and "\<And>m t. holds ?x D (- names q [0..<n]) (numbered p [0..<n]) m \<Longrightarrow> orun ?x D (- names q [0..<n]) F (k t) m"
    then show "orun ?x D (- names q [0..<n]) F (createn mnt d1 p n False t k) m"
      by (intro run_createn [OF d(1) pq(1) len(1) pq(6) other_group]) (use pq in auto)
  next
    fix F m and k :: "fdt \<Rightarrow> proc"
    assume "holds ?x D (names q [0..<n]) Map.empty m"
      and "\<And>m t. holds ?x D (names q [0..<n]) (numbered q [0..<n]) m \<Longrightarrow> orun ?x D (names q [0..<n]) F (k t) m"
    then show "orun ?x D (names q [0..<n]) F (createn mnt d2 q n False t k) m"
      by (intro run_createn [OF d(2) pq(2) len(2) pq(6)]) auto
  qed (rule passes_alone, rule 3, simp only: join_group)
qed

lemma pass_concurrent_creates:
  assumes d: "dir_path mnt xs d1" "dir_path mnt xs d2" and h: "holds (bytes xs) D UNIV Map.empty m"
    and k: "\<And>m t. holds (bytes xs) D UNIV Map.empty m \<Longrightarrow> passes (m, k t, None)"
  shows "passes (m, test_concurrent_creates mnt d1 d2 t k, None)"
  unfolding test_concurrent_creates_def
  using pass_creates_n [OF d h, of "''yy''" "''xx''" 10 k t] k by simp

lemma unlink_all:
  assumes d: "dir_path mnt xs d" and p: "tname p" "length p \<le> 2" "n \<le> 100" "names p [0..<n] \<subseteq> dom V"
    and h: "holds (bytes xs) D UNIV V m"
    and k: "\<And>m. holds (bytes xs) D UNIV (V |` (- names p [0..<n])) m \<Longrightarrow> done_alone (k t) m"
  shows "done_alone (unlinkn mnt d p n t k) m"
  by (rule passes_alone, rule run_unlinkn [where V = V, OF d p(1-3) _ h])
    (use p(4) k in \<open>auto intro: orun_rest [where V = "V |` (- names p [0..<n])"]\<close>)

lemma dom_choice: "dom (\<lambda>n. if n \<in> N then V n else V' n) = N \<inter> dom V \<union> (- N) \<inter> dom V'"
  by (auto simp: dom_def split: if_splits)

lemma pass_create_delete_n:
  assumes d: "dir_path mnt xs d1" "dir_path mnt xs d2" and h: "holds (bytes xs) D UNIV Map.empty m"
    and t: "tname a" "tname b" "tname c" "tname e" and len: "length a = 2" "length b = 2" "length c = 2" "length e = 2"
    and ne: "a \<noteq> b" "a \<noteq> c" "a \<noteq> e" "b \<noteq> c" "b \<noteq> e" "c \<noteq> e" and n: "n \<le> 100"
    and k: "\<And>m t. holds (bytes xs) D UNIV Map.empty m \<Longrightarrow> passes (m, k t, None)"
  shows "passes (m, createn mnt d1 a n False t (\<lambda>t. createn mnt d2 b n False t (\<lambda>t.
     forking (\<lambda>stop. unlinkn mnt d2 a n t (\<lambda>t. createn mnt d1 c n False t stop)) (\<lambda>pid.
     createn mnt d1 e n False t (\<lambda>t. reap pid (
     unlinkn mnt d2 b n t (\<lambda>t. unlinkn mnt d2 e n t (\<lambda>t. unlinkn mnt d2 c n t (\<lambda>t.
     dircheck mnt d1 0 t k)))))))), None)"
proof -
  let ?x = "bytes xs" and ?g = "\<lambda>p. numbered p [0..<n]" and ?n = "\<lambda>p. names p [0..<n]"
  let ?N = "?n a \<union> ?n c" and ?V = "?g a ++ ?g b" and ?V1 = "?g a ++ ?g b ++ ?g e"
  let ?V2 = "((?g a ++ ?g b) |` (- ?n a)) ++ ?g c"
  let ?J = "\<lambda>n. if n \<in> ?N then ?V2 n else ?V1 n"
  have len': "length a \<le> 2" "length b \<le> 2" "length c \<le> 2" "length e \<le> 2" using len by simp_all
  have dis: "?n p \<inter> ?n q = {}" if "p \<in> {a, b, c, e}" "q \<in> {a, b, c, e}" "p \<noteq> q" for p q
    using that len by (intro names_disjoint) auto
  have V2: "dom ?V2 = ?n c \<union> (?n b \<union> ?n a) \<inter> (- ?n a)" and V1: "dom ?V1 = ?n e \<union> (?n b \<union> ?n a)"
    by (simp_all only: dom_map_add dom_restrict numbered_simps(3))
  have "dom ?J = ?N \<inter> dom ?V2 \<union> (- ?N) \<inter> dom ?V1" by (rule dom_choice)
  also have "\<dots> = ?n b \<union> ?n c \<union> ?n e"
    unfolding V1 V2
    using dis [of a b] dis [of a c] dis [of a e] dis [of b c] dis [of c e] ne by blast
  finally have dom: "dom ?J = ?n b \<union> ?n c \<union> ?n e" .
  let ?J1 = "?J |` (- ?n b)" and ?J2 = "?J |` (- ?n b) |` (- ?n e)"
  have in_dom: "?n b \<subseteq> dom ?J" "?n e \<subseteq> dom ?J1" "?n c \<subseteq> dom ?J2" and none: "dom (?J2 |` (- ?n c)) = {}"
    using dis [of b e] dis [of b c] dis [of e c] ne unfolding dom_restrict dom by auto
  have empty: "?J2 |` (- ?n c) = Map.empty" by (rule none [unfolded dom_eq_empty_conv])
  have rest: "passes (m, unlinkn mnt d2 b n t (\<lambda>t. unlinkn mnt d2 e n t (\<lambda>t. unlinkn mnt d2 c n t (\<lambda>t.
      dircheck mnt d1 0 t k))), None)" if "holds ?x D UNIV ?J m" for t m
  proof (rule unlink_all [OF d(2) t(2) len'(2) n in_dom(1) that], rule unlink_all [OF d(2) t(4) len'(4) n in_dom(2)], assumption,
      rule unlink_all [OF d(2) t(3) len'(3) n in_dom(3)], assumption)
    fix m assume "holds ?x D UNIV (?J2 |` (- ?n c)) m"
    then have h: "holds ?x D UNIV Map.empty m" by (simp only: empty)
    show "passes (m, dircheck mnt d1 0 t k, None)"
      by (rule passes_alone, rule run_dircheck [OF d(1) h]) (auto intro: orun_rest [where V = Map.empty] k)
  qed
  have fork: "passes (m, forking (\<lambda>stop. unlinkn mnt d2 a n t (\<lambda>t. createn mnt d1 c n False t stop)) (\<lambda>pid.
     createn mnt d1 e n False t (\<lambda>t. reap pid (
     unlinkn mnt d2 b n t (\<lambda>t. unlinkn mnt d2 e n t (\<lambda>t. unlinkn mnt d2 c n t (\<lambda>t.
     dircheck mnt d1 0 t k)))))), None)" if h: "holds ?x D UNIV ?V m" for t m
  proof (rule fork_apart [OF h, where N = ?N and Vp = ?V1 and Vc = ?V2 and P = "createn mnt d1 e n False t"])
    fix F m and k :: "fdt \<Rightarrow> proc"
    assume "holds ?x D (- ?N) ?V m" "\<And>m t. holds ?x D (- ?N) ?V1 m \<Longrightarrow> orun ?x D (- ?N) F (k t) m"
    then show "orun ?x D (- ?N) F (createn mnt d1 e n False t k) m"
      by (intro run_createn [OF d(1) t(4) len'(4) n]) (use dis [of a e] dis [of c e] ne in auto)
  next
    fix F m and k :: "fdt \<Rightarrow> proc"
    assume V: "holds ?x D ?N ?V m" and k: "\<And>m t. holds ?x D ?N ?V2 m \<Longrightarrow> orun ?x D ?N F (k t) m"
    show "orun ?x D ?N F (unlinkn mnt d2 a n t (\<lambda>t. createn mnt d1 c n False t k)) m"
      by (rule run_unlinkn [OF d(2) t(1) len'(1) n _ V], force, rule run_createn [OF d(1) t(3) len'(3) n], force, assumption, rule k)
  qed (rule rest)
  show ?thesis
    by (rule passes_alone, rule run_createn [OF d(1) t(1) len'(1) n subset_UNIV h], unfold empty_map_add,
      erule run_createn [OF d(2) t(2) len'(2) n subset_UNIV], rule orun_rest [where V = ?V]) (rule fork)
qed

lemma pass_create_delete:
  assumes d: "dir_path mnt xs d1" "dir_path mnt xs d2" and h: "holds (bytes xs) D UNIV Map.empty m"
    and k: "\<And>m t. holds (bytes xs) D UNIV Map.empty m \<Longrightarrow> passes (m, k t, None)"
  shows "passes (m, test_create_delete mnt d1 d2 t k, None)"
  unfolding test_create_delete_def
  using pass_create_delete_n [OF d h, of "''x1''" "''x2''" "''x3''" "''x4''" 5 k t] k by simp

end
