(* ===== verification/Tests_Shared.thy ===== *)
theory Tests_Shared
  imports Tests_Concurrent
begin

text \<open>
  Two processes that create the same files. A file may be empty while a process that truncated
  or made it has yet to write it: the states of the calculus carry, for each process, the names
  of the files that it still has to write.
\<close>

section \<open>Files that are being written\<close>

type_synonym pending = "tree \<times> (bool \<Rightarrow> fname set)"

definition shared_ok :: "fname \<Rightarrow> inum \<Rightarrow> (fname \<rightharpoonup> byte list) \<Rightarrow> pending \<Rightarrow> bool" where
  "shared_ok x D V s \<longleftrightarrow> inside x D (fst s) \<and>
     (\<forall>n i b. entry (fst s) D n = Some (i, b) \<longrightarrow>
       (\<exists>v. V n = Some v \<and> (b = v \<or> b = [] \<and> (\<exists>p. n \<in> snd s p))))"

text \<open>What the other process may do to process \<open>p\<close>: it removes no file.\<close>

definition shares :: "fname \<Rightarrow> inum \<Rightarrow> (fname \<rightharpoonup> byte list) \<Rightarrow> bool \<Rightarrow> pending \<Rightarrow> pending \<Rightarrow> bool" where
  "shares x D V p s s' \<longleftrightarrow> (shared_ok x D V s \<longrightarrow> shared_ok x D V s' \<and> snd s' p = snd s p \<and>
     link (fst s) D \<subseteq>\<^sub>m link (fst s') D)"

interpretation shared: rely_pair "shares x D V False" "shares x D V True" fst "shares x D V True" "shares x D V False"
  by unfold_locales (auto simp: shares_def intro: map_le_trans)

text \<open>Process \<open>p\<close> has the files \<open>h\<close> to write and knows the links \<open>L\<close>.\<close>

definition knows ::
    "fname \<Rightarrow> inum \<Rightarrow> (fname \<rightharpoonup> byte list) \<Rightarrow> bool \<Rightarrow> fname set \<Rightarrow> (fname \<rightharpoonup> inum) \<Rightarrow> pending \<Rightarrow> bool" where
  "knows x D V p h L s \<longleftrightarrow> shared_ok x D V s \<and> snd s p = h \<and> L \<subseteq>\<^sub>m link (fst s) D"

abbreviation zrun ::
    "fname \<Rightarrow> inum \<Rightarrow> (fname \<rightharpoonup> byte list) \<Rightarrow> bool \<Rightarrow> (proc \<Rightarrow> pending \<Rightarrow> bool) \<Rightarrow> proc \<Rightarrow> pending \<Rightarrow> bool" where
  "zrun x D V p \<equiv> rg fst (shares x D V p) (shares x D V (\<not> p))"

lemma knows_shares: "knows x D V p h L s \<Longrightarrow> shares x D V p s s' \<Longrightarrow> knows x D V p h L s'"
  by (auto simp: knows_def shares_def intro: map_le_trans)

lemma knows_inside: "knows x D V p h L s \<Longrightarrow> inside x D (fst s)"
  by (simp add: knows_def shared_ok_def)

lemma zrun_op:
  assumes "knows x D V p h L s"
    and "\<And>s. knows x D V p h L s \<Longrightarrow> (\<exists>a m. tree_step q a (fst s) m) \<or> no_room q (fst s)"
    and "\<And>s a m. knows x D V p h L s \<Longrightarrow> tree_step q a (fst s) m \<Longrightarrow>
      \<exists>g. shares x D V (\<not> p) s (m, g) \<and> zrun x D V p F (k a) (m, g)"
  shows "zrun x D V p F (Op q k) s"
proof (rule rg_op)
  fix t assume "shares x D V p s t"
  then have t: "knows x D V p h L t" by (rule knows_shares [OF assms(1)])
  show "(\<exists>a m. tree_step q a (fst t) m) \<or> no_room q (fst t)" by (rule assms(2) [OF t])
  fix a m assume "tree_step q a (fst t) m"
  from assms(3) [OF t this] show "\<exists>t'. fst t' = m \<and> shares x D V (\<not> p) t t' \<and> zrun x D V p F (k a) t'"
    by (metis fst_conv)
qed

lemma zrun_ask:
  assumes "knows x D V p h L s"
    and "\<And>s. knows x D V p h L s \<Longrightarrow> \<exists>r. (\<forall>a m. tree_step q a (fst s) m \<longleftrightarrow> a = r \<and> m = fst s) \<and> zrun x D V p F (k r) s"
  shows "zrun x D V p F (Op q k) s"
proof (rule zrun_op [OF assms(1)])
  fix s assume "knows x D V p h L s"
  then obtain r where r: "\<And>a m. tree_step q a (fst s) m \<longleftrightarrow> a = r \<and> m = fst s" "zrun x D V p F (k r) s"
    using assms(2) by blast
  show "(\<exists>a m. tree_step q a (fst s) m) \<or> no_room q (fst s)" using r(1) by blast
  fix a m assume "tree_step q a (fst s) m"
  then have "a = r" "(m, snd s) = s" using r(1) by auto
  then show "\<exists>g. shares x D V (\<not> p) s (m, g) \<and> zrun x D V p F (k a) (m, g)"
    using r(2) shared.parent.R_refl shared.child.R_refl by (intro exI [of _ "snd s"]) (cases p, auto)
qed

lemma knows_root: "knows x D V p h L s \<Longrightarrow> tree_step (Rq_lookup 1 x) a (fst s) m \<longleftrightarrow> a = An_ino D \<and> m = fst s"
  by (drule knows_inside) (rule ask_root)

lemma knows_lookup:
  "knows x D V p h L s \<Longrightarrow> tree_step (Rq_lookup D n) a (fst s) m \<longleftrightarrow>
    a = (case entry (fst s) D n of None \<Rightarrow> An_none | Some (i, b) \<Rightarrow> An_ino i) \<and> m = fst s"
  by (drule knows_inside) (rule ask_inside)

lemma entry_link:
  assumes "inside x D m"
  shows "link m D n = map_option fst (entry m D n)"
proof -
  have "entry m D n = None \<Longrightarrow> link m D n = None" using entry_NoneD [OF assms] by simp
  moreover have "entry m D n = Some (i, b) \<Longrightarrow> link m D n = Some i" for i b using entry_SomeD [OF assms] by blast
  ultimately show ?thesis by (cases "entry m D n") auto
qed

lemma knows_entry:
  assumes "knows x D V p h L s" "L n = Some i"
  obtains b v where "entry (fst s) D n = Some (i, b)" "V n = Some v" "b = v \<or> b = []"
proof -
  have le: "L \<subseteq>\<^sub>m link (fst s) D" and ok: "shared_ok x D V s" using assms(1) by (simp_all add: knows_def)
  have "link (fst s) D n = Some i" using le assms(2) unfolding map_le_def by (metis domI)
  then obtain b where b: "entry (fst s) D n = Some (i, b)" using entry_link [OF knows_inside [OF assms(1)], of n] by auto
  with ok that show thesis unfolding shared_ok_def by blast
qed

lemma knows_more: "knows x D V p h L s \<Longrightarrow> entry (fst s) D n = Some (i, b) \<Longrightarrow> knows x D V p h (L(n \<mapsto> i)) s"
  using entry_link [OF knows_inside, of x D V p h L s n] by (auto simp: knows_def map_le_def)

text \<open>A step of process \<open>p\<close> at one name.\<close>

lemma knows_step:
  assumes s: "knows x D V p h L s" and o: "inside x D m" "only x D {n} (fst s) m" "entry m D n = Some (i, b)"
    and i: "\<And>j c. entry (fst s) D n = Some (j, c) \<Longrightarrow> j = i"
    and b: "V n = Some v" "b = v \<or> b = [] \<and> n \<in> h'" and h': "h' = insert n h \<or> h' = h - {n} \<and> b = v"
  shows "shares x D V (\<not> p) s (m, (snd s)(p := h'))" "knows x D V p h' (L(n \<mapsto> i)) (m, (snd s)(p := h'))"
proof -
  have other: "entry m D k = entry (fst s) D k" if "k \<noteq> n" for k
    using o(2) that knows_inside [OF s] unfolding only_def keeps_def by blast
  have le: "link (fst s) D \<subseteq>\<^sub>m link m D"
    unfolding map_le_def
  proof
    fix k assume k: "k \<in> dom (link (fst s) D)"
    note l = entry_link [OF knows_inside [OF s], of k] entry_link [OF o(1), of k]
    show "link (fst s) D k = link m D k"
    proof (cases "k = n")
      case True
      obtain j c where j: "entry (fst s) D n = Some (j, c)" using k l(1) True by (cases "entry (fst s) D n") auto
      then show ?thesis using i [OF j] l o(3) True by simp
    qed (simp add: l other)
  qed
  have ok: "shared_ok x D V (m, (snd s)(p := h'))"
  proof -
    have "\<exists>v. V k = Some v \<and> (c = v \<or> c = [] \<and> (\<exists>q. k \<in> ((snd s)(p := h')) q))" if "entry m D k = Some (j, c)" for k j c
    proof (cases "k = n")
      case True
      then show ?thesis using that o(3) b by auto
    next
      case False
      have "snd s p = h" using s by (simp add: knows_def)
      then have "k \<in> snd s q \<Longrightarrow> k \<in> ((snd s)(p := h')) q" for q using h' False by auto
      moreover have "\<exists>v. V k = Some v \<and> (c = v \<or> c = [] \<and> (\<exists>q. k \<in> snd s q))"
        using s that other [OF False] by (auto simp: knows_def shared_ok_def)
      ultimately show ?thesis by blast
    qed
    then show ?thesis using o(1) by (simp add: shared_ok_def)
  qed
  then show "shares x D V (\<not> p) s (m, (snd s)(p := h'))" using le by (auto simp: shares_def)
  have "(L(n \<mapsto> i)) \<subseteq>\<^sub>m link m D"
    using map_le_trans [of L, OF _ le] s entry_link [OF o(1), of n] o(3) by (auto simp: knows_def map_le_def)
  then show "knows x D V p h' (L(n \<mapsto> i)) (m, (snd s)(p := h'))" using ok by (simp add: knows_def)
qed

lemma zrun_create:
  assumes "knows x D V p h L s" "V n = Some v"
    and "\<And>s i. knows x D V p (insert n h) (L(n \<mapsto> i)) s \<Longrightarrow> zrun x D V p F (k (An_ino i)) s"
    and "\<And>s i. knows x D V p h (L(n \<mapsto> i)) s \<Longrightarrow> zrun x D V p F (k An_exist) s"
  shows "zrun x D V p F (Op (Rq_create T_FILE D n) k) s"
proof (rule zrun_op [OF assms(1)])
  fix s assume s: "knows x D V p h L s"
  obtain es where es: "fst s D = Some (Dir es)" "\<And>n. link (fst s) D n = map_of es n"
    by (rule insideD [OF knows_inside [OF s]]) blast
  show "(\<exists>a m. tree_step (Rq_create T_FILE D n) a (fst s) m) \<or> no_room (Rq_create T_FILE D n) (fst s)"
    using ask_dir(3,5) [of "fst s" D es n] es(1) by (cases "map_of es n") (auto simp: no_room_def)
  fix a m assume t: "tree_step (Rq_create T_FILE D n) a (fst s) m"
  show "\<exists>g. shares x D V (\<not> p) s (m, g) \<and> zrun x D V p F (k a) (m, g)"
  proof (cases "entry (fst s) D n")
    case None
    obtain i where i: "a = An_ino i" "inside x D m" "only x D {n} (fst s) m" "entry m D n = Some (i, [])"
      by (rule create_entry [OF knows_inside [OF s] None t])
    show ?thesis
      unfolding i(1) using knows_step [OF s i(2-4) _ assms(2), of "insert n h"] None assms(3) by auto
  next
    case (Some e)
    obtain i b where e: "e = (i, b)" by (cases e)
    have "map_of es n = Some i" using entry_link [OF knows_inside [OF s], of n] Some es(2) e by simp
    with t es(1) have a: "a = An_exist" and m: "(m, snd s) = s" using ask_dir(5) [of "fst s" D es n i] by auto
    have "zrun x D V p F (k An_exist) s" using assms(4) knows_more [OF s] Some e by blast
    then show ?thesis
      unfolding a using m shared.parent.R_refl shared.child.R_refl by (intro exI [of _ "snd s"]) (cases p, auto)
  qed
qed

lemma zrun_set:
  assumes "knows x D V p h L s" "V n = Some v" "L n = Some i" "b' = v \<or> b' = [] \<and> n \<in> h'" "h' = insert n h \<or> h' = h - {n} \<and> b' = v"
    and "\<And>b m a m'. b = v \<or> b = [] \<Longrightarrow> m i = Some (Leaf 2 b) \<Longrightarrow> tree_step q a m m' \<longleftrightarrow> a = An_ok \<and> m' = m(i \<mapsto> Leaf 2 b')"
    and k: "\<And>s. knows x D V p h' L s \<Longrightarrow> zrun x D V p F (k An_ok) s"
  shows "zrun x D V p F (Op q k) s"
proof (rule zrun_op [OF assms(1)])
  fix s assume s: "knows x D V p h L s"
  obtain b where e: "entry (fst s) D n = Some (i, b)" "b = v \<or> b = []"
    using knows_entry [OF s assms(3)] assms(2) by (metis option.inject)
  note q = assms(6) [where b = b and m = "fst s", OF e(2) entry_SomeD(1) [OF knows_inside [OF s] e(1)]]
  show "(\<exists>a m. tree_step q a (fst s) m) \<or> no_room q (fst s)" using q by blast
  fix a m assume "tree_step q a (fst s) m"
  then have a: "a = An_ok" and m: "m = (fst s)(i \<mapsto> Leaf 2 b')" using q by auto
  have L: "L(n \<mapsto> i) = L" using assms(3) by auto
  show "\<exists>g. shares x D V (\<not> p) s (m, g) \<and> zrun x D V p F (k a) (m, g)"
    using knows_step [OF s set_entry [OF knows_inside [OF s] e(1) m] _ assms(2,4,5)] e(1) k unfolding a L by auto
qed

text \<open>A process that knows all files of the group sees them all.\<close>

lemma zrun_readdir:
  assumes "knows x D V p h L s" "dom L = dom V"
    and "\<And>s ds. knows x D V p h L s \<Longrightarrow> distinct (map fst ds) \<Longrightarrow> fst ` set ds = dom V \<Longrightarrow> zrun x D V p F (k (An_entries ds)) s"
  shows "zrun x D V p F (Op (Rq_readdir D) k) s"
proof (rule zrun_ask [OF assms(1)])
  fix s assume s: "knows x D V p h L s"
  obtain es where es: "fst s D = Some (Dir es)" "distinct (map fst es)" "\<And>n. link (fst s) D n = map_of es n"
    by (rule insideD [OF knows_inside [OF s]]) blast
  have "n \<in> dom V \<longleftrightarrow> map_of es n \<noteq> None" for n
  proof
    assume "n \<in> dom V"
    then show "map_of es n \<noteq> None" using s assms(2) es(3) by (metis domIff knows_def map_le_def)
  next
    assume "map_of es n \<noteq> None"
    then have "entry (fst s) D n \<noteq> None" using entry_link [OF knows_inside [OF s]] es(3) by (metis option.map_disc_iff)
    then show "n \<in> dom V" using s by (fastforce simp: knows_def shared_ok_def)
  qed
  then have "fst ` set es = dom V" by (auto simp: map_of_eq_None_iff)
  then show "\<exists>r. (\<forall>a m. tree_step (Rq_readdir D) a (fst s) m \<longleftrightarrow> a = r \<and> m = fst s) \<and> zrun x D V p F (k r) s"
    using ask_dir(2) [where m = "fst s" and p = D, OF es(1)] assms(3) [OF s es(2)] by blast
qed

section \<open>Creating the same files\<close>

lemma zrun_walk:
  assumes "knows (bytes xs) D V p h L s" "\<And>s. knows (bytes xs) D V p h L s \<Longrightarrow> zrun (bytes xs) D V p F (k (Some D)) s"
  shows "zrun (bytes xs) D V p F (walk 1 [xs] k) s"
  by (simp, rule zrun_ask [OF assms(1)], rule exI [of _ "An_ino D"]) (simp add: knows_root assms(2))

lemma zrun_parent:
  assumes "dir_path mnt xs d" "tname f" "knows (bytes xs) D V p h L s"
    and "\<And>s. knows (bytes xs) D V p h L s \<Longrightarrow> zrun (bytes xs) D V p F (k (Some (D, bytes f))) s"
  shows "zrun (bytes xs) D V p F (parent_dir mnt (d @ CHR ''/'' # f) k) s"
proof -
  have "mnt (d @ CHR ''/'' # f) = Some [xs, f]" using assms(1,2) by (simp add: dir_path_def tname_def)
  then show ?thesis
    using zrun_walk [OF assms(3), of F "\<lambda>d. k (map_option (\<lambda>p. (p, bytes f)) d)"] assms(4)
    by (simp add: parent_dir_def del: walk.simps)
qed

lemma zrun_creat:
  assumes "dir_path mnt xs d" "tname f" "knows (bytes xs) D V p h L s" "V (bytes f) = Some v"
    and opened: "\<And>s i fd t. knows (bytes xs) D V p (insert (bytes f) h) (L(bytes f \<mapsto> i)) s \<Longrightarrow> opens i False fd t \<Longrightarrow>
      zrun (bytes xs) D V p F (k fd 0 t) s"
    and exist: "\<And>s i. knows (bytes xs) D V p h (L(bytes f \<mapsto> i)) s \<Longrightarrow> zrun (bytes xs) D V p F (k (-1) EEXIST t) s"
  shows "zrun (bytes xs) D V p F (sys_creat mnt (d @ CHR ''/'' # f) t k) s"
  unfolding sys_creat_def
proof (rule zrun_parent [OF assms(1-3)], unfold option.case prod.case, rule zrun_ask, assumption)
  fix s assume s: "knows (bytes xs) D V p h L s"
  have r: "resized 0 b = []" for b by (simp add: resized_def)
  show "\<exists>r. (\<forall>a m. tree_step (Rq_lookup D (bytes f)) a (fst s) m \<longleftrightarrow> a = r \<and> m = fst s) \<and>
    zrun (bytes xs) D V p F (case r of An_ino i \<Rightarrow> Op (Rq_truncate i 0) (\<lambda>_. opened i False t k)
      | _ \<Rightarrow> Op (Rq_create T_FILE D (bytes f)) (\<lambda>a. case a of An_ino i \<Rightarrow> opened i False t k | _ \<Rightarrow> k (-1) EEXIST t)) s"
  proof (cases "entry (fst s) D (bytes f)")
    case None
    have "zrun (bytes xs) D V p F (Op (Rq_create T_FILE D (bytes f))
      (\<lambda>a. case a of An_ino i \<Rightarrow> opened i False t k | _ \<Rightarrow> k (-1) EEXIST t)) s"
      by (rule zrun_create [OF s assms(4)]) (auto intro: orun_opened opened exist)
    then show ?thesis using knows_lookup [OF s] None by (intro exI [of _ An_none]) simp
  next
    case (Some e)
    obtain i b where e: "e = (i, b)" by (cases e)
    have "zrun (bytes xs) D V p F (Op (Rq_truncate i 0) (\<lambda>_. opened i False t k)) s"
      by (rule zrun_set [OF knows_more [OF s Some [unfolded e]] assms(4), where i = i and h' = "insert (bytes f) h"])
        (auto simp: ask_leaf(3) r intro: orun_opened opened)
    then show ?thesis using knows_lookup [OF s] Some e by (intro exI [of _ "An_ino i"]) simp
  qed
qed

lemma zrun_createn_from:
  assumes "dir_path mnt xs d" "tname q" "length q \<le> 2" "set is \<subseteq> {..<100}" "knows (bytes xs) D V p {} L s"
    and V: "\<And>i. i \<in> set is \<Longrightarrow> V (bytes (nm q i)) = Some (le_enc 4 i)"
    and k: "\<And>s t L'. knows (bytes xs) D V p {} L' s \<Longrightarrow> dom L' = dom L \<union> names q is \<Longrightarrow> zrun (bytes xs) D V p F (k t) s"
  shows "zrun (bytes xs) D V p F (createn_from mnt d q is True t k) s"
  using assms(4-)
proof (induction "is" arbitrary: L s t)
  case (Cons i "is")
  let ?f = "bytes (nm q i)"
  have f: "tname (nm q i)" and V: "V ?f = Some (le_enc 4 i)" using Cons.prems(1,3) assms(2,3) by (auto intro: tname_nm)
  have IH: "zrun (bytes xs) D V p F (createn_from mnt d q is True t k) s"
    if "knows (bytes xs) D V p {} (L(?f \<mapsto> j)) s" for s j t
  proof (rule Cons.IH [OF _ that])
    fix s t L' assume "knows (bytes xs) D V p {} L' s" "dom L' = dom (L(?f \<mapsto> j)) \<union> names q is"
    then show "zrun (bytes xs) D V p F (k t) s" by (intro Cons.prems(4)) (simp_all del: fun_upd_apply)
  qed (use Cons.prems(1,3) in auto)
  have w: "pwrite 0 (le_enc 4 i) b = le_enc 4 i" if "b = le_enc 4 i \<or> b = []" for b
    using that by (auto simp: pwrite_def)
  show ?case
    unfolding createn_from.simps Let_def nth_path_nm sprintf512_path [OF assms(1) f]
  proof (rule zrun_creat [OF assms(1) f Cons.prems(2) V])
    fix s j fd t assume s: "knows (bytes xs) D V p (insert ?f {}) (L(?f \<mapsto> j)) s" and o: "opens j False fd t"
    have "zrun (bytes xs) D V p F (sys_write fd (le_enc 4 i) t (\<lambda>cc t. if cc \<noteq> 4 then Exit_code 1
        else sys_close fd t (\<lambda>r t. if r \<noteq> 0 then Exit_code 1 else createn_from mnt d q is True t k))) s"
      using o unfolding sys_write_def write_at_def
      by (simp, intro zrun_set [OF s V, where i = j and h' = "{}"]) (auto simp: ask_leaf(2) w sys_close_ok intro: IH)
    then show "zrun (bytes xs) D V p F (if fd < 0 \<and> True \<and> 0 = EEXIST then createn_from mnt d q is True t k
      else if fd < 0 then Exit_code 1
      else sys_write fd (le_enc 4 i) t (\<lambda>cc t. if cc \<noteq> 4 then Exit_code 1
        else sys_close fd t (\<lambda>r t. if r \<noteq> 0 then Exit_code 1 else createn_from mnt d q is True t k))) s"
      using o by simp
  qed (simp add: IH)
qed simp

lemma zrun_dircheck:
  assumes "dir_path mnt xs d" "knows (bytes xs) D V p h L s" "dom L = dom V" "card (dom V) = nf" "nf \<le> 1000"
    and tn: "dom V \<subseteq> bytes ` Collect tname"
    and k: "\<And>s. knows (bytes xs) D V p h L s \<Longrightarrow> zrun (bytes xs) D V p F (k t) s"
  shows "zrun (bytes xs) D V p F (dircheck mnt d nf t k) s"
proof -
  have mnt: "mnt d = Some [xs]" using assms(1) by (simp add: dir_path_def)
  show ?thesis
    unfolding dircheck_seen sys_readdir_def mnt option.case
    by (rule zrun_walk [OF assms(2)], unfold option.case, erule zrun_readdir [OF _ assms(3)])
      (simp add: dir_seen_ok [OF _ _ assms(4,5) tn] k)
qed

text \<open>When both processes are done, every file has its contents.\<close>

lemma both_know:
  assumes "knows x D V False {} L s" "knows x D V True {} L' s" "dom L = dom V"
  shows "holds x D UNIV V (fst s)"
proof -
  have g: "n \<notin> snd s p" for n p using assms(1,2) by (cases p) (auto simp: knows_def)
  have "map_option snd (entry (fst s) D n) = V n" for n
  proof (cases "V n")
    case None
    then show ?thesis using assms(1) by (cases "entry (fst s) D n") (fastforce simp: knows_def shared_ok_def)+
  next
    case (Some v)
    then obtain i where "L n = Some i" using assms(3) by blast
    then obtain b where "entry (fst s) D n = Some (i, b)" by (rule knows_entry [OF assms(1)])
    moreover have "shared_ok x D V s" using assms(1) by (simp add: knows_def)
    ultimately show ?thesis using g Some by (force simp: shared_ok_def)
  qed
  then show ?thesis using knows_inside [OF assms(1)] by (simp add: holds_def)
qed

lemma fork_same:
  assumes d: "dir_path mnt xs d1" "dir_path mnt xs d2" and h: "holds (bytes xs) D UNIV Map.empty m"
    and q: "tname q" "length q \<le> 2" "n \<le> 100"
    and k: "\<And>m t. holds (bytes xs) D UNIV (numbered q [0..<n]) m \<Longrightarrow> passes (m, k t, None)"
  shows "passes (m, forking (createn mnt d2 q n True t) (\<lambda>pid. createn mnt d1 q n True t (\<lambda>t.
    dircheck mnt d1 n t (\<lambda>t. reap pid (k t)))), None)"
proof (rule passes_forking)
  fix pid :: int assume "0 < pid"
  let ?x = "bytes xs" and ?V = "numbered q [0..<n]" and ?s = "(m, \<lambda>_ :: bool. {} :: fname set)"
  have s: "knows ?x D ?V p {} Map.empty ?s" for p
    using h by (auto simp: knows_def shared_ok_def holds_def)
  have V: "?V (bytes (nm q i)) = Some (le_enc 4 i)" if "i \<in> set [0..<n]" for i using that by (rule numbered_at)
  have n: "set [0..<n] \<subseteq> {..<100}" using q(3) by auto
  have dom: "card (dom ?V) = n" "n \<le> 1000" "dom ?V \<subseteq> bytes ` Collect tname"
    using q(3) names_tname [OF q(1,2) n] by (simp_all add: card_names)
  let ?done = "\<lambda>p s. \<exists>L. knows ?x D ?V p {} L s \<and> dom L = dom ?V"
  have stop: "zrun ?x D ?V p F c s" if "knows ?x D ?V p {} L s" "dom L = dom ?V" "\<And>s. ?done p s \<Longrightarrow> F c s" for p F c s L
    by (rule rg_stop) (use that knows_shares in blast)
  have p: "zrun ?x D ?V False (\<lambda>c s. \<exists>j. c = Waitpid pid j \<and> ?done False s \<and> (\<exists>t. j pid 0 = k t))
      (createn mnt d1 q n True t (\<lambda>t. dircheck mnt d1 n t (\<lambda>t. reap pid (k t)))) ?s"
    unfolding createn_def
    by (rule zrun_createn_from [OF d(1) q(1,2) n s V], assumption, rule zrun_dircheck [OF d(1) _ _ dom], assumption, simp,
        rule stop, assumption, simp) (use \<open>0 < pid\<close> in \<open>auto simp: reap_def\<close>)
  have c: "zrun ?x D ?V True (\<lambda>c s. c = Exit_code 0 \<and> ?done True s) (createn mnt d2 q n True t (\<lambda>t. Exit_code 0)) ?s"
    unfolding createn_def
    by (rule zrun_createn_from [OF d(2) q(1,2) n s V], assumption, rule stop, assumption) auto
  have "passes (fst ?s, createn mnt d1 q n True t (\<lambda>t. dircheck mnt d1 n t (\<lambda>t. reap pid (k t))),
      Some (pid, createn mnt d2 q n True t (\<lambda>t. Exit_code 0)))"
    by (rule shared.both_pass [OF p [simplified] c [simplified]]) (use both_know k in force)
  then show "passes (m, createn mnt d1 q n True t (\<lambda>t. dircheck mnt d1 n t (\<lambda>t. reap pid (k t))),
      Some (pid, createn mnt d2 q n True t (\<lambda>t. Exit_code 0)))" by simp
qed

lemma check_and_unlink:
  assumes d: "dir_path mnt xs d1" "dir_path mnt xs d2" and h: "holds (bytes xs) D UNIV (numbered q [0..<n]) m"
    and q: "tname q" "length q \<le> 2" "n \<le> 100"
    and k: "\<And>m t. holds (bytes xs) D UNIV Map.empty m \<Longrightarrow> passes (m, k t, None)"
  shows "passes (m, unlinkn mnt d1 q n t k, None)" "passes (m, checkn mnt d1 q n t (\<lambda>t. unlinkn mnt d1 q n t k), None)"
    "passes (m, checkn mnt d1 q n t (\<lambda>t. checkn mnt d2 q n t (\<lambda>t. unlinkn mnt d1 q n t k)), None)"
proof -
  let ?V = "numbered q [0..<n]"
  have u: "orun (bytes xs) D UNIV done_alone (unlinkn mnt d1 q n t k) m" if "holds (bytes xs) D UNIV ?V m" for m t
    by (rule run_unlinkn [where V = ?V, OF d(1) q _ that]) (auto intro: orun_rest [where V = Map.empty] k)
  note c = run_checkn [where V = ?V and nf = n, OF _ q subset_UNIV]
  have one: "orun (bytes xs) D UNIV done_alone (checkn mnt d q n t k') m"
    if "holds (bytes xs) D UNIV ?V m" "dir_path mnt xs d" "\<And>m t. holds (bytes xs) D UNIV ?V m \<Longrightarrow> orun (bytes xs) D UNIV done_alone (k' t) m"
    for d t k' m by (rule c [OF that(2,1) _ that(3)]) simp_all
  show "passes (m, unlinkn mnt d1 q n t k, None)" by (rule passes_alone, rule u [OF h])
  show "passes (m, checkn mnt d1 q n t (\<lambda>t. unlinkn mnt d1 q n t k), None)"
    by (rule passes_alone, rule one [OF h d(1) u])
  show "passes (m, checkn mnt d1 q n t (\<lambda>t. checkn mnt d2 q n t (\<lambda>t. unlinkn mnt d1 q n t k)), None)"
    by (rule passes_alone, rule one [OF h d(1) one [OF _ d(2) u]])
qed

lemma pass_same_file:
  assumes d: "dir_path mnt xs d1" "dir_path mnt xs d2" and h: "holds (bytes xs) D UNIV Map.empty m"
    and k: "\<And>m t. holds (bytes xs) D UNIV Map.empty m \<Longrightarrow> passes (m, k t, None)"
  shows "passes (m, test_same_file mnt d1 d2 t k, None)"
  unfolding test_same_file_def
  by (rule fork_same [OF d h], simp, simp, simp, erule check_and_unlink(3) [OF d]) (simp_all add: k)

lemma pass_same_server:
  assumes d: "dir_path mnt xs d1" and h: "holds (bytes xs) D UNIV Map.empty m"
    and k: "\<And>m t. holds (bytes xs) D UNIV Map.empty m \<Longrightarrow> passes (m, k t, None)"
  shows "passes (m, test_same_server mnt d1 t k, None)"
  unfolding test_same_server_def
  by (rule fork_same [OF d d h], simp, simp, simp, erule check_and_unlink(2) [OF d d]) (simp_all add: k)

end
