(* ===== verification/Tests_Write.thy ===== *)
theory Tests_Write
  imports Tests_Shared
begin

text \<open>
  Two processes that write different parts of one file, a byte at a time.
\<close>

section \<open>Parts of a file\<close>

text \<open>The file under name \<open>n\<close> stays the same file, with its length and its bytes at the positions \<open>S\<close>.\<close>

definition part_kept :: "fname \<Rightarrow> inum \<Rightarrow> fname \<Rightarrow> nat set \<Rightarrow> tree \<Rightarrow> tree \<Rightarrow> bool" where
  "part_kept x D n S m m' \<longleftrightarrow> (inside x D m \<longrightarrow> inside x D m' \<and>
     (\<forall>i b. entry m D n = Some (i, b) \<longrightarrow>
       (\<exists>b'. entry m' D n = Some (i, b') \<and> length b' = length b \<and> (\<forall>j \<in> S. b' ! j = b ! j))))"

interpretation parts: rely_pair "part_kept x D n S" "part_kept x D n (- S)" id "part_kept x D n (- S)" "part_kept x D n S"
  by unfold_locales (fastforce simp: part_kept_def)+

definition part :: "fname \<Rightarrow> inum \<Rightarrow> fname \<Rightarrow> nat set \<Rightarrow> inum \<Rightarrow> nat \<Rightarrow> (nat \<Rightarrow> byte) \<Rightarrow> tree \<Rightarrow> bool" where
  "part x D n S i l v m \<longleftrightarrow> inside x D m \<and>
     (\<exists>b. entry m D n = Some (i, b) \<and> length b = l \<and> (\<forall>j \<in> S. b ! j = v j))"

abbreviation prun :: "fname \<Rightarrow> inum \<Rightarrow> fname \<Rightarrow> nat set \<Rightarrow> (proc \<Rightarrow> tree \<Rightarrow> bool) \<Rightarrow> proc \<Rightarrow> tree \<Rightarrow> bool" where
  "prun x D n S \<equiv> rg id (part_kept x D n S) (part_kept x D n (- S))"

lemma part_stays: "part x D n S i l v m \<Longrightarrow> part_kept x D n S m m' \<Longrightarrow> part x D n S i l v m'"
  by (fastforce simp: part_def part_kept_def)

lemma prun_op:
  assumes "part x D n S i l v m"
    and "\<And>m. part x D n S i l v m \<Longrightarrow> \<exists>a m'. tree_step q a m m'"
    and "\<And>m a m'. part x D n S i l v m \<Longrightarrow> tree_step q a m m' \<Longrightarrow> part_kept x D n (- S) m m' \<and> prun x D n S F (k a) m'"
  shows "prun x D n S F (Op q k) m"
  by (rule rg_op) (use assms part_stays [OF assms(1)] in \<open>force+\<close>)

lemma prun_ask:
  assumes "part x D n S i l v m" and "\<And>m a m'. part x D n S i l v m \<Longrightarrow> tree_step q a m m' \<longleftrightarrow> a = r \<and> m' = m"
    and "\<And>m. part x D n S i l v m \<Longrightarrow> prun x D n S F (k r) m"
  shows "prun x D n S F (Op q k) m"
  by (rule prun_op [OF assms(1)]) (use assms(2,3) parts.parent.R_refl in auto)

lemma part_inside: "part x D n S i l v m \<Longrightarrow> inside x D m"
  by (simp add: part_def)

lemma prun_open:
  assumes "dir_path mnt xs d" "tname f" "part (bytes xs) D (bytes f) S i l v m"
    and "\<And>m fd t. part (bytes xs) D (bytes f) S i l v m \<Longrightarrow> opens i (fl = O_WRONLY_APPEND) fd t \<Longrightarrow>
      prun (bytes xs) D (bytes f) S F (k fd 0 t) m"
  shows "prun (bytes xs) D (bytes f) S F (sys_open mnt fl (d @ CHR ''/'' # f) t k) m"
proof -
  have mnt: "mnt (d @ CHR ''/'' # f) = Some [xs, f]" using assms(1,2) by (simp add: dir_path_def tname_def)
  have look: "tree_step (Rq_lookup D (bytes f)) a m m' \<longleftrightarrow> a = An_ino i \<and> m' = m"
    if "part (bytes xs) D (bytes f) S i l v m" for m a m'
    using that ask_inside [OF part_inside [OF that]] by (auto simp: part_def)
  show ?thesis
    unfolding sys_open_def parent_dir_def mnt
    by (simp split del: if_split, rule prun_ask [OF assms(3) ask_root [OF part_inside]], assumption, simp split del: if_split,
        rule prun_ask, assumption, erule look, simp, rule orun_opened, rule assms(4)) auto
qed

lemma pwrite_byte: "off < length b \<Longrightarrow> pwrite off [c] b = b[off := c]"
  by (simp add: pwrite_def upd_conv_take_nth_drop)

lemma prun_write:
  assumes "part x D n S i l v m" "off \<in> S" "off < l" "of_ino f = i"
    and "\<And>m. part x D n S i l (v(off := c)) m \<Longrightarrow> prun x D n S F (k 1 (fd_set t fd (Some (f\<lparr>of_off := Suc off\<rparr>)))) m"
  shows "prun x D n S F (write_at fd f off [c] t k) m"
  unfolding write_at_def assms(4)
proof (rule prun_op [OF assms(1)])
  fix m assume p: "part x D n S i l v m"
  then obtain b where b: "entry m D n = Some (i, b)" "length b = l" "\<And>j. j \<in> S \<Longrightarrow> b ! j = v j"
    by (auto simp: part_def)
  note leaf = entry_SomeD(1) [OF part_inside [OF p] b(1)]
  have w: "pwrite off [c] b = b[off := c]" using assms(3) b(2) by (simp add: pwrite_byte)
  note q = ask_leaf(2) [where m = m, OF leaf, of off "[c]", unfolded w]
  show "\<exists>a m'. tree_step (Rq_write i off [c]) a m m'" using q by blast
  fix a m' assume "tree_step (Rq_write i off [c]) a m m'"
  then have a: "a = An_ok" and m': "m' = m(i \<mapsto> Leaf 2 (b[off := c]))" using q by auto
  note s = set_entry [OF part_inside [OF p] b(1) m']
  have "part_kept x D n (- S) m m'"
  proof -
    have "b[off := c] ! j = b ! j" if "j \<in> - S" for j using that assms(2) by (cases "j = off") auto
    then show ?thesis using s b by (simp add: part_kept_def)
  qed
  moreover have "part x D n S i l (v(off := c)) m'"
    using s b assms(3) by (auto simp: part_def nth_list_update)
  ultimately show "part_kept x D n (- S) m m' \<and> prun x D n S F
      (case a of An_ok \<Rightarrow> k (int (length [c])) (fd_set t fd (Some (f\<lparr>of_off := off + length [c]\<rparr>))) | _ \<Rightarrow> k (-1) t) m'"
    using a assms(5) by simp
qed

lemma prun_write1_loop:
  assumes "part x D n S i l v m" "{off ..< off + c} \<subseteq> S" "off + c \<le> l"
    and "fd_get t fd = Some f" "of_ino f = i" "of_off f = off" "\<not> of_app f"
    and "\<And>m t f. part x D n S i l (\<lambda>j. if j \<in> {off ..< off + c} then w else v j) m \<Longrightarrow> fd_get t fd = Some f \<Longrightarrow> prun x D n S F (k t) m"
  shows "prun x D n S F (write1_loop fd w c t k) m"
  using assms
proof (induction c arbitrary: off v m t f)
  case 0
  then show ?case by simp
next
  case (Suc c)
  have off: "off \<in> S" "off < l" "{Suc off ..< Suc off + c} \<subseteq> S" "Suc off + c \<le> l" using Suc.prems(2,3) by auto
  have v: "(\<lambda>j. if j \<in> {Suc off ..< Suc off + c} then w else (v(off := w)) j) = (\<lambda>j. if j \<in> {off ..< off + Suc c} then w else v j)"
    by (auto simp: fun_eq_iff)
  show ?case
    unfolding write1_loop.simps sys_write_def Suc.prems(4) option.case
  proof (simp only: Suc.prems(6,7) if_False, rule prun_write [OF Suc.prems(1) off(1,2) Suc.prems(5)])
    fix m assume p: "part x D n S i l (v(off := w)) m"
    let ?t = "fd_set t fd (Some (f\<lparr>of_off := Suc off\<rparr>))"
    have t: "fd_get ?t fd = Some (f\<lparr>of_off := Suc off\<rparr>)" using Suc.prems(4) by simp
    have "prun x D n S F (write1_loop fd w c ?t k) m"
      by (rule Suc.IH [OF p off(3,4) t]) (use Suc.prems(5,7,8) v in auto)
    then show "prun x D n S F (if 1 \<noteq> (1 :: int) then Exit_code 1
      else sys_fsync fd ?t (\<lambda>r. if r \<noteq> 0 then Exit_code 1 else write1_loop fd w c ?t k)) m"
      by (simp add: sys_fsync_def t)
  qed
qed

lemma prun_write1:
  assumes "dir_path mnt xs d" "tname f" "part (bytes xs) D (bytes f) S i l v m" "{off ..< off + c} \<subseteq> S" "off + c \<le> l"
    and "\<And>m t. part (bytes xs) D (bytes f) S i l (\<lambda>j. if j \<in> {off ..< off + c} then w else v j) m \<Longrightarrow>
      prun (bytes xs) D (bytes f) S F (k t) m"
  shows "prun (bytes xs) D (bytes f) S F (write1 mnt d f off c w t k) m"
  unfolding write1_def Let_def append_Cons append_Nil sprintf512_path [OF assms(1,2)]
proof (rule prun_open [OF assms(1-3)])
  fix m fd t assume p: "part (bytes xs) D (bytes f) S i l v m" and o: "opens i (O_WRONLY_CREAT = O_WRONLY_APPEND) fd t"
  have g: "fd_get t fd = Some \<lparr>of_ino = i, of_off = 0, of_app = False\<rparr>" and fd: "\<not> fd < 0" using o by simp_all
  have "prun (bytes xs) D (bytes f) S F (write1_loop fd w c (fd_set t fd (Some \<lparr>of_ino = i, of_off = off, of_app = False\<rparr>))
      (\<lambda>t. sys_close fd t (\<lambda>r t. if r \<noteq> 0 then Exit_code 1 else k t))) m"
    by (rule prun_write1_loop [OF p assms(4,5)]) (use g assms(6) in \<open>auto simp: sys_close_ok\<close>)
  then show "prun (bytes xs) D (bytes f) S F (if fd < 0 \<and> 0 = EEXIST
      then sys_open mnt O_WRONLY (d @ CHR ''/'' # f) t (\<lambda>fd errno t. if fd < 0 then Exit_code 1 else sys_lseek fd off t
        (\<lambda>r t. if r \<noteq> int off then Exit_code 1 else write1_loop fd w c t (\<lambda>t. sys_close fd t (\<lambda>r t. if r \<noteq> 0 then Exit_code 1 else k t))))
      else if fd < 0 then Exit_code 1 else sys_lseek fd off t
        (\<lambda>r t. if r \<noteq> int off then Exit_code 1 else write1_loop fd w c t (\<lambda>t. sys_close fd t (\<lambda>r t. if r \<noteq> 0 then Exit_code 1 else k t)))) m"
    using fd by (simp add: sys_lseek_def g)
qed

section \<open>Reading the parts\<close>

lemma run_checkread_loop:
  assumes "has x D N W m" "n \<in> N" "W n = Some (i, b)" "off + c \<le> length b" "\<And>j. j \<in> {off ..< off + c} \<Longrightarrow> b ! j = w"
    and "fd_get t fd = Some f" "of_ino f = i" "of_off f = off"
    and "\<And>m t f. has x D N W m \<Longrightarrow> fd_get t fd = Some f \<Longrightarrow> orun x D N F (k t) m"
  shows "orun x D N F (checkread_loop fd w c t k) m"
  using assms(1,4-)
proof (induction c arbitrary: off m t f)
  case 0
  then show ?case by simp
next
  case (Suc c)
  have one: "take 1 (drop (of_off f) b) = [w]"
    using Suc.prems(2,3,6) by (simp add: take_Suc_conv_app_nth hd_drop_conv_nth take_Suc)
  have t: "fd_get (fd_set t fd (Some (f\<lparr>of_off := of_off f + length [w]\<rparr>))) fd = Some (f\<lparr>of_off := Suc off\<rparr>)"
    using Suc.prems(4,6) by simp
  show ?case
    unfolding checkread_loop.simps
    by (rule orun_sys_read [OF Suc.prems(1) assms(2,3) Suc.prems(4,5)], unfold one, simp,
        rule Suc.IH [where off = "Suc off", OF _ _ _ t [simplified]]) (use Suc.prems in auto)
qed

lemma run_checkread:
  assumes "dir_path mnt xs d" "tname f" "bytes f \<in> N" "holds (bytes xs) D N V m" "V (bytes f) = Some b"
    and "off + c \<le> length b" "\<And>j. j \<in> {off ..< off + c} \<Longrightarrow> b ! j = w"
    and "\<And>m t. holds (bytes xs) D N V m \<Longrightarrow> orun (bytes xs) D N F (k t) m"
  shows "orun (bytes xs) D N F (checkread mnt d f off c w t k) m"
proof -
  obtain W where W: "has (bytes xs) D N W m" "\<And>n. n \<in> N \<Longrightarrow> map_option snd (W n) = V n"
    by (rule holds_has [OF assms(4)]) blast
  obtain i where i: "W (bytes f) = Some (i, b)" using W(2) [OF assms(3)] assms(5) by auto
  show ?thesis
    unfolding checkread_def Let_def append_Cons append_Nil sprintf512_path [OF assms(1,2)]
  proof (rule orun_open [OF assms(1-3) W(1) i])
    fix m fd t assume h: "has (bytes xs) D N W m" and o: "opens i (O_RDONLY = O_WRONLY_APPEND) fd t"
    have g: "fd_get t fd = Some \<lparr>of_ino = i, of_off = 0, of_app = False\<rparr>" and fd: "\<not> fd < 0" using o by simp_all
    have "orun (bytes xs) D N F (checkread_loop fd w c (fd_set t fd (Some \<lparr>of_ino = i, of_off = off, of_app = False\<rparr>))
        (\<lambda>t. sys_close fd t (\<lambda>r. k))) m"
      by (rule run_checkread_loop [OF h assms(3) i assms(6,7)])
        (use g in \<open>auto simp: sys_close_ok intro!: assms(8) has_holds W(2)\<close>)
    then show "orun (bytes xs) D N F (if fd < 0 then Exit_code 1 else sys_lseek fd off t
        (\<lambda>r t. if r \<noteq> int off then Exit_code 1 else checkread_loop fd w c t (\<lambda>t. sys_close fd t (\<lambda>r. k)))) m"
      using fd by (simp add: sys_lseek_def g)
  qed
qed

lemma pass_writes:
  assumes d: "dir_path mnt xs d1" "dir_path mnt xs d2" and h: "holds (bytes xs) D UNIV Map.empty m"
    and k: "\<And>m t. passes (m, k t, None)"
  shows "passes (m, test_writes mnt d1 d2 t k, None)"
proof -
  let ?x = "bytes xs" and ?f = "bytes ''www''" and ?S = "{..< 10000} :: nat set"
  let ?P = "\<lambda>S i v. part ?x D ?f S i 65535 v"
  have check: "passes (m, checkread mnt d1 ''www'' 0 64 49 t (\<lambda>t. checkread mnt d2 ''www'' 0 64 49 t (\<lambda>t.
      checkread mnt d1 ''www'' 10000 64 50 t (\<lambda>t. checkread mnt d2 ''www'' 10000 64 50 t k))), None)"
    if "?P ?S i (\<lambda>j. if j \<in> {0 ..< 0 + 64} then 49 else v j) m" "?P (- ?S) i (\<lambda>j. if j \<in> {10000 ..< 10000 + 64} then 50 else v' j) m" for m t i v v'
  proof -
    from that obtain b where b: "entry m D ?f = Some (i, b)" "length b = 65535" "\<And>j. j \<in> {0 ..< 0 + 64} \<Longrightarrow> b ! j = 49"
      "\<And>j. j \<in> {10000 ..< 10000 + 64} \<Longrightarrow> b ! j = 50" "inside ?x D m" by (auto simp: part_def)
    have h: "holds ?x D {?f} [?f \<mapsto> b] m" using b by (simp add: holds_def)
    have len: "0 + 64 \<le> length b" "10000 + 64 \<le> length b" using b(2) by simp_all
    note r = run_checkread [where f = "''www''" and V = "[?f \<mapsto> b]" and b = b and N = "{?f}"]
    show ?thesis
      by (rule passes_alone [where N = "{?f}"], rule r [OF d(1) _ _ h _ len(1) b(3)], simp_all,
        rule r [OF d(2) _ _ _ _ len(1) b(3)], simp_all, rule r [OF d(1) _ _ _ _ len(2) b(4)], simp_all,
        rule r [OF d(2) _ _ _ _ len(2) b(4)], simp_all, rule rg_stop, rule k)
  qed
  have fork: "passes (m, forking (write1 mnt d2 ''www'' 10000 64 50 t) (\<lambda>pid. write1 mnt d1 ''www'' 0 64 49 t (\<lambda>t. reap pid (
      checkread mnt d1 ''www'' 0 64 49 t (\<lambda>t. checkread mnt d2 ''www'' 0 64 49 t (\<lambda>t.
      checkread mnt d1 ''www'' 10000 64 50 t (\<lambda>t. checkread mnt d2 ''www'' 10000 64 50 t k)))))), None)"
    if "holds ?x D UNIV [?f \<mapsto> bytes huge] m" for m t
  proof (rule passes_forking)
    fix pid :: int assume pid: "0 < pid"
    from that have "map_option snd (entry m D ?f) = Some (bytes huge)" "inside ?x D m" by (simp_all add: holds_def)
    then obtain i where "entry m D ?f = Some (i, bytes huge)" "inside ?x D m" by auto
    then have part: "?P S i (\<lambda>j. bytes huge ! j) m" for S by (simp add: part_def huge_def)
    let ?A = "?P ?S i (\<lambda>j. if j \<in> {0 ..< 0 + 64} then 49 else bytes huge ! j)"
    let ?B = "?P (- ?S) i (\<lambda>j. if j \<in> {10000 ..< 10000 + 64} then 50 else bytes huge ! j)"
    let ?q = "\<lambda>t. checkread mnt d1 ''www'' 0 64 49 t (\<lambda>t. checkread mnt d2 ''www'' 0 64 49 t (\<lambda>t.
      checkread mnt d1 ''www'' 10000 64 50 t (\<lambda>t. checkread mnt d2 ''www'' 10000 64 50 t k)))"
    have p: "prun ?x D ?f ?S (\<lambda>c m. \<exists>j. c = Waitpid pid j \<and> ?A m \<and> (\<exists>t. j pid 0 = ?q t))
        (write1 mnt d1 ''www'' 0 64 49 t (\<lambda>t. reap pid (?q t))) m"
      by (rule prun_write1 [OF d(1) _ part], simp, force, simp, rule rg_stop, drule part_stays, assumption)
        (use pid in \<open>auto simp: reap_def\<close>)
    have c: "prun ?x D ?f (- ?S) (\<lambda>c m. c = Exit_code 0 \<and> ?B m) (write1 mnt d2 ''www'' 10000 64 50 t (\<lambda>t. Exit_code 0)) m"
      by (rule prun_write1 [OF d(2) _ part], simp, force, simp, rule rg_stop, drule part_stays, assumption) simp
    have "passes (id m, write1 mnt d1 ''www'' 0 64 49 t (\<lambda>t. reap pid (?q t)),
        Some (pid, write1 mnt d2 ''www'' 10000 64 50 t (\<lambda>t. Exit_code 0)))"
      by (rule parts.both_pass [OF p c [simplified double_compl]]) (use check in force)
    then show "passes (m, write1 mnt d1 ''www'' 0 64 49 t (\<lambda>t. reap pid (?q t)),
        Some (pid, write1 mnt d2 ''www'' 10000 64 50 t (\<lambda>t. Exit_code 0)))" by simp
  qed
  show ?thesis
    unfolding test_writes_def
    by (rule passes_alone, rule run_create1 [OF d(1) _ _ h], simp, simp, rule orun_rest, rule fork) assumption+
qed

end
