(* ===== verification/Test_Programs.thy ===== *)
theory Test_Programs
  imports Tests_Write Yfs_Props
begin

text \<open>
  The test programs as a whole: they pass when they are started on a file system whose root has
  no entry under the names they choose, through two mount points of it.
\<close>

section \<open>Mount points\<close>

text \<open>A path below the mount point \<open>a\<close> names the components that follow it.\<close>

definition mounted :: "mnt \<Rightarrow> string \<Rightarrow> bool" where
  "mounted mnt a \<longleftrightarrow> length a \<le> 300 \<and> (\<forall>p. mnt (a @ ''/'' @ p) = Some (split_path p))"

lemma split_plain: "CHR ''/'' \<notin> set p \<Longrightarrow> split_path p = [p]"
  by (induction p) auto

lemma split_slash: "CHR ''/'' \<notin> set p \<Longrightarrow> split_path (p @ CHR ''/'' # q) = p # split_path q"
  by (induction p) auto

lemma dir_path_mounted:
  assumes "mounted mnt a" "CHR ''/'' \<notin> set xs" "length xs \<le> 90"
  shows "dir_path mnt xs (a @ ''/'' @ xs)"
proof -
  have m: "mnt (a @ CHR ''/'' # p) = Some (split_path p)" for p using assms(1) by (simp add: mounted_def)
  have "mnt (a @ CHR ''/'' # xs) = Some [xs]" unfolding m by (simp add: split_plain assms(2))
  moreover have "mnt (a @ CHR ''/'' # xs @ CHR ''/'' # f) = Some [xs, f]" if "CHR ''/'' \<notin> set f" for f
    unfolding m using that by (simp add: split_slash split_plain assms(2))
  ultimately show ?thesis using assms(1,3) by (simp add: dir_path_def mounted_def)
qed

lemma print_pid:
  assumes "pid < 2 ^ 31"
  shows "CHR ''/'' \<notin> set (print_nat pid)" "length (print_nat pid) \<le> 10"
  using assms print_nat_digits [of pid] print_nat_plain length_print_nat [of pid 10] by auto

section \<open>Making the directories\<close>

lemma passes_ask:
  assumes "\<And>a m'. tree_step q a m m' \<longleftrightarrow> a = r \<and> m' = m" "passes (m, k r, None)"
  shows "passes (m, Op q k, None)"
proof (rule p_step [OF running(1) request_step(1)])
  show "(\<exists>a m'. tree_step q a m m') \<or> no_room q m" using assms(1) by blast
  show "passes z" if "run_step tree_step (m, Op q k, None) z" for z
    using that by cases (use assms in auto)
qed

lemma passes_access:
  assumes "mnt d = Some [xs]" "inside (bytes xs) D m" "passes (m, k 0, None)"
  shows "passes (m, sys_access mnt d k, None)"
  unfolding sys_access_def assms(1) option.case walk.simps
  by (rule passes_ask [OF ask_root [OF assms(2)]]) (use assms(3) in simp)

text \<open>\<open>mkdir\<close> of a new name in the root keeps all other nodes.\<close>

lemma passes_mkdir:
  assumes "mnt d = Some [xs]" and ok: "tree_ok m" and es: "m 1 = Some (Dir es)" "map_of es (bytes xs) = None"
    and k: "\<And>m' D. tree_ok m' \<Longrightarrow> holds (bytes xs) D UNIV Map.empty m' \<Longrightarrow> m D = None \<Longrightarrow>
      m' = m(D \<mapsto> Dir [], 1 \<mapsto> Dir (es @ [(bytes xs, D)])) \<Longrightarrow> passes (m', k 0, None)"
  shows "passes (m, sys_mkdir mnt d k, None)"
proof -
  let ?q = "Rq_create T_DIR 1 (bytes xs)"
  note c = ask_dir(4) [where m = m and p = 1, OF es]
  have "passes (m, Op ?q (\<lambda>a. case a of An_ino i \<Rightarrow> k 0 | _ \<Rightarrow> k (-1)), None)"
  proof (rule p_step [OF running(1) request_step(1)])
    show "(\<exists>a m'. tree_step ?q a m m') \<or> no_room ?q m" using c by (auto simp: no_room_def)
    fix z assume "run_step tree_step (m, Op ?q (\<lambda>a. case a of An_ino i \<Rightarrow> k 0 | _ \<Rightarrow> k (-1)), None) z"
    then obtain a m' where z: "z = (m', case a of An_ino i \<Rightarrow> k 0 | _ \<Rightarrow> k (-1), None)" and t: "tree_step ?q a m m'"
      by cases auto
    from t c obtain D where D: "a = An_ino D" "m D = None" "m' = m(D \<mapsto> Dir [], 1 \<mapsto> Dir (es @ [(bytes xs, D)]))"
      by blast
    have "D \<noteq> 1" using D(2) es(1) by auto
    then have l: "link m' 1 (bytes xs) = Some D" "m' D = Some (Dir [])" using D(3) es(2) by (simp_all add: link_def map_add_def)
    have ok': "tree_ok m'" by (rule tree_step_ok [OF t ok])
    have "inside (bytes xs) D m'" by (rule insideI [OF ok' l]) simp
    then have "holds (bytes xs) D UNIV Map.empty m'" using l(2) by (simp add: holds_def entry_def link_def)
    from k [OF ok' this D(2,3)] show "passes z" unfolding z D(1) by simp
  qed
  then show ?thesis
    unfolding sys_mkdir_def parent_dir_def assms(1)
    by simp (rule passes_ask [OF ask_dir(1) [where m = m and p = 1, OF es(1)]], simp add: es(2))
qed

text \<open>The directory \<open>xs\<close> is made through \<open>a\<close> and found through \<open>b\<close>.\<close>

lemma passes_one_dir:
  assumes m: "tree_ok m" "m 1 = Some (Dir es)" "map_of es (bytes (''d'' @ print_nat pid)) = None"
    and ab: "mounted mnt a" "mounted mnt b" and pid: "pid < 2 ^ 31"
    and k: "\<And>m D xs d1 d2. dir_path mnt xs d1 \<Longrightarrow> dir_path mnt xs d2 \<Longrightarrow> holds (bytes xs) D UNIV Map.empty m \<Longrightarrow>
      passes (m, k d1 d2, None)"
  shows "passes (m, one_dir mnt pid [prog, a, b] k, None)"
proof -
  let ?x = "''d'' @ print_nat pid"
  have "CHR ''/'' \<notin> set ?x" "length ?x \<le> 90" using print_pid [OF pid] by simp_all
  then have d: "dir_path mnt ?x (a @ ''/'' @ ?x)" "dir_path mnt ?x (b @ ''/'' @ ?x)"
    using ab by (blast intro: dir_path_mounted)+
  have at: "mnt (a @ ''/'' @ ?x) = Some [?x]" "mnt (b @ ''/'' @ ?x) = Some [?x]"
    "length (a @ ''/'' @ ?x) < 512" "length (b @ ''/'' @ ?x) < 512" using d by (auto simp: dir_path_def)
  have "passes (m, sys_mkdir mnt (a @ ''/'' @ ?x) (\<lambda>r. if r \<noteq> 0 then Exit_code 1
      else sprintf512 (b @ ''/'' @ ?x) (sys_access mnt (b @ ''/'' @ ?x)
        (\<lambda>r. if r \<noteq> 0 then Exit_code 1 else k (a @ ''/'' @ ?x) (b @ ''/'' @ ?x)))), None)"
  proof (rule passes_mkdir [where mnt = mnt and m = m and xs = ?x, OF at(1) m])
    fix m' D assume h: "holds (bytes ?x) D UNIV Map.empty m'"
    then have "inside (bytes ?x) D m'" by (simp add: holds_def)
    then have "passes (m', sys_access mnt (b @ ''/'' @ ?x) (\<lambda>r. if r \<noteq> 0 then Exit_code 1
        else k (a @ ''/'' @ ?x) (b @ ''/'' @ ?x)), None)"
      using k [OF d h] by (intro passes_access [where mnt = mnt and xs = ?x, OF at(2)]) auto
    then show "passes (m', if 0 \<noteq> (0 :: int) then Exit_code 1 else sprintf512 (b @ ''/'' @ ?x)
        (sys_access mnt (b @ ''/'' @ ?x) (\<lambda>r. if r \<noteq> 0 then Exit_code 1 else k (a @ ''/'' @ ?x) (b @ ''/'' @ ?x))), None)"
      using at(4) by (simp add: sprintf512_def)
  qed
  then show ?thesis using at(3) by (simp add: one_dir_def sprintf512_def Let_def cong: if_cong)
qed

lemma pass_concurrent:
  assumes d: "dir_path mnt xs d1" "dir_path mnt xs d2" and h: "holds (bytes xs) D UNIV Map.empty m"
  shows "passes (m, concurrent_tests mnt d1 d2 t (\<lambda>t. Exit_code 0), None)"
  unfolding concurrent_tests_def
  by (rule pass_concurrent_creates [OF d h], rule pass_same_file [OF d], assumption, rule pass_create_delete [OF d], assumption,
      rule pass_same_server [OF d(1)], assumption, rule pass_writes [OF d], assumption, rule p_exit)

lemma pass_sequential:
  assumes d: "dir_path mnt xs d1" "dir_path mnt xs d2" and h: "holds (bytes xs) D UNIV Map.empty m"
    and k: "\<And>m t. holds (bytes xs) D UNIV Map.empty m \<Longrightarrow> passes (m, k t, None)"
  shows "passes (m, sequential_tests mnt d1 d2 t k, None)"
  by (rule passes_alone, rule run_sequential [OF d h], rule orun_rest [where V = Map.empty], rule k)

section \<open>Two directories\<close>

lemma passes_dircheck:
  assumes "dir_path mnt xs d" "holds (bytes xs) D UNIV V m" "card (dom V) = nf" "nf \<le> 1000"
    and tn: "dom V \<subseteq> bytes ` Collect tname" and k: "passes (m, k t, None)"
  shows "passes (m, dircheck mnt d nf t k, None)"
proof -
  have mnt: "mnt d = Some [xs]" using assms(1) by (simp add: dir_path_def)
  have i: "inside (bytes xs) D m" and V: "\<And>n. map_option snd (entry m D n) = V n" using assms(2) by (simp_all add: holds_def)
  obtain es where es: "m D = Some (Dir es)" "distinct (map fst es)" "\<And>n. link m D n = map_of es n"
    by (rule insideD [OF i]) blast
  have "n \<in> dom V \<longleftrightarrow> map_of es n \<noteq> None" for n
    using entry_NoneD [OF i, of n] V [of n] es(3) by (metis domIff map_option_is_None)
  then have dom: "fst ` set es = dom V" by (auto simp: map_of_eq_None_iff)
  show ?thesis
    unfolding dircheck_seen sys_readdir_def mnt option.case walk.simps
    by (rule passes_ask [OF ask_root [OF i]], unfold fans.case option.case, rule passes_ask [OF ask_dir(2) [where m = m and p = D, OF es(1)]])
      (simp only: fans.case option.case dir_seen_ok [OF es(2) dom assms(3,4) tn] k)
qed

lemma dirs_apart:
  "Da \<noteq> Db \<Longrightarrow> rely_pair (keeps xa Da UNIV) (keeps xb Db UNIV) (only xa Da UNIV) (only xb Db UNIV)"
  by unfold_locales (auto intro: only_keeps)

text \<open>All but one of the files of a group are removed.\<close>

lemma run_all_but_one:
  assumes "dir_path mnt xs d" "tname p" "length p \<le> 2" "0 < nf" "nf \<le> 100" "holds (bytes xs) D UNIV Map.empty m"
    and k: "\<And>m t. holds (bytes xs) D UNIV [bytes (nm p (nf - 1)) \<mapsto> le_enc 4 (nf - 1)] m \<Longrightarrow> orun (bytes xs) D UNIV F (k t) m"
  shows "orun (bytes xs) D UNIV F (createn mnt d p nf False t (\<lambda>t. unlinkn mnt d p (nf - 1) t k)) m"
proof -
  obtain n where n: "nf = Suc n" using assms(4) by (cases nf) auto
  have V: "numbered p [0..<Suc n] |` (- names p [0..<n]) = [bytes (nm p n) \<mapsto> le_enc 4 n]"
  proof
    fix y show "(numbered p [0..<Suc n] |` (- names p [0..<n])) y = [bytes (nm p n) \<mapsto> le_enc 4 n] y"
    proof (cases "y \<in> names p [0..<Suc n]")
      case True
      then obtain i where "y = bytes (nm p i)" "i < Suc n" by (auto simp: names_def)
      then show ?thesis by (auto simp: restrict_map_def less_Suc_eq simp del: upt_Suc)
    next
      case False
      then have "numbered p [0..<Suc n] y = None" "y \<noteq> bytes (nm p n)" by (auto simp: numbered_None simp del: upt_Suc)
      then show ?thesis by (simp add: restrict_map_def del: upt_Suc)
    qed
  qed
  show ?thesis
    unfolding n
    by (rule run_createn [OF assms(1-3) _ subset_UNIV assms(6)], use assms(5) n in simp, unfold empty_map_add diff_Suc_1,
        rule run_unlinkn [where V = "numbered p [0..<Suc n]", OF assms(1-3)], use assms(5) n in simp, force simp: names_def, assumption)
      (use k n V in \<open>simp del: upt_Suc\<close>)
qed

lemma fork_dirs:
  assumes d: "dir_path mnt xa d1" "dir_path mnt xb d2" and ne: "Da \<noteq> Db" and nf: "0 < nf" "nf \<le> 100"
    and h: "holds (bytes xa) Da UNIV Map.empty m" "holds (bytes xb) Db UNIV Map.empty m"
  shows "passes (m, forking (\<lambda>stop. createn mnt d2 ''xx'' nf False t (\<lambda>t. unlinkn mnt d2 ''xx'' (nf - 1) t stop)) (\<lambda>pid.
    createn mnt d1 ''yy'' nf False t (\<lambda>t. unlinkn mnt d1 ''yy'' (nf - 1) t (\<lambda>t. reap pid (
    dircheck mnt d1 1 t (\<lambda>t. dircheck mnt d2 1 t (\<lambda>t. Exit_code 0)))))), None)"
proof (rule passes_forking)
  fix pid :: int assume pid: "0 < pid"
  let ?last = "\<lambda>p. [bytes (nm p (nf - 1)) \<mapsto> le_enc 4 (nf - 1)]"
  let ?A = "holds (bytes xa) Da UNIV (?last ''yy'')" and ?B = "holds (bytes xb) Db UNIV (?last ''xx'')"
  let ?q = "\<lambda>t. dircheck mnt d1 1 t (\<lambda>t. dircheck mnt d2 1 t (\<lambda>t. Exit_code 0))"
  have dom: "card (dom (?last p)) = 1" "(1 :: nat) \<le> 1000" "tname p \<Longrightarrow> length p \<le> 2 \<Longrightarrow> dom (?last p) \<subseteq> bytes ` Collect tname" for p
    using nf tname_nm [of p "nf - 1"] by auto
  have p: "orun (bytes xa) Da UNIV (\<lambda>c m. \<exists>j. c = Waitpid pid j \<and> ?A m \<and> (\<exists>t. j pid 0 = ?q t))
      (createn mnt d1 ''yy'' nf False t (\<lambda>t. unlinkn mnt d1 ''yy'' (nf - 1) t (\<lambda>t. reap pid (?q t)))) m"
    by (rule run_all_but_one [OF d(1) _ _ nf h(1)], simp, simp, rule orun_rest) (use pid in \<open>auto simp: reap_def\<close>)
  have c: "orun (bytes xb) Db UNIV (\<lambda>c m. c = Exit_code 0 \<and> ?B m)
      (createn mnt d2 ''xx'' nf False t (\<lambda>t. unlinkn mnt d2 ''xx'' (nf - 1) t (\<lambda>t. Exit_code 0))) m"
    by (rule run_all_but_one [OF d(2) _ _ nf h(2)], simp, simp, rule orun_rest) auto
  have fin: "passes (id m, ?q t, None)" if "?A m" "?B m" for m t
    unfolding id_apply
    by (rule passes_dircheck [OF d(1) that(1) dom(1,2)], rule dom(3), simp, simp,
        rule passes_dircheck [OF d(2) that(2) dom(1,2)], rule dom(3), simp, simp, rule p_exit)
  have "passes (id m, createn mnt d1 ''yy'' nf False t (\<lambda>t. unlinkn mnt d1 ''yy'' (nf - 1) t (\<lambda>t. reap pid (?q t))),
      Some (pid, createn mnt d2 ''xx'' nf False t (\<lambda>t. unlinkn mnt d2 ''xx'' (nf - 1) t (\<lambda>t. Exit_code 0))))"
    by (rule rely_pair.both_pass [OF dirs_apart [OF ne] p c]) (use fin in force)
  then show "passes (m, createn mnt d1 ''yy'' nf False t (\<lambda>t. unlinkn mnt d1 ''yy'' (nf - 1) t (\<lambda>t. reap pid (?q t))),
      Some (pid, createn mnt d2 ''xx'' nf False t (\<lambda>t. unlinkn mnt d2 ''xx'' (nf - 1) t (\<lambda>t. Exit_code 0))))" by simp
qed

lemma new_dir_holds:
  assumes "holds x D UNIV Map.empty m" "m 1 = Some (Dir es)" "m i = None" "map_of es y = None" "m' = m(i \<mapsto> Dir [], 1 \<mapsto> Dir (es @ [(y, i)]))" "tree_ok m'"
  shows "holds x D UNIV Map.empty m'"
proof -
  have in_m: "inside x D m" and none: "\<And>n. entry m D n = None" using assms(1) by (simp_all add: holds_def)
  obtain ds where D: "D \<noteq> 1" "m D = Some (Dir ds)" "link m 1 x = Some D" "\<And>n. link m D n = map_of ds n"
    by (rule insideD [OF in_m]) blast
  have "map_of ds n = None" for n using none [of n] entry_NoneD [OF in_m, of n] D(4) by simp
  then have ds: "ds = []" by (cases ds) (auto, metis option.distinct(1))
  have "x \<noteq> y" using D(3) assms(2,4) by (auto simp: link_def)
  then have "link m' 1 x = Some D" "m' D = Some (Dir [])"
    using D ds assms(2,3,5) by (auto simp: link_def map_add_def split: option.splits)
  then show ?thesis using assms(6) by (auto simp: holds_def inside_def entry_def link_def)
qed

lemma passes_two_dirs:
  assumes m: "tree_ok m" "m 1 = Some (Dir es)" "map_of es (bytes (''da'' @ print_nat pid)) = None" "map_of es (bytes (''db'' @ print_nat pid)) = None"
    and ab: "mounted mnt a" "mounted mnt b" and pid: "pid < 2 ^ 31" and nf: "0 < nf" "nf \<le> 100"
  shows "passes (m, two_dirs nf mnt pid [prog, a, b], None)"
proof -
  let ?x = "''da'' @ print_nat pid" and ?y = "''db'' @ print_nat pid"
  have "CHR ''/'' \<notin> set ?x" "length ?x \<le> 90" "CHR ''/'' \<notin> set ?y" "length ?y \<le> 90" using print_pid [OF pid] by simp_all
  then have d: "dir_path mnt ?x (a @ ''/'' @ ?x)" "dir_path mnt ?y (b @ ''/'' @ ?y)" "dir_path mnt ?x (b @ ''/'' @ ?x)"
    using ab by (blast intro: dir_path_mounted)+
  have at: "mnt (a @ ''/'' @ ?x) = Some [?x]" "mnt (b @ ''/'' @ ?y) = Some [?y]" "mnt (b @ ''/'' @ ?x) = Some [?x]"
    and s: "sprintf512 (a @ ''/'' @ ?x) k = k" "sprintf512 (b @ ''/'' @ ?y) k = k" "sprintf512 (b @ ''/'' @ ?x) k = k" for k
    using d by (auto simp: dir_path_def sprintf512_def)
  let ?rest = "forking (\<lambda>stop. createn mnt (b @ ''/'' @ ?y) ''xx'' nf False [] (\<lambda>t. unlinkn mnt (b @ ''/'' @ ?y) ''xx'' (nf - 1) t stop)) (\<lambda>pid.
    createn mnt (a @ ''/'' @ ?x) ''yy'' nf False [] (\<lambda>t. unlinkn mnt (a @ ''/'' @ ?x) ''yy'' (nf - 1) t (\<lambda>t. reap pid (
    dircheck mnt (a @ ''/'' @ ?x) 1 t (\<lambda>t. dircheck mnt (b @ ''/'' @ ?y) 1 t (\<lambda>t. Exit_code 0))))))"
  have "passes (m, sys_mkdir mnt (a @ ''/'' @ ?x) (\<lambda>r. if r \<noteq> 0 then Exit_code 1 else
      sys_mkdir mnt (b @ ''/'' @ ?y) (\<lambda>r. if r \<noteq> 0 then Exit_code 1 else
      sys_access mnt (b @ ''/'' @ ?x) (\<lambda>r. if r \<noteq> 0 then Exit_code 1 else ?rest))), None)"
  proof (rule passes_mkdir [where mnt = mnt and m = m and xs = ?x, OF at(1) m(1-3)], unfold if_not_P [of "\<not> _", unfolded not_not] simp_thms if_False)
    fix m1 Da assume ok: "tree_ok m1" and ha: "holds (bytes ?x) Da UNIV Map.empty m1" and Da: "m Da = None"
      and m1: "m1 = m(Da \<mapsto> Dir [], 1 \<mapsto> Dir (es @ [(bytes ?x, Da)]))"
    have r: "m1 1 = Some (Dir (es @ [(bytes ?x, Da)]))" "map_of (es @ [(bytes ?x, Da)]) (bytes ?y) = None"
      using m1 m(4) by (simp_all add: map_add_def bytes_def)
    show "passes (m1, sys_mkdir mnt (b @ ''/'' @ ?y) (\<lambda>r. if r \<noteq> 0 then Exit_code 1 else
      sys_access mnt (b @ ''/'' @ ?x) (\<lambda>r. if r \<noteq> 0 then Exit_code 1 else ?rest)), None)"
    proof (rule passes_mkdir [where mnt = mnt and m = m1 and xs = ?y, OF at(2) ok r], unfold simp_thms if_False)
      fix m2 Db assume ok2: "tree_ok m2" and hb: "holds (bytes ?y) Db UNIV Map.empty m2" and Db: "m1 Db = None"
        and m2: "m2 = m1(Db \<mapsto> Dir [], 1 \<mapsto> Dir ((es @ [(bytes ?x, Da)]) @ [(bytes ?y, Db)]))"
      have h: "holds (bytes ?x) Da UNIV Map.empty m2" by (rule new_dir_holds [OF ha r(1) Db r(2) m2 ok2])
      have "Da \<noteq> Db" using Db m1 by (auto split: if_splits)
      then have "passes (m2, ?rest, None)" by (rule fork_dirs [OF d(1,2) _ nf h hb])
      moreover have "inside (bytes ?x) Da m2" using h by (simp add: holds_def)
      ultimately show "passes (m2, sys_access mnt (b @ ''/'' @ ?x) (\<lambda>r. if r \<noteq> 0 then Exit_code 1 else ?rest), None)"
        by (intro passes_access [where mnt = mnt and xs = ?x, OF at(3)]) auto
    qed
  qed
  then show ?thesis using s by (simp add: two_dirs_def Let_def cong: if_cong)
qed

section \<open>The tests on the file system of the repository\<close>

text \<open>
  The requests of the processes answered by the operations of \<open>yfs_client.cc\<close>, of any client, over
  the extent server.
\<close>

definition yfs_serves :: "(cid \<Rightarrow> bool) \<Rightarrow> freq \<Rightarrow> fans \<Rightarrow> extent_world \<Rightarrow> extent_world \<Rightarrow> bool" where
  "yfs_serves up q a w w' \<longleftrightarrow>
     (\<exists>op. performs q a = Some op \<and> yfs_step up w op w') \<or>
     (\<exists>i ty b. q = Rq_size i \<and> a = An_size (length b) \<and> view (ext_fs w) i = Some (Leaf ty b) \<and> w' = w)"

definition seen :: "extent_world procs \<Rightarrow> tree procs" where
  "seen z = (view (ext_fs (fst z)), snd z)"

lemma yfs_serves_sim:
  assumes "yfs_serves up q a w w'" "yfs_inv w"
  shows "tree_step q a (view (ext_fs w)) (view (ext_fs w')) \<and> yfs_inv w'"
  using assms(1) unfolding yfs_serves_def
proof (elim disjE exE conjE)
  fix op assume op: "performs q a = Some op" "yfs_step up w op w'"
  have "sim w op w'" by (rule yfs_step_sim [OF op(2) assms(2)])
  then show ?thesis using t_op [OF op(1)] sim_inv [OF assms(2)] by (auto simp: sim_def)
qed (use assms(2) in \<open>auto intro: t_size\<close>)

lemma run_sim:
  assumes "run_step (yfs_serves up) z z'" "yfs_inv (fst z)"
  shows "run_step tree_step (seen z) (seen z') \<and> yfs_inv (fst z')"
  using assms by (cases rule: run_step.cases) (auto simp: seen_def dest!: yfs_serves_sim intro: run_step.intros)

lemma runs_sim:
  assumes "(run_step (yfs_serves up))\<^sup>*\<^sup>* z z'" "yfs_inv (fst z)" "passes (seen z)"
  shows "passes (seen z') \<and> yfs_inv (fst z')"
  using assms
proof (induction rule: rtranclp_induct)
  case (step y z)
  then have "passes (seen y)" "run_step tree_step (seen y) (seen z)" "yfs_inv (fst z)" using run_sim by blast+
  then show ?case using passes_stepD by (metis surj_pair)
qed simp

lemma passes_finite: "passes z \<Longrightarrow> f 0 = z \<Longrightarrow> \<exists>i. \<not> run_step tree_step (f i) (f (Suc i))"
proof (induction z arbitrary: f rule: passes.induct)
  case (p_exit m)
  then show ?case by (intro exI [of _ 0]) (auto elim: run_step.cases)
next
  case (p_step p m c)
  show ?case
  proof (cases "run_step tree_step (f 0) (f 1)")
    case True
    then have "\<exists>i. \<not> run_step tree_step (f (Suc i)) (f (Suc (Suc i)))"
      by (intro p_step(4) [of "f 1" "\<lambda>i. f (Suc i)"]) (simp_all add: p_step(5) [symmetric])
    then show ?thesis by blast
  qed (auto intro: exI [of _ 0])
qed

text \<open>A program that passes neither fails nor runs forever over the file system of the repository.\<close>

lemma never_fails:
  assumes "yfs_inv w" "passes (view (ext_fs w), p, None)"
  shows "\<not> (\<exists>w' q c. (run_step (yfs_serves up))\<^sup>*\<^sup>* (w, p, None) (w', q, c) \<and> ended q \<and> (q, c) \<noteq> (Exit_code 0, None))"
    "\<not> (\<exists>f. f 0 = (w, p, None) \<and> (\<forall>i. run_step (yfs_serves up) (f i) (f (Suc i))))"
proof -
  have s: "yfs_inv (fst (w, p, None))" "passes (seen (w, p, None))" using assms by (simp_all add: seen_def)
  show "\<not> (\<exists>w' q c. (run_step (yfs_serves up))\<^sup>*\<^sup>* (w, p, None) (w', q, c) \<and> ended q \<and> (q, c) \<noteq> (Exit_code 0, None))"
    using runs_sim [OF _ s] passes_ended by (fastforce simp: seen_def)
  show "\<not> (\<exists>f. f 0 = (w, p, None) \<and> (\<forall>i. run_step (yfs_serves up) (f i) (f (Suc i))))"
  proof
    assume "\<exists>f. f 0 = (w, p, None) \<and> (\<forall>i. run_step (yfs_serves up) (f i) (f (Suc i)))"
    then obtain f where f: "f 0 = (w, p, None)" "\<And>i. run_step (yfs_serves up) (f i) (f (Suc i))" by blast
    have "yfs_inv (fst (f i))" for i
    proof (induction i)
      case (Suc i)
      then show ?case using run_sim [OF f(2)] by blast
    qed (use f(1) s(1) in simp)
    then have "run_step tree_step (seen (f i)) (seen (f (Suc i)))" for i using run_sim [OF f(2)] by blast
    then show False using passes_finite [OF s(2), of "\<lambda>i. seen (f i)"] f(1) by simp
  qed
qed

section \<open>Two mount points\<close>

definition two_mounts :: mnt where
  "two_mounts p = (if take 5 p \<in> {''yfs1/'', ''yfs2/''} then Some (split_path (drop 5 p)) else None)"

lemma two_mounts: "mounted two_mounts ''yfs1''" "mounted two_mounts ''yfs2''" "tree_ok [1 \<mapsto> Dir []]"
  by (auto simp: mounted_def two_mounts_def tree_ok_def edge_def split: if_splits)

section \<open>Properties\<close>

text \<open>
  C11. \<open>test-lab2-part1-g.c\<close>, \<open>test-lab2-part2-a.c\<close> and \<open>test-lab-3-a.c\<close> pass on every tree whose root has no
  entry under the name the program chooses, whatever the order of the steps of their processes:
  every run is finite and ends with exit status 0 of the program.
\<close>

theorem one_dir_tests_pass:
  assumes "tree_ok m" "m 1 = Some (Dir es)" "map_of es (bytes (''d'' @ print_nat pid)) = None"
    and "mounted mnt a" "mounted mnt b" "pid < 2 ^ 31"
  shows "passes (m, test_lab2_part1_g mnt pid [prog, a, b], None) \<and>
    passes (m, test_lab2_part2_a mnt pid [prog, a, b], None) \<and>
    passes (m, test_lab_3_a mnt pid [prog, a, b], None)"
  unfolding test_lab2_part1_g_def test_lab2_part2_a_def test_lab_3_a_def
  by (intro conjI passes_one_dir [OF assms] pass_concurrent pass_sequential) (simp_all add: p_exit pass_concurrent)

theorem one_dir_tests_pass_witness:
  "passes ([1 \<mapsto> Dir []], test_lab2_part1_g two_mounts 7 [''test'', ''yfs1'', ''yfs2''], None) \<and>
   passes ([1 \<mapsto> Dir []], test_lab2_part2_a two_mounts 7 [''test'', ''yfs1'', ''yfs2''], None) \<and>
   passes ([1 \<mapsto> Dir []], test_lab_3_a two_mounts 7 [''test'', ''yfs1'', ''yfs2''], None)"
  by (rule one_dir_tests_pass [where es = "[]"]) (use two_mounts in simp_all)

text \<open>
  C13. The programs with two directories, \<open>test-lab2-part2-b.c\<close> and \<open>test-lab-3-b.c\<close>, pass in the same
  sense: two processes create and remove files in one directory each, and every run ends with one
  file left in each.
\<close>

theorem two_dir_tests_pass:
  assumes "tree_ok m" "m 1 = Some (Dir es)"
    and "map_of es (bytes (''da'' @ print_nat pid)) = None" "map_of es (bytes (''db'' @ print_nat pid)) = None"
    and "mounted mnt a" "mounted mnt b" "pid < 2 ^ 31"
  shows "passes (m, test_lab_3_b mnt pid [prog, a, b], None) \<and> passes (m, test_lab2_part2_b mnt pid [prog, a, b], None)"
  unfolding test_lab_3_b_def test_lab2_part2_b_def by (intro conjI passes_two_dirs [OF assms]) simp_all

theorem two_dir_tests_pass_witness:
  "passes ([1 \<mapsto> Dir []], test_lab_3_b two_mounts 7 [''test'', ''yfs1'', ''yfs2''], None) \<and>
   passes ([1 \<mapsto> Dir []], test_lab2_part2_b two_mounts 7 [''test'', ''yfs1'', ''yfs2''], None)"
  by (rule two_dir_tests_pass [where es = "[]"]) (use two_mounts in simp_all)



end
