(* ===== verification/Spec2Isabelle.thy ===== *)
theory Spec2Isabelle
  imports Inode_Faults Lock_Tester Lock_Rpc Extent_Props Fuse_Props Rpc_Props Handle Fifo Test_Programs
begin

text \<open>
  A verification development for yfs, a distributed file system: a FUSE daemon on each machine
  (\<open>fuse.cc\<close>, \<open>yfs_client.cc\<close>) keeps file and directory contents in an extent server
  (\<open>extent_server.cc\<close>, over a disk in memory, \<open>inode_manager.cc\<close>) through a write-back cache
  (\<open>extent_client.cc\<close>), and orders its accesses by locks of a lock server
  (\<open>lock_server_cache.cc\<close>), which its lock client caches (\<open>lock_client_cache.cc\<close>). The
  processes talk through an RPC library (\<open>rpc/\<close>), of which the templates are source and the
  rest is a binary. All paths are under \<open>src/\<close>.

  \<^bold>\<open>How the code is modelled.\<close> An operation is a HOL function from its arguments and the state
  to its result and the new state. Operations that may not return give a value of \<open>fault + 'a\<close>
  (\<open>Prelude\<close>): a call of \<open>exit\<close>, a null or dangling pointer, an access out of bounds, a failed
  assertion, a wait that nothing can end, an exception. Machine integers are words, files and
  buffers are byte lists, structures that the code casts buffers to are read and written byte
  by byte in the layout of the platform (little endian, 64 bit). What C++ leaves open, the
  contents of fresh heap and stack memory, and the clock come from a record \<open>env\<close> that every
  theorem quantifies over. Output to the terminal is left out. Code that is not in the
  repository (libfuse, the RPC library) is a parameter with its documented behaviour as a
  hypothesis.

  \<^bold>\<open>The storage stack.\<close>
  \<^item> \<open>Disk\<close>: \<open>class disk\<close> and \<open>class block_manager\<close> of \<open>inode_manager.h/.cc\<close>. The locale
    \<open>block_store\<close> states what the inode layer relies on and is interpreted on the block manager.
    Allocation returns blocks that are not in use, and hands out blocks beyond the disk.
  \<^item> \<open>Inode\<close>: \<open>struct inode\<close> and \<open>class inode_manager\<close>, every method. \<open>Inode_File\<close> relates
    the loops of \<open>read_file\<close> and \<open>write_file\<close> to lists of blocks, \<open>Inode_Correct\<close> gives for each
    method its effect on the map \<open>files\<close> from inode numbers to types and contents,
    \<open>Inode_Props\<close> lifts this to runs: they refine a map of files, what is written is read
    back, the blocks of different files are disjoint. \<open>Inode_Faults\<close> has the calls that go
    wrong: files beyond the largest size, lost indirect blocks, uninitialised inodes.
  \<^item> \<open>Extent_Protocol\<close>, \<open>Extent\<close>: \<open>extent_protocol.h\<close>, \<open>extent_server\<close> and \<open>extent_client\<close>,
    with the calls the server makes back to a client executed at once. \<open>Extent_Service\<close> states
    the service a file system relies on as a locale; \<open>Extent_Correct\<close> shows that the clients'
    caches together implement it and interprets the locale on them; \<open>Extent_Props\<close> has the
    coherence of the caches for runs of many clients, and where attributes and owners go stale.

  \<^bold>\<open>The file system.\<close>
  \<^item> \<open>Yfs_Client\<close>: \<open>class yfs_client\<close>. A lock that is held and asked for again blocks for good.
    \<open>Yfs_Dir\<close> is the format of directories, \<open>Yfs_Correct\<close> the effect of every operation over any
    extent service (inside the locale), \<open>Yfs_Tree\<close> an abstract file system and the shape a
    tree has, \<open>Yfs_Run\<close> the simulation for runs of many clients, \<open>Yfs_Props\<close> the properties.
  \<^item> \<open>Fuse\<close>, \<open>Fuse_Props\<close>: the handlers of \<open>fuse.cc\<close> and the replies they send.

  \<^bold>\<open>Locks.\<close>
  \<^item> \<open>Lock_Protocol\<close>, \<open>Lock_Server\<close>: \<open>lock_protocol.h\<close>, \<open>lock_server.cc\<close>, \<open>lock_client.cc\<close>.
    A method is cut at its waits into segments that run under the mutex.
  \<^item> \<open>Lock_Server_Cache\<close>, \<open>Lock_Client_Cache\<close>: the caching server and client, cut also where
    they release the mutex for an RPC. \<open>Lock_System\<close> composes one server, any number of clients
    and threads and the messages between them into a step relation and proves its invariant;
    \<open>Lock_Props\<close> has mutual exclusion, absence of faults and of deadlock, and what a spurious
    wake-up breaks; \<open>Lock_Settle\<close> a measure that shows that the service, left alone, comes to
    rest with every lock that is asked for held.

  \<^bold>\<open>Communication.\<close>
  \<^item> \<open>Rpc_Marshall\<close>, \<open>Rpc\<close>, \<open>Rpc_Props\<close>: the marshalling templates of \<open>rpc/marshall.h\<close>, the
    stubs of \<open>rpc/rpc.h\<close> and the table of \<open>extent_smain.cc\<close>; a call through them is the call
    of the method, which is what the extent layer assumes.
  \<^item> \<open>Lock_Rpc\<close>: the lock protocol over the same stubs, \<open>lock_smain.cc\<close>, \<open>lock_client.cc\<close> as an
    RPC client, and the demonstrations \<open>lock_demo.cc\<close>, \<open>demo_server.cc\<close> and \<open>demo_client.cc\<close>.
  \<^item> \<open>Names\<close>: decimal numbers as text, in \<open>n2i\<close> and \<open>filename\<close> of \<open>yfs_client.cc\<close> and in the addresses
    that the clients' constructors choose.
  \<^item> \<open>Handle\<close>: \<open>handle.cc\<close>, the cache of connections with its reference counts.
  \<^item> \<open>Fifo\<close>: \<open>rpc/fifo.h\<close>, the job queue of the RPC server and its condition variables.

  \<^bold>\<open>The test programs.\<close>
  \<^item> \<open>Lock_Tester\<close>: \<open>lock_tester.cc\<close>, its threads and counters over the caching lock service. Every
    run of it ends, with all tests passed.
  \<^item> \<open>Fs_Tests\<close>: the programs \<open>test-lab2-part1-g.c\<close>, \<open>test-lab2-part2-a.c\<close>, \<open>test-lab2-part2-b.c\<close>,
    \<open>test-lab-3-a.c\<close> and \<open>test-lab-3-b.c\<close>, over \<open>Posix\<close>: processes as trees of requests, descriptors,
    paths, \<open>fork\<close> and \<open>waitpid\<close>. Where a path leads is a parameter; that the two arguments of a
    program are mount points of one file system is a hypothesis (\<open>mounted\<close>).
  \<^item> \<open>Rely\<close> is a rely and guarantee calculus for a process and its child, as two locales that are
    interpreted three times: on processes that own different names of a directory (\<open>Dir_Rules\<close>,
    \<open>Tests_Concurrent\<close>), on processes that create the same files, with a record of the files each
    has yet to write (\<open>Tests_Shared\<close>), and on processes that write different parts of one file
    (\<open>Tests_Write\<close>). \<open>Test_Rules\<close> has a rule for each function of the tests, \<open>Tests_Pass\<close> the tests
    with one process.
  \<^item> \<open>Test_Programs\<close>: the programs pass on the abstract tree, in every order of their steps, and
    over the file system of the repository they can neither fail nor run forever.

  \<^bold>\<open>Bounds.\<close> No model uses fuel: loops are structural recursion or functions with a
  termination proof, and loops around a wait are step relations. Sizes and numbers are bounded
  only where a theorem says so. Runs of the file system take operations one after the other,
  as the locks order those on one inode; threads of the lock layer and of the job queue and the
  processes of the tests interleave freely.

  \<^bold>\<open>Not modelled.\<close> The transport of the RPC library (its headers only declare it), the thread
  helpers (\<open>slock.h\<close>, \<open>thr_pool.h\<close>, \<open>method_thread.h\<close>: wrappers of pthread calls), the mounting
  and session loop of \<open>main\<close> in \<open>fuse.cc\<close> and the caches of the kernel in front of it, the
  constructors' network set-up, the loops that keep the servers alive, and \<open>gettime.cc\<close> (MacOS
  only).
\<close>

end
